(* ===== verification/Prelude.thy ===== *)
theory Prelude
  imports Complex_Main
begin

text \<open>
  The development's shared vocabulary: Python text as lists of code points, the string methods
  the program calls (\<open>lower\<close>, \<open>upper\<close>, \<open>split\<close>, \<open>partition\<close>, \<open>strip\<close>, \<open>startswith\<close>,
  \<open>endswith\<close>, \<open>in\<close>, \<open>join\<close>, slicing), results that may be an exception, and the
  generic lemmas the components share.

  A Python \<open>str\<close> is a sequence of Unicode code points, a Python \<open>bytes\<close> a sequence of
  integers below 256. Both are lists of \<open>int\<close> here; the two synonyms keep them apart for the
  reader. A literal of the source is written \<open>lit ''...''\<close>.
\<close>

named_theorems py_simps \<open>equations of the Python string operations\<close>
named_theorems scan_simps \<open>first-match scanning of rule lists\<close>

type_synonym pystr = "int list"
type_synonym bytes = "int list"

definition lit :: "string \<Rightarrow> pystr" where
  "lit s = map of_char s"

text \<open>An exception of the source is a value; \<open>Inl\<close> is "raised", \<open>Inr\<close> "returned".\<close>

datatype py_error =
    UnicodeEncodeError | UnicodeDecodeError | JSONDecodeError | KeyError | ValueError
  | BinasciiError | IntegrityError | OSError | OtherException

type_synonym 'a result = "py_error + 'a"

subsection \<open>Characters\<close>

abbreviation in_range :: "int \<Rightarrow> int \<Rightarrow> int \<Rightarrow> bool" where
  "in_range a b c \<equiv> a \<le> c \<and> c \<le> b"

text \<open>
  \<open>str.lower\<close>, one code point at a time: exact below 256 and on the two code points above
  whose lower case contains an ASCII letter (U+0130 and the Kelvin sign U+212A). Every other
  code point above 255 is left alone; its lower case has no ASCII character, and the program
  compares lower-cased text with ASCII literals only.
\<close>

definition lower_cp :: "int \<Rightarrow> pystr" where
  "lower_cp c =
     (if in_range 65 90 c then [c + 32]
      else if in_range 192 222 c \<and> c \<noteq> 215 then [c + 32]
      else if c = 304 then [105, 775]
      else if c = 8490 then [107]
      else [c])"

definition py_lower :: "pystr \<Rightarrow> pystr" where
  "py_lower s = concat (map lower_cp s)"

text \<open>
  \<open>str.upper\<close>, exact on ASCII and on the code points above whose upper case contains an
  ASCII letter; the others are left alone.
\<close>

definition upper_table :: "(int \<times> pystr) list" where
  "upper_table =
     [(223, [83, 83]), (305, [73]), (329, [700, 78]), (383, [83]), (496, [74, 780]),
      (7830, [72, 817]), (7831, [84, 776]), (7832, [87, 778]), (7833, [89, 778]),
      (7834, [65, 702]), (64256, [70, 70]), (64257, [70, 73]), (64258, [70, 76]),
      (64259, [70, 70, 73]), (64260, [70, 70, 76]), (64261, [83, 84]), (64262, [83, 84])]"

definition upper_cp :: "int \<Rightarrow> pystr" where
  "upper_cp c =
     (if in_range 97 122 c then [c - 32]
      else case map_of upper_table c of Some u \<Rightarrow> u | None \<Rightarrow> [c])"

definition py_upper :: "pystr \<Rightarrow> pystr" where
  "py_upper s = concat (map upper_cp s)"

text \<open>\<open>str.isspace\<close>, the set \<open>strip\<close> and \<open>split\<close> use.\<close>

definition is_space :: "int \<Rightarrow> bool" where
  "is_space c \<longleftrightarrow>
     in_range 9 13 c \<or> in_range 28 32 c \<or> c = 133 \<or> c = 160 \<or> c = 5760 \<or>
     in_range 8192 8202 c \<or> c = 8232 \<or> c = 8233 \<or> c = 8239 \<or> c = 8287 \<or> c = 12288"

subsection \<open>String methods\<close>

definition startswith :: "pystr \<Rightarrow> pystr \<Rightarrow> bool" where
  "startswith s p \<longleftrightarrow> take (length p) s = p"

definition endswith :: "pystr \<Rightarrow> pystr \<Rightarrow> bool" where
  "endswith s p \<longleftrightarrow> length p \<le> length s \<and> drop (length s - length p) s = p"

text \<open>\<open>needle in haystack\<close>.\<close>

fun contains :: "pystr \<Rightarrow> pystr \<Rightarrow> bool" where
  "contains p [] = (p = [])"
| "contains p (c # cs) = (startswith (c # cs) p \<or> contains p cs)"

text \<open>\<open>s.split(sep)\<close> for a one-character separator: always at least one part.\<close>

fun split_on :: "int \<Rightarrow> pystr \<Rightarrow> pystr list" where
  "split_on d [] = [[]]"
| "split_on d (c # cs) =
     (if c = d then [] # split_on d cs
      else case split_on d cs of
             [] \<Rightarrow> [[c]]
           | w # ws \<Rightarrow> (c # w) # ws)"

text \<open>\<open>s.split()\<close>: the words between runs of white space.\<close>

function split_ws :: "pystr \<Rightarrow> pystr list" where
  "split_ws s =
     (let t = dropWhile is_space s
      in if t = [] then [] else takeWhile (\<lambda>c. \<not> is_space c) t # split_ws (dropWhile (\<lambda>c. \<not> is_space c) t))"
  by pat_completeness auto

termination
proof (relation "measure length", goal_cases)
  case (2 s t)
  then have "t \<noteq> []" "\<not> is_space (hd t)" using hd_dropWhile [of is_space s] by auto
  then obtain c t' where t: "t = c # t'" "\<not> is_space c" by (cases t) auto
  then have "length (dropWhile (\<lambda>c. \<not> is_space c) t) < length t"
    using length_dropWhile_le [of "\<lambda>c. \<not> is_space c" t'] by simp
  also have "length t \<le> length s" using 2 by (simp add: length_dropWhile_le)
  finally show ?case by simp
qed simp

declare split_ws.simps [simp del]

text \<open>\<open>s.partition(sep)\<close> where \<open>sep in s\<close>: the text before and after the first separator.\<close>

definition before_first :: "int \<Rightarrow> pystr \<Rightarrow> pystr" where
  "before_first d s = takeWhile (\<lambda>c. c \<noteq> d) s"

definition after_first :: "int \<Rightarrow> pystr \<Rightarrow> pystr" where
  "after_first d s = drop 1 (dropWhile (\<lambda>c. c \<noteq> d) s)"

definition lstrip_by :: "(int \<Rightarrow> bool) \<Rightarrow> pystr \<Rightarrow> pystr" where
  "lstrip_by P s = dropWhile P s"

definition strip_by :: "(int \<Rightarrow> bool) \<Rightarrow> pystr \<Rightarrow> pystr" where
  "strip_by P s = rev (dropWhile P (rev (dropWhile P s)))"

definition strip :: "pystr \<Rightarrow> pystr" where
  "strip s = strip_by is_space s"

text \<open>\<open>" ".join(parts)\<close> and \<open>" ".join(filter(None, parts))\<close>.\<close>

fun join_with :: "pystr \<Rightarrow> pystr list \<Rightarrow> pystr" where
  "join_with d [] = []"
| "join_with d [x] = x"
| "join_with d (x # y # ys) = x @ d @ join_with d (y # ys)"

definition join_nonempty :: "pystr list \<Rightarrow> pystr" where
  "join_nonempty parts = join_with [32] (filter (\<lambda>p. p \<noteq> []) parts)"

text \<open>\<open>dict.get(key, default)\<close> on an insertion-ordered dictionary with distinct keys.\<close>

definition dict_get :: "('k \<times> 'v) list \<Rightarrow> 'k \<Rightarrow> 'v \<Rightarrow> 'v" where
  "dict_get d k v = (case map_of d k of Some x \<Rightarrow> x | None \<Rightarrow> v)"

text \<open>\<open>x or default\<close> for a string.\<close>

definition or_else :: "pystr \<Rightarrow> pystr \<Rightarrow> pystr" where
  "or_else x y = (if x = [] then y else x)"

subsection \<open>First match in a list of rules\<close>

text \<open>
  Every detection tier of the program walks a list of rules and reports the first one that
  matches. \<open>first_match P rs\<close> is that loop.
\<close>

fun first_match :: "('r \<Rightarrow> bool) \<Rightarrow> 'r list \<Rightarrow> 'r option" where
  "first_match P [] = None"
| "first_match P (r # rs) = (if P r then Some r else first_match P rs)"

lemma first_match_None_iff [scan_simps]: "first_match P rs = None \<longleftrightarrow> (\<forall>r \<in> set rs. \<not> P r)"
  by (induction rs) auto

lemma first_match_SomeD: "first_match P rs = Some r \<Longrightarrow> r \<in> set rs \<and> P r"
  by (induction rs) (auto split: if_splits)

lemma first_match_Some_split:
  "first_match P rs = Some r \<Longrightarrow> \<exists>xs ys. rs = xs @ r # ys \<and> P r \<and> (\<forall>x \<in> set xs. \<not> P x)"
proof (induction rs)
  case Nil
  then show ?case by simp
next
  case (Cons a rs)
  show ?case
  proof (cases "P a")
    case True
    with Cons.prems have "a # rs = [] @ r # rs" and "P r" by simp_all
    then show ?thesis by (metis empty_iff empty_set)
  next
    case False
    with Cons.prems have "first_match P rs = Some r" by simp
    then obtain xs ys where "rs = xs @ r # ys" "P r" "\<forall>x \<in> set xs. \<not> P x"
      using Cons.IH by blast
    with False show ?thesis by (metis append_Cons set_ConsD)
  qed
qed

lemma first_match_split:
  "P r \<Longrightarrow> \<forall>x \<in> set xs. \<not> P x \<Longrightarrow> first_match P (xs @ r # ys) = Some r"
  by (induction xs) auto

lemma first_match_exists: "r \<in> set rs \<Longrightarrow> P r \<Longrightarrow> \<exists>r'. first_match P rs = Some r'"
  by (induction rs) auto

lemma first_match_append [scan_simps]:
  "first_match P (xs @ ys) = (case first_match P xs of Some r \<Rightarrow> Some r | None \<Rightarrow> first_match P ys)"
  by (induction xs) auto

lemma first_match_cong:
  "(\<And>r. r \<in> set rs \<Longrightarrow> P r = Q r) \<Longrightarrow> first_match P rs = first_match Q rs"
  by (induction rs) auto

text \<open>A loop that returns the first result its body produces.\<close>

fun first_some :: "('a \<Rightarrow> 'b option) \<Rightarrow> 'a list \<Rightarrow> 'b option" where
  "first_some f [] = None"
| "first_some f (x # xs) = (case f x of Some y \<Rightarrow> Some y | None \<Rightarrow> first_some f xs)"

lemma first_some_None_iff [scan_simps]: "first_some f xs = None \<longleftrightarrow> (\<forall>x \<in> set xs. f x = None)"
  by (induction xs) (auto split: option.splits)

lemma first_some_SomeD: "first_some f xs = Some y \<Longrightarrow> \<exists>x \<in> set xs. f x = Some y"
  by (induction xs) (auto split: option.splits)

lemma first_some_hit: "x \<in> set xs \<Longrightarrow> f x \<noteq> None \<Longrightarrow> first_some f xs \<noteq> None"
  by (auto simp: first_some_None_iff)

lemma first_some_split:
  "f x = Some y \<Longrightarrow> \<forall>z \<in> set xs. f z = None \<Longrightarrow> first_some f (xs @ x # ys) = Some y"
  by (induction xs) auto

subsection \<open>Lemmas on the string methods\<close>

lemma startswith_append: "startswith (p @ s) p"
  by (simp add: startswith_def)

lemma startswith_iff: "startswith s p \<longleftrightarrow> (\<exists>t. s = p @ t)"
  by (metis append_eq_conv_conj startswith_def)

lemma endswith_iff: "endswith s p \<longleftrightarrow> (\<exists>t. s = t @ p)"
  unfolding endswith_def
  by (metis add_diff_cancel_right' append_eq_conv_conj append_take_drop_id le_add2 length_append)

lemma contains_iff: "contains p s \<longleftrightarrow> (\<exists>a b. s = a @ p @ b)"
proof (induction s)
  case Nil
  then show ?case by auto
next
  case (Cons c s)
  then show ?case
    by (auto simp: startswith_iff Cons_eq_append_conv)
qed

lemma split_on_not_Nil [simp]: "split_on d s \<noteq> []"
  by (cases s) (auto split: list.splits)

lemma hd_split_on: "hd (split_on d s) = before_first d s"
  by (induction s) (auto simp: before_first_def split: list.splits)

lemma split_on_free: "d \<notin> set s \<Longrightarrow> split_on d s = [s]"
  by (induction s) auto

lemma split_on_parts_free: "w \<in> set (split_on d s) \<Longrightarrow> d \<notin> set w"
proof (induction s arbitrary: w)
  case (Cons c s)
  then show ?case by (cases "split_on d s") (auto split: if_splits)
qed simp

lemma join_with_Cons: "ws \<noteq> [] \<Longrightarrow> join_with d (w # ws) = w @ d @ join_with d ws"
  by (cases ws) auto

lemma join_with_char: "join_with d ((c # w) # ws) = c # join_with d (w # ws)"
  by (cases ws) auto

lemma split_on_join: "join_with [d] (split_on d s) = s"
proof (induction s)
  case (Cons c s)
  then show ?case
    by (cases "split_on d s") (auto simp: join_with_Cons join_with_char)
qed simp

lemma py_lower_append: "py_lower (s @ t) = py_lower s @ py_lower t"
  by (simp add: py_lower_def)

lemma filter_eq_imp_in: "x \<in> set xs \<Longrightarrow> P x \<Longrightarrow> x \<in> set (filter P xs)"
  by simp

lemma strip_by_id: "\<forall>c \<in> set s. \<not> P c \<Longrightarrow> strip_by P s = s"
proof -
  assume "\<forall>c \<in> set s. \<not> P c"
  then have "dropWhile P s = s" "dropWhile P (rev s) = rev s"
    by (auto simp: dropWhile_eq_self_iff hd_rev)
  then show ?thesis by (simp add: strip_by_def)
qed

text \<open>A part of a join is a segment of the joined text.\<close>

lemma join_with_segment:
  "x \<in> set xs \<Longrightarrow> \<exists>a b. join_with d xs = a @ x @ b"
proof (induction d xs rule: join_with.induct)
  case (2 d x)
  then show ?case by (metis append_Nil append_Nil2 empty_iff empty_set join_with.simps(2) set_ConsD)
next
  case (3 d x' y ys)
  show ?case
  proof (cases "x = x'")
    case True
    then show ?thesis by (metis append_Nil join_with.simps(3))
  next
    case False
    with 3 obtain a b where "join_with d (y # ys) = a @ x @ b" by auto
    then show ?thesis by (metis append.assoc join_with.simps(3))
  qed
qed simp

lemma join_nonempty_segment:
  assumes "x \<in> set xs"
  shows "\<exists>a b. join_nonempty xs = a @ x @ b"
proof (cases "x = []")
  case True
  then show ?thesis by (metis append_Nil)
next
  case False
  with assms have "x \<in> set (filter (\<lambda>p. p \<noteq> []) xs)" by simp
  then show ?thesis unfolding join_nonempty_def by (rule join_with_segment)
qed

lemma lit_Nil [simp]: "lit [] = []"
  by (simp add: lit_def)

lemma lit_eq_iff: "lit s = lit t \<longleftrightarrow> s = t"
proof
  have "inj (of_char :: char \<Rightarrow> int)" by (rule injI) (simp only: of_char_eq_iff)
  then show "lit s = lit t \<Longrightarrow> s = t" unfolding lit_def by (rule map_injective [rotated])
qed simp

lemma dict_get_Cons: "dict_get ((k, v) # d) k' x = (if k = k' then v else dict_get d k' x)"
  by (simp add: dict_get_def)

lemma before_first_simps:
  "d \<notin> set s \<Longrightarrow> before_first d s = s"
  "d \<notin> set s \<Longrightarrow> before_first d (s @ d # t) = s"
  unfolding before_first_def by (induction s) auto

text \<open>The parts of a split text are its separator-delimited segments.\<close>

lemma split_on_append:
  "d \<notin> set v \<Longrightarrow> split_on d (v @ d # s) = v # split_on d s"
  by (induction v) auto

lemma split_on_length: "length (split_on d (x @ d # s)) > length (split_on d s)"
  by (induction x) (auto split: list.splits)

lemma split_on_prefix:
  "\<exists>ws. split_on d (x @ d # s) = ws @ split_on d s"
proof (induction x)
  case Nil
  then show ?case by (intro exI [of _ "[[]]"]) simp
next
  case (Cons c x)
  then obtain ws where ws: "split_on d (x @ d # s) = ws @ split_on d s" by blast
  show ?case
  proof (cases "c = d")
    case True
    with ws show ?thesis by (intro exI [of _ "[] # ws"]) simp
  next
    case False
    show ?thesis
    proof (cases ws)
      case Nil
      have "length (split_on d (x @ d # s)) > length (split_on d s)"
        by (rule split_on_length)
      with ws Nil show ?thesis by simp
    next
      case (Cons w ws')
      with ws False show ?thesis by (intro exI [of _ "(c # w) # ws'"]) simp
    qed
  qed
qed

lemma split_on_segment:
  assumes "d \<notin> set v" "x = [] \<or> last x = d" "y = [] \<or> hd y = d"
  shows "v \<in> set (split_on d (x @ v @ y))"
proof -
  have v: "v \<in> set (split_on d (v @ y))"
  proof (cases y)
    case Nil
    with assms(1) show ?thesis by (simp add: split_on_free)
  next
    case (Cons c y')
    with assms(1,3) show ?thesis by (simp add: split_on_append)
  qed
  show ?thesis
  proof (cases "x = []")
    case True
    with v show ?thesis by simp
  next
    case False
    with assms(2) have "x = butlast x @ [d]" by (metis append_butlast_last_id)
    then have "x @ v @ y = butlast x @ d # (v @ y)" by (metis append.assoc append_Cons append_Nil)
    then obtain ws where "split_on d (x @ v @ y) = ws @ split_on d (v @ y)"
      using split_on_prefix by metis
    with v show ?thesis by simp
  qed
qed

subsection \<open>Lists ordered by a key\<close>

lemma filter_ge_dropWhile:
  fixes f :: "'a \<Rightarrow> int"
  shows "sorted (map f xs) \<Longrightarrow> filter (\<lambda>x. c \<le> f x) xs = dropWhile (\<lambda>x. f x < c) xs"
proof (induction xs)
  case (Cons a xs)
  show ?case
  proof (cases "f a < c")
    case True
    with Cons show ?thesis by simp
  next
    case False
    with Cons.prems have "\<forall>x \<in> set (a # xs). c \<le> f x" by auto
    then have "filter (\<lambda>x. c \<le> f x) (a # xs) = a # xs" by (intro filter_True) auto
    with False show ?thesis by simp
  qed
qed simp

lemma insort_key_map: "(\<And>x. k (f x) = k x) \<Longrightarrow> insort_key k (f x) (map f xs) = map f (insort_key k x xs)"
  by (induction xs) auto

lemma sort_key_map: "(\<And>x. k (f x) = k x) \<Longrightarrow> sort_key k (map f xs) = map f (sort_key k xs)"
  by (induction xs) (auto simp: insort_key_map)

end
