(* ===== verification/PyText.thy ===== *)
theory PyText
  imports Prelude
begin

text \<open>
  The encodings of the standard library that the program calls: UTF-8
  (\<open>bytes.decode\<close>, \<open>str.encode\<close>), percent decoding (\<open>urllib.parse.unquote_plus\<close>)
  and Base64 (\<open>base64.b64decode\<close>, \<open>base64.b64encode\<close>), each as an executable function
  that follows CPython's algorithm, with the round trips between encoder and decoder.
\<close>

subsection \<open>UTF-8\<close>

definition is_bytes :: "bytes \<Rightarrow> bool" where
  "is_bytes bs \<longleftrightarrow> (\<forall>b \<in> set bs. 0 \<le> b \<and> b < 256)"

text \<open>
  A lead byte: how many continuation bytes it wants, the bounds of the first of them (which
  exclude overlong forms, surrogates and values above U+10FFFF) and its payload bits.
\<close>

definition utf8_lead :: "int \<Rightarrow> (nat \<times> int \<times> int \<times> int) option" where
  "utf8_lead b =
     (if in_range 194 223 b then Some (1, 128, 191, b - 192)
      else if b = 224 then Some (2, 160, 191, 0)
      else if b = 237 then Some (2, 128, 159, 13)
      else if in_range 225 239 b then Some (2, 128, 191, b - 224)
      else if b = 240 then Some (3, 144, 191, 0)
      else if in_range 241 243 b then Some (3, 128, 191, b - 240)
      else if b = 244 then Some (3, 128, 143, 4)
      else None)"

text \<open>
  Reads the continuation bytes. An invalid one, or the end of the data, ends the sequence:
  the bytes read so far are one error, and decoding resumes at the offending byte.
\<close>

fun utf8_cont :: "nat \<Rightarrow> int \<Rightarrow> int \<Rightarrow> int \<Rightarrow> bytes \<Rightarrow> int option \<times> bytes" where
  "utf8_cont 0 lo hi acc bs = (Some acc, bs)"
| "utf8_cont (Suc n) lo hi acc [] = (None, [])"
| "utf8_cont (Suc n) lo hi acc (b # bs) =
     (if in_range lo hi b then utf8_cont n 128 191 (acc * 64 + (b - 128)) bs
      else (None, b # bs))"

lemma utf8_cont_length: "length (snd (utf8_cont n lo hi acc bs)) \<le> length bs"
  by (induction n lo hi acc bs rule: utf8_cont.induct) auto

text \<open>The decoded units: \<open>None\<close> for each ill-formed sequence.\<close>

function utf8_units :: "bytes \<Rightarrow> int option list" where
  "utf8_units [] = []"
| "utf8_units (b # bs) =
     (if b < 128 then Some b # utf8_units bs
      else case utf8_lead b of
             None \<Rightarrow> None # utf8_units bs
           | Some (n, lo, hi, acc) \<Rightarrow>
               fst (utf8_cont n lo hi acc bs) # utf8_units (snd (utf8_cont n lo hi acc bs)))"
  by pat_completeness auto
termination
  by (relation "measure length") (auto simp: le_imp_less_Suc utf8_cont_length)

text \<open>\<open>decode("utf-8", errors="replace")\<close> and the strict \<open>decode("utf-8")\<close>.\<close>

definition decode_replace :: "bytes \<Rightarrow> pystr" where
  "decode_replace bs = map (\<lambda>u. case u of Some c \<Rightarrow> c | None \<Rightarrow> 65533) (utf8_units bs)"

definition decode_strict :: "bytes \<Rightarrow> pystr result" where
  "decode_strict bs =
     (if None \<in> set (utf8_units bs) then Inl UnicodeDecodeError
      else Inr (map the (utf8_units bs)))"

definition is_surrogate :: "int \<Rightarrow> bool" where
  "is_surrogate c \<longleftrightarrow> in_range 55296 57343 c"

definition encode_cp :: "int \<Rightarrow> bytes" where
  "encode_cp c =
     (if c < 128 then [c]
      else if c < 2048 then [192 + c div 64, 128 + c mod 64]
      else if c < 65536 then [224 + c div 4096, 128 + c div 64 mod 64, 128 + c mod 64]
      else [240 + c div 262144, 128 + c div 4096 mod 64, 128 + c div 64 mod 64, 128 + c mod 64])"

text \<open>\<open>str.encode("utf-8")\<close>: a lone surrogate raises.\<close>

definition encode_utf8 :: "pystr \<Rightarrow> bytes result" where
  "encode_utf8 s =
     (if \<exists>c \<in> set s. is_surrogate c then Inl UnicodeEncodeError
      else Inr (concat (map encode_cp s)))"

definition is_text :: "pystr \<Rightarrow> bool" where
  "is_text s \<longleftrightarrow> (\<forall>c \<in> set s. 0 \<le> c \<and> c \<le> 1114111 \<and> \<not> is_surrogate c)"

lemma utf8_units_ascii: "\<forall>b \<in> set bs. b < 128 \<Longrightarrow> utf8_units (bs @ cs) = map Some bs @ utf8_units cs"
  by (induction bs) auto

lemma base64_digits3: "(c::int) = c div 4096 * 4096 + c div 64 mod 64 * 64 + c mod 64"
proof -
  have "c div 4096 = c div 64 div 64" by (simp flip: zdiv_zmult2_eq)
  moreover have "c = c div 64 * 64 + c mod 64" and "c div 64 = c div 64 div 64 * 64 + c div 64 mod 64"
    by simp_all
  ultimately show ?thesis by linarith
qed

lemma base64_digits4:
  "(c::int) = c div 262144 * 262144 + c div 4096 mod 64 * 4096 + c div 64 mod 64 * 64 + c mod 64"
proof -
  have "c div 262144 = c div 4096 div 64" by (simp flip: zdiv_zmult2_eq)
  moreover have "c div 4096 = c div 4096 div 64 * 64 + c div 4096 mod 64"
    by simp
  ultimately show ?thesis using base64_digits3 [of c] by linarith
qed

lemma utf8_units_encode_cp:
  assumes "0 \<le> c" "c \<le> 1114111" "\<not> is_surrogate c"
  shows "utf8_units (encode_cp c @ bs) = Some c # utf8_units bs"
proof -
  consider (one) "c < 128" | (two) "128 \<le> c" "c < 2048" | (three) "2048 \<le> c" "c < 65536"
    | (four) "65536 \<le> c" by linarith
  then show ?thesis
  proof cases
    case one
    then show ?thesis by (simp add: encode_cp_def)
  next
    case two
    define h l where "h = c div 64" and "l = c mod 64"
    have c: "c = h * 64 + l" and b: "0 \<le> l" "l < 64" "2 \<le> h" "h < 32"
      using two unfolding h_def l_def by presburger+
    have "utf8_units ((192 + h) # (128 + l) # bs) = Some c # utf8_units bs"
      using b c by (auto simp: utf8_lead_def)
    with two show ?thesis by (simp add: encode_cp_def h_def l_def)
  next
    case three
    define h m l where "h = c div 4096" and "m = c div 64 mod 64" and "l = c mod 64"
    have c: "c = h * 4096 + m * 64 + l"
      unfolding h_def m_def l_def by (rule base64_digits3)
    have b: "0 \<le> m" "m < 64" "0 \<le> l" "l < 64" "0 \<le> h" "h < 16"
      using three by (simp_all add: h_def m_def l_def)
    have "utf8_units ((224 + h) # (128 + m) # (128 + l) # bs) = Some c # utf8_units bs"
    proof (cases "h = 0 \<or> h = 13")
      case True
      with c three b assms(3) have "h = 0 \<and> 32 \<le> m \<or> h = 13 \<and> m < 32"
        unfolding is_surrogate_def by auto
      with b c show ?thesis by (auto simp: utf8_lead_def numeral_eq_Suc)
    next
      case False
      with b c show ?thesis by (auto simp: utf8_lead_def numeral_eq_Suc)
    qed
    with three show ?thesis by (simp add: encode_cp_def h_def m_def l_def)
  next
    case four
    define h k m l where "h = c div 262144" and "k = c div 4096 mod 64"
      and "m = c div 64 mod 64" and "l = c mod 64"
    have c: "c = h * 262144 + k * 4096 + m * 64 + l"
      unfolding h_def k_def m_def l_def by (rule base64_digits4)
    have b: "0 \<le> k" "k < 64" "0 \<le> m" "m < 64" "0 \<le> l" "l < 64" "0 \<le> h"
      using four by (simp_all add: h_def k_def m_def l_def)
    have "h = 0 \<and> 16 \<le> k \<or> h = 4 \<and> k < 16 \<or> 1 \<le> h \<and> h \<le> 3"
      using c b four assms(2) by linarith
    with b c have "utf8_units ((240 + h) # (128 + k) # (128 + m) # (128 + l) # bs) = Some c # utf8_units bs"
      by (auto simp: utf8_lead_def numeral_eq_Suc)
    with four show ?thesis by (simp add: encode_cp_def h_def k_def m_def l_def)
  qed
qed

lemma utf8_units_encode:
  "is_text s \<Longrightarrow> utf8_units (concat (map encode_cp s)) = map Some s"
  by (induction s) (auto simp: is_text_def utf8_units_encode_cp)

text \<open>Encoding and decoding are inverse on well-formed text, in both error modes.\<close>

lemma utf8_roundtrip:
  assumes "is_text s"
  shows "\<exists>bs. encode_utf8 s = Inr bs \<and> decode_strict bs = Inr s \<and> decode_replace bs = s"
proof -
  have "encode_utf8 s = Inr (concat (map encode_cp s))"
    using assms by (auto simp: encode_utf8_def is_text_def)
  then show ?thesis
    using utf8_units_encode [OF assms]
    by (auto simp: decode_strict_def decode_replace_def comp_def)
qed

subsection \<open>Percent decoding\<close>

definition hexval :: "int \<Rightarrow> int option" where
  "hexval c =
     (if in_range 48 57 c then Some (c - 48)
      else if in_range 65 70 c then Some (c - 55)
      else if in_range 97 102 c then Some (c - 87)
      else None)"

text \<open>\<open>unquote_to_bytes\<close> on ASCII text: a \<open>%\<close> without two hex digits stays as it is.\<close>

fun pct_bytes :: "pystr \<Rightarrow> bytes" where
  "pct_bytes (c # h # l # s) =
     (if c = 37 then
        (case (hexval h, hexval l) of
           (Some a, Some b) \<Rightarrow> (a * 16 + b) # pct_bytes s
         | _ \<Rightarrow> c # pct_bytes (h # l # s))
      else c # pct_bytes (h # l # s))"
| "pct_bytes s = s"

text \<open>
  \<open>unquote\<close>: each maximal run of ASCII characters is percent-decoded to bytes and these are
  decoded as UTF-8 with replacement; other characters are kept.
\<close>

function unquote_parts :: "pystr \<Rightarrow> pystr" where
  "unquote_parts [] = []"
| "unquote_parts (c # cs) =
     (if c < 128 then
        decode_replace (pct_bytes (c # takeWhile (\<lambda>x. x < 128) cs))
        @ unquote_parts (dropWhile (\<lambda>x. x < 128) cs)
      else c # unquote_parts cs)"
  by pat_completeness auto
termination
  by (relation "measure length") (auto simp: le_imp_less_Suc length_dropWhile_le)

definition unquote :: "pystr \<Rightarrow> pystr" where
  "unquote s = (if 37 \<in> set s then unquote_parts s else s)"

definition unquote_plus :: "pystr \<Rightarrow> pystr" where
  "unquote_plus s = unquote (map (\<lambda>c. if c = 43 then 32 else c) s)"

lemma unquote_plus_plain: "37 \<notin> set s \<Longrightarrow> 43 \<notin> set s \<Longrightarrow> unquote_plus s = s"
proof -
  assume a: "37 \<notin> set s" "43 \<notin> set s"
  then have "map (\<lambda>c. if c = 43 then 32 else c) s = s"
    by (intro map_idI) auto
  with a show ?thesis by (simp add: unquote_plus_def unquote_def)
qed

subsection \<open>Base64\<close>

definition b64_val :: "int \<Rightarrow> int option" where
  "b64_val c =
     (if in_range 65 90 c then Some (c - 65)
      else if in_range 97 122 c then Some (c - 71)
      else if in_range 48 57 c then Some (c + 4)
      else if c = 43 then Some 62
      else if c = 47 then Some 63
      else None)"

definition b64_chr :: "int \<Rightarrow> int" where
  "b64_chr n =
     (if n < 26 then n + 65 else if n < 52 then n + 71
      else if n < 62 then n - 4 else if n = 62 then 43 else 47)"

text \<open>
  \<open>binascii.a2b_base64\<close> in its lenient mode: characters outside the alphabet are skipped, a
  complete padding ends the data, and data that stop inside a group raise. \<open>quad\<close> is the
  position in the group of four, \<open>pads\<close> the padding characters seen in a row, \<open>left\<close> the
  bits not yet written.
\<close>

definition rcons :: "'a \<Rightarrow> 'a list result \<Rightarrow> 'a list result" where
  "rcons x r = (case r of Inl e \<Rightarrow> Inl e | Inr xs \<Rightarrow> Inr (x # xs))"

lemma rcons_simps [simp]: "rcons x (Inr xs) = Inr (x # xs)" "rcons x (Inl e) = Inl e"
  by (simp_all add: rcons_def)

fun b64_loop :: "nat \<Rightarrow> nat \<Rightarrow> int \<Rightarrow> bytes \<Rightarrow> bytes result" where
  "b64_loop quad pads left [] = (if quad = 0 then Inr [] else Inl BinasciiError)"
| "b64_loop quad pads left (c # cs) =
     (if c = 61 then
        (if 2 \<le> quad then
           (if 4 \<le> quad + Suc pads then Inr [] else b64_loop quad (Suc pads) left cs)
         else b64_loop quad pads left cs)
      else case b64_val c of
             None \<Rightarrow> b64_loop quad pads left cs
           | Some v \<Rightarrow>
               (if quad = 0 then b64_loop 1 0 v cs
                else if quad = 1 then rcons (left * 4 + v div 16) (b64_loop 2 0 (v mod 16) cs)
                else if quad = 2 then rcons (left * 16 + v div 4) (b64_loop 3 0 (v mod 4) cs)
                else rcons (left * 64 + v) (b64_loop 0 0 0 cs)))"

definition b64decode_bytes :: "bytes \<Rightarrow> bytes result" where
  "b64decode_bytes bs = b64_loop 0 0 0 bs"

text \<open>On a \<open>str\<close> argument a non-ASCII character raises before decoding.\<close>

definition b64decode_str :: "pystr \<Rightarrow> bytes result" where
  "b64decode_str s = (if \<exists>c \<in> set s. 128 \<le> c then Inl ValueError else b64_loop 0 0 0 s)"

fun b64encode :: "bytes \<Rightarrow> pystr" where
  "b64encode (a # b # c # bs) =
     b64_chr (a div 4) # b64_chr (a mod 4 * 16 + b div 16) #
     b64_chr (b mod 16 * 4 + c div 64) # b64_chr (c mod 64) # b64encode bs"
| "b64encode [a, b] =
     [b64_chr (a div 4), b64_chr (a mod 4 * 16 + b div 16), b64_chr (b mod 16 * 4), 61]"
| "b64encode [a] = [b64_chr (a div 4), b64_chr (a mod 4 * 16), 61, 61]"
| "b64encode [] = []"

lemma b64_val_chr: "0 \<le> n \<Longrightarrow> n < 64 \<Longrightarrow> b64_val (b64_chr n) = Some n"
  by (auto simp: b64_val_def b64_chr_def)

lemma b64_chr_not_pad: "0 \<le> n \<Longrightarrow> n < 64 \<Longrightarrow> b64_chr n \<noteq> 61"
  by (auto simp: b64_chr_def)

lemma digits:
  "0 \<le> y \<Longrightarrow> y < k \<Longrightarrow> (x * k + y) div k = (x::int)"
  "0 \<le> y \<Longrightarrow> y < k \<Longrightarrow> (x * k + y) mod k = (y::int)"
  by (simp_all add: div_add1_eq zdiv_eq_0_iff)

lemma byte_split:
  assumes "0 \<le> (b::int)" "b < 256"
  obtains b1 b0 where "b = b1 * 4 + b0" "0 \<le> b1" "b1 < 64" "0 \<le> b0" "b0 < 4"
  using assms that [of "b div 4" "b mod 4"] by simp

lemma byte_split16:
  assumes "0 \<le> (b::int)" "b < 256"
  obtains b1 b0 where "b = b1 * 16 + b0" "0 \<le> b1" "b1 < 16" "0 \<le> b0" "b0 < 16"
  using assms that [of "b div 16" "b mod 16"] by simp

lemma byte_split64:
  assumes "0 \<le> (b::int)" "b < 256"
  obtains b1 b0 where "b = b1 * 64 + b0" "0 \<le> b1" "b1 < 4" "0 \<le> b0" "b0 < 64"
  using assms that [of "b div 64" "b mod 64"] by simp

lemma b64_loop_chr:
  assumes "0 \<le> v" "v < 64"
  shows "b64_loop 0 p l (b64_chr v # cs) = b64_loop 1 0 v cs"
    "b64_loop (Suc 0) p l (b64_chr v # cs) = rcons (l * 4 + v div 16) (b64_loop 2 0 (v mod 16) cs)"
    "b64_loop 2 p l (b64_chr v # cs) = rcons (l * 16 + v div 4) (b64_loop 3 0 (v mod 4) cs)"
    "b64_loop 3 p l (b64_chr v # cs) = rcons (l * 64 + v) (b64_loop 0 0 0 cs)"
  using assms by (simp_all add: b64_val_chr b64_chr_not_pad)

lemma b64_loop_pad:
  "b64_loop 3 0 l (61 # cs) = Inr []" "b64_loop 2 0 l (61 # 61 # cs) = Inr []"
  "b64_loop 0 0 l [61, 61] = Inr []" "b64_loop 0 p l [] = Inr []"
  by simp_all

declare b64_loop.simps [simp del]

text \<open>
  The round trip, for encoded data followed by nothing or by more padding: one caller appends
  \<open>==\<close> before it decodes.
\<close>

lemma b64_loop_encode:
  "is_bytes bs \<Longrightarrow> b64_loop 0 0 0 r = Inr [] \<Longrightarrow> b64_loop 0 0 0 (b64encode bs @ r) = Inr bs"
proof (induction bs rule: b64encode.induct)
  case (1 a b c bs)
  then have r: "0 \<le> a" "a < 256" "0 \<le> b" "b < 256" "0 \<le> c" "c < 256" "is_bytes bs"
    by (simp_all add: is_bytes_def)
  obtain a1 a0 where a: "a = a1 * 4 + a0" "0 \<le> a1" "a1 < 64" "0 \<le> a0" "a0 < 4"
    using r(1,2) by (rule byte_split)
  obtain b1 b0 where b: "b = b1 * 16 + b0" "0 \<le> b1" "b1 < 16" "0 \<le> b0" "b0 < 16"
    using r(3,4) by (rule byte_split16)
  obtain c1 c0 where c: "c = c1 * 64 + c0" "0 \<le> c1" "c1 < 4" "0 \<le> c0" "c0 < 64"
    using r(5,6) by (rule byte_split64)
  have "0 \<le> a0 * 16 + b1" "a0 * 16 + b1 < 64" "0 \<le> b0 * 4 + c1" "b0 * 4 + c1 < 64"
    using a b c by linarith+
  then have "b64_loop 0 0 0 (b64_chr a1 # b64_chr (a0 * 16 + b1) # b64_chr (b0 * 4 + c1)
      # b64_chr c0 # b64encode bs @ r) =
    rcons (a1 * 4 + a0) (rcons (b1 * 16 + b0) (rcons (c1 * 64 + c0) (Inr bs)))"
    using a b c 1(1,3) r(7) by (simp add: b64_loop_chr digits)
  then show ?case
    using a b c by (simp add: digits)
next
  case (2 a b)
  then have r: "0 \<le> a" "a < 256" "0 \<le> b" "b < 256" by (simp_all add: is_bytes_def)
  obtain a1 a0 where a: "a = a1 * 4 + a0" "0 \<le> a1" "a1 < 64" "0 \<le> a0" "a0 < 4"
    using r(1,2) by (rule byte_split)
  obtain b1 b0 where b: "b = b1 * 16 + b0" "0 \<le> b1" "b1 < 16" "0 \<le> b0" "b0 < 16"
    using r(3,4) by (rule byte_split16)
  have "0 \<le> a0 * 16 + b1" "a0 * 16 + b1 < 64" "0 \<le> b0 * 4" "b0 * 4 < 64"
    using a b by linarith+
  then show ?case
    using a b by (simp add: digits b64_loop_chr b64_loop_pad)
next
  case (3 a)
  then have r: "0 \<le> a" "a < 256" by (simp_all add: is_bytes_def)
  obtain a1 a0 where a: "a = a1 * 4 + a0" "0 \<le> a1" "a1 < 64" "0 \<le> a0" "a0 < 4"
    using r by (rule byte_split)
  then have "0 \<le> a0 * 16" "a0 * 16 < 64" by linarith+
  then show ?case
    using a by (simp add: digits b64_loop_chr b64_loop_pad)
next
  case 4
  then show ?case by (simp)
qed

lemma b64_roundtrip: "is_bytes bs \<Longrightarrow> b64decode_bytes (b64encode bs @ [61, 61]) = Inr bs"
  unfolding b64decode_bytes_def by (rule b64_loop_encode) (simp_all add: b64_loop_pad)

lemma b64_roundtrip_exact: "is_bytes bs \<Longrightarrow> b64decode_bytes (b64encode bs) = Inr bs"
  unfolding b64decode_bytes_def
  using b64_loop_encode [of bs "[]"] by (simp add: b64_loop_pad)

lemma b64_chr_ascii: "n < 64 \<Longrightarrow> b64_chr n < 128"
  by (auto simp: b64_chr_def)

lemma b64_digit_bounds:
  shows "(a::int) < 256 \<Longrightarrow> a div 4 < 64" "a mod 4 * 16 < 64" "a mod 64 < 64" "a mod 16 * 4 < 64"
    "b < 256 \<Longrightarrow> a mod 4 * 16 + b div 16 < 64" "b < 256 \<Longrightarrow> a mod 16 * 4 + b div 64 < 64"
proof -
  have m: "a mod 4 \<le> 3" "a mod 16 \<le> 15" by simp_all
  show "a div 4 < 64" if "a < 256" using that by simp
  show "a mod 64 < 64" by simp
  show "a mod 4 * 16 < 64" "a mod 16 * 4 < 64" using m by linarith+
  show "a mod 4 * 16 + b div 16 < 64" "a mod 16 * 4 + b div 64 < 64" if "b < 256"
  proof -
    have "b div 16 \<le> 15" "b div 64 \<le> 3" using that by simp_all
    with m show "a mod 4 * 16 + b div 16 < 64" "a mod 16 * 4 + b div 64 < 64" by linarith+
  qed
qed

lemma b64encode_ascii: "is_bytes bs \<Longrightarrow> \<forall>c \<in> set (b64encode bs). c < 128"
  by (induction bs rule: b64encode.induct)
    (auto simp: is_bytes_def intro!: b64_chr_ascii b64_digit_bounds)

lemma b64_str_roundtrip:
  "is_bytes bs \<Longrightarrow> b64decode_str (b64encode bs @ [61, 61]) = Inr bs"
  using b64_roundtrip [of bs] b64encode_ascii [of bs]
  by (auto simp: b64decode_str_def b64decode_bytes_def not_le)

subsection \<open>The alphabet\<close>

definition is_b64_char :: "int \<Rightarrow> bool" where
  "is_b64_char c \<longleftrightarrow> b64_val c \<noteq> None \<or> c = 61"

lemma byte_sextets:
  "0 \<le> (a::int) \<Longrightarrow> a < 256 \<Longrightarrow> 0 \<le> a div 4 \<and> a div 4 < 64"
  "0 \<le> a mod 4 * 16 \<and> a mod 4 * 16 < 64"
  "0 \<le> a mod 64 \<and> a mod 64 < 64"
  "0 \<le> a mod 16 * 4 \<and> a mod 16 * 4 < 64"
  by presburger+

lemma byte_sextet_sums:
  assumes "0 \<le> (b::int)" "b < 256"
  shows "0 \<le> a mod 4 * 16 + b div 16 \<and> a mod 4 * 16 + b div 16 < 64"
    "0 \<le> a mod 16 * 4 + b div 64 \<and> a mod 16 * 4 + b div 64 < 64"
proof -
  have "0 \<le> a mod 4" "a mod 4 \<le> 3" "0 \<le> a mod 16" "a mod 16 \<le> 15" by simp_all
  moreover have "0 \<le> b div 16" "b div 16 \<le> 15" "0 \<le> b div 64" "b div 64 \<le> 3"
    using assms by simp_all
  ultimately show "0 \<le> a mod 4 * 16 + b div 16 \<and> a mod 4 * 16 + b div 16 < 64"
    "0 \<le> a mod 16 * 4 + b div 64 \<and> a mod 16 * 4 + b div 64 < 64" by linarith+
qed

lemma b64encode_length: "length (b64encode bs) = (length bs + 2) div 3 * 4"
proof (induction bs rule: b64encode.induct)
  case (1 a b c bs)
  have "Suc (Suc (Suc (length bs + 2))) div 3 = Suc ((length bs + 2) div 3)" by presburger
  with 1 show ?case by simp
qed auto

lemma b64_chr_is_b64: "0 \<le> v \<Longrightarrow> v < 64 \<Longrightarrow> is_b64_char (b64_chr v)" "is_b64_char 61"
  by (simp_all add: is_b64_char_def b64_val_chr)

lemma b64encode_all: "is_bytes bs \<Longrightarrow> list_all is_b64_char (b64encode bs)"
proof (induction bs rule: b64encode.induct)
  case (1 a b c bs)
  then have "0 \<le> a" "a < 256" "0 \<le> b" "b < 256" "0 \<le> c" "c < 256" "is_bytes bs"
    by (simp_all add: is_bytes_def)
  with 1 show ?case
    by (simp only: b64encode.simps list.pred_inject simp_thms)
      (intro conjI b64_chr_is_b64; simp add: byte_sextets byte_sextet_sums)
next
  case (2 a b)
  then have "0 \<le> a" "a < 256" "0 \<le> b" "b < 256" by (simp_all add: is_bytes_def)
  then show ?case
    by (simp only: b64encode.simps list.pred_inject simp_thms)
      (intro conjI b64_chr_is_b64; simp add: byte_sextets byte_sextet_sums)
next
  case (3 a)
  then have "0 \<le> a" "a < 256" by (simp_all add: is_bytes_def)
  then show ?case
    by (simp only: b64encode.simps list.pred_inject simp_thms)
      (intro conjI b64_chr_is_b64; simp add: byte_sextets byte_sextet_sums)
qed simp

lemma b64encode_chars: "is_bytes bs \<Longrightarrow> c \<in> set (b64encode bs) \<Longrightarrow> is_b64_char c"
  using b64encode_all by (auto simp: list_all_iff)

lemma b64_char_not_is_space: "is_b64_char c \<Longrightarrow> \<not> is_space c"
  by (auto simp: is_b64_char_def is_space_def b64_val_def)

lemma strip_b64encode: "is_bytes bs \<Longrightarrow> strip (b64encode bs) = b64encode bs"
  unfolding strip_def by (rule strip_by_id) (blast dest: b64encode_chars b64_char_not_is_space)

subsection \<open>ASCII and encoded text as bytes\<close>

lemma decode_replace_ascii: "\<forall>b \<in> set bs. b < 128 \<Longrightarrow> decode_replace bs = bs"
  using utf8_units_ascii [of bs "[]"] by (simp add: decode_replace_def comp_def)

lemma utf8_continuation: "0 \<le> 128 + (x::int) mod 64 \<and> 128 + x mod 64 < 256"
proof -
  have "0 \<le> x mod 64" "x mod 64 < 64" by simp_all
  then show ?thesis by linarith
qed

lemma encode_cp_bytes:
  assumes "0 \<le> c" "c \<le> 1114111"
  shows "is_bytes (encode_cp c)"
proof -
  consider "c < 128" | "128 \<le> c" "c < 2048" | "2048 \<le> c" "c < 65536" | "65536 \<le> c" by linarith
  then show ?thesis
  proof cases
    case 1
    then show ?thesis using assms by (simp add: encode_cp_def is_bytes_def)
  next
    case 2
    then have "0 \<le> c div 64" "c div 64 < 32" by simp_all
    with 2 show ?thesis by (simp add: encode_cp_def is_bytes_def utf8_continuation)
  next
    case 3
    then have "0 \<le> c div 4096" "c div 4096 < 16" by simp_all
    with 3 show ?thesis by (simp add: encode_cp_def is_bytes_def utf8_continuation)
  next
    case 4
    then have "0 \<le> c div 262144" "c div 262144 < 5" using assms(2) by simp_all
    with 4 show ?thesis by (simp add: encode_cp_def is_bytes_def utf8_continuation)
  qed
qed

lemma encode_utf8_bytes:
  assumes "is_text s" "encode_utf8 s = Inr bs"
  shows "is_bytes bs"
proof -
  have "bs = concat (map encode_cp s)" using assms(2) by (simp add: encode_utf8_def split: if_splits)
  moreover have "\<forall>c \<in> set s. is_bytes (encode_cp c)"
    using assms(1) by (auto simp: is_text_def intro: encode_cp_bytes)
  ultimately show ?thesis by (auto simp: is_bytes_def)
qed

end
