(* ===== verification/Request.thy ===== *)
theory Request
  imports PyText
begin

text \<open>
  The request dictionary that the Unix-socket agent receives from the web server module: the
  JSON object \<open>socket_server.py\<close> parses and every tier reads with \<open>request.get(key, default)\<close>.
  A field that the object may lack is an \<open>option\<close>; the body is text when it comes from JSON and
  bytes when the caller passes them.
\<close>

datatype body = BStr pystr | BBytes bytes

record request =
  rq_request_id :: "pystr option"
  rq_client_ip :: "pystr option"
  rq_method :: "pystr option"
  rq_uri :: "pystr option"
  rq_query :: "pystr option"
  rq_content_type :: "pystr option"
  rq_headers :: "(pystr \<times> pystr) list option"
  rq_body :: "body option"

definition empty_request :: request where
  "empty_request =
     \<lparr>rq_request_id = None, rq_client_ip = None, rq_method = None, rq_uri = None, rq_query = None,
      rq_content_type = None, rq_headers = None, rq_body = None\<rparr>"

text \<open>\<open>request.get(key, default)\<close>.\<close>

definition get_or :: "'a \<Rightarrow> 'a option \<Rightarrow> 'a" where
  "get_or d x = (case x of None \<Rightarrow> d | Some v \<Rightarrow> v)"

lemma get_or_simps [simp]: "get_or d None = d" "get_or d (Some v) = v"
  by (simp_all add: get_or_def)

abbreviation uri_of :: "request \<Rightarrow> pystr" where
  "uri_of r \<equiv> get_or [] (rq_uri r)"

abbreviation query_of :: "request \<Rightarrow> pystr" where
  "query_of r \<equiv> get_or [] (rq_query r)"

abbreviation ctype_of :: "request \<Rightarrow> pystr" where
  "ctype_of r \<equiv> get_or [] (rq_content_type r)"

abbreviation headers_of :: "request \<Rightarrow> (pystr \<times> pystr) list" where
  "headers_of r \<equiv> get_or [] (rq_headers r)"

definition header_of :: "request \<Rightarrow> pystr \<Rightarrow> pystr" where
  "header_of r h = dict_get (headers_of r) h []"

text \<open>The body as text: bytes are decoded with replacement, a missing body is empty.\<close>

definition body_text :: "request \<Rightarrow> pystr" where
  "body_text r =
     (case rq_body r of
        None \<Rightarrow> []
      | Some (BStr s) \<Rightarrow> s
      | Some (BBytes b) \<Rightarrow> decode_replace b)"

end
