(* ===== verification/Tier1.thy ===== *)
theory Tier1
  imports Request
begin

text \<open>
  Tier 1, \<open>agent/security/tier1_patterns.py\<close>: the CVE pattern engine. Patterns come from a JSON
  file, so \<open>re.compile\<close> on their text is a parameter: \<open>compile p ci\<close> is the compiled search
  (\<open>None\<close> where \<open>re.error\<close> is raised). The engine's state is its pattern list.
\<close>

type_synonym compiler = "pystr \<Rightarrow> bool \<Rightarrow> (pystr \<Rightarrow> bool) option"

text \<open>One entry of the JSON file; a key the object may lack is an \<open>option\<close>.\<close>

record pattern_entry =
  e_id :: "int option"
  e_cve_id :: "pystr option"
  e_name :: "pystr option"
  e_severity :: "pystr option"
  e_pattern :: "pystr option"
  e_cvss :: "rat option"
  e_flags :: "pystr option"
  e_product :: "pystr option"
  e_description :: "pystr option"

record cve_pattern =
  p_id :: int
  p_cve_id :: pystr
  p_name :: pystr
  p_severity :: pystr
  p_cvss :: rat
  p_compiled :: "pystr \<Rightarrow> bool"
  p_product :: pystr
  p_description :: pystr

datatype pattern_error = MissingKey | BadRegex

text \<open>\<open>CVEPattern.__init__\<close>: a missing required key raises before the pattern is compiled.\<close>

definition make_pattern :: "compiler \<Rightarrow> pattern_entry \<Rightarrow> pattern_error + cve_pattern" where
  "make_pattern compile e =
     (case (e_id e, e_cve_id e, e_name e, e_severity e, e_pattern e) of
        (Some i, Some cve, Some nm, Some sev, Some pat) \<Rightarrow>
          (case compile pat (contains (lit ''CASELESS'') (get_or [] (e_flags e))) of
             None \<Rightarrow> Inl BadRegex
           | Some m \<Rightarrow>
               Inr \<lparr>p_id = i, p_cve_id = cve, p_name = nm, p_severity = sev,
                    p_cvss = get_or 0 (e_cvss e), p_compiled = m,
                    p_product = get_or (lit ''generic'') (e_product e),
                    p_description = get_or [] (e_description e)\<rparr>)
      | _ \<Rightarrow> Inl MissingKey)"

text \<open>
  The loop of \<open>load_patterns\<close>: a bad regex is skipped, any other exception leaves the
  function. \<open>None\<close> is that exception.
\<close>

fun compile_all :: "compiler \<Rightarrow> pattern_entry list \<Rightarrow> cve_pattern list option" where
  "compile_all compile [] = Some []"
| "compile_all compile (e # es) =
     (case make_pattern compile e of
        Inl MissingKey \<Rightarrow> None
      | Inl BadRegex \<Rightarrow> compile_all compile es
      | Inr p \<Rightarrow> map_option ((#) p) (compile_all compile es))"

datatype pattern_file = NoFile | Unreadable | Entries "pattern_entry list"

text \<open>\<open>load_patterns\<close> and \<open>reload\<close>: the old list stays unless a whole new one was built.\<close>

definition load_patterns :: "compiler \<Rightarrow> pattern_file \<Rightarrow> cve_pattern list \<Rightarrow> cve_pattern list" where
  "load_patterns compile file old =
     (case file of
        NoFile \<Rightarrow> old
      | Unreadable \<Rightarrow> old
      | Entries es \<Rightarrow> (case compile_all compile es of None \<Rightarrow> old | Some ps \<Rightarrow> ps))"

definition severity_order :: "pystr \<Rightarrow> nat" where
  "severity_order s =
     (if s = lit ''CRITICAL'' then 0
      else if s = lit ''HIGH'' then 1
      else if s = lit ''MEDIUM'' then 2
      else if s = lit ''LOW'' then 3
      else 99)"

text \<open>\<open>scan\<close>: the patterns in order of severity (a stable sort), the first that matches.\<close>

definition scan :: "cve_pattern list \<Rightarrow> pystr \<Rightarrow> cve_pattern option" where
  "scan ps t =
     (if t = [] then None
      else first_match (\<lambda>p. p_compiled p t) (sort_key (\<lambda>p. severity_order (p_severity p)) ps))"

lemma scan_empty [simp]: "scan ps [] = None"
  by (simp add: scan_def)

lemma scan_None_iff [scan_simps]:
  "scan ps t = None \<longleftrightarrow> t = [] \<or> (\<forall>p \<in> set ps. \<not> p_compiled p t)"
  by (simp add: scan_def first_match_None_iff)

lemma scan_hit: "scan ps t = Some p \<Longrightarrow> p \<in> set ps \<and> p_compiled p t"
  by (auto simp: scan_def dest: first_match_SomeD split: if_splits)

text \<open>A sorted list's first match has the least key among the matches.\<close>

lemma first_match_sorted_least:
  assumes "sorted (map f xs)" "first_match P xs = Some x" "y \<in> set xs" "P y"
  shows "f x \<le> f y"
proof -
  obtain us vs where xs: "xs = us @ x # vs" and us: "\<forall>u \<in> set us. \<not> P u"
    using first_match_Some_split [OF assms(2)] by blast
  from assms(3,4) xs us have "y \<in> set (x # vs)" by auto
  with assms(1) xs show ?thesis by (auto simp: sorted_append)
qed

lemma scan_worst:
  assumes "scan ps t = Some p" "q \<in> set ps" "p_compiled q t"
  shows "severity_order (p_severity p) \<le> severity_order (p_severity q)"
  using assms first_match_sorted_least
      [of "\<lambda>p. severity_order (p_severity p)" "sort_key (\<lambda>p. severity_order (p_severity p)) ps"
        "\<lambda>p. p_compiled p t" p q]
  by (auto simp: scan_def split: if_splits)

lemma compile_all_keeps:
  "compile_all c es = Some ps \<Longrightarrow> p \<in> set ps \<Longrightarrow> \<exists>e \<in> set es. make_pattern c e = Inr p"
  by (induction es arbitrary: ps) (auto split: sum.splits pattern_error.splits)

lemma compile_all_complete:
  "compile_all c es = Some ps \<Longrightarrow> e \<in> set es \<Longrightarrow> make_pattern c e = Inr p \<Longrightarrow> p \<in> set ps"
  by (induction es arbitrary: ps) (auto split: sum.splits pattern_error.splits)

lemma compile_all_None_iff:
  "compile_all c es = None \<longleftrightarrow> (\<exists>e \<in> set es. make_pattern c e = Inl MissingKey)"
  by (induction es) (auto split: sum.splits pattern_error.splits)

subsection \<open>Properties\<close>

text \<open>
  Tier 1 reports a pattern of the loaded list that really matches the scanned text, and no
  matching pattern of the list is more severe; it reports nothing exactly when the text is empty
  or no pattern matches.
\<close>

theorem tier1_scan_worst_match:
  "case scan ps t of
     None \<Rightarrow> t = [] \<or> (\<forall>q \<in> set ps. \<not> p_compiled q t)
   | Some p \<Rightarrow> t \<noteq> [] \<and> p \<in> set ps \<and> p_compiled p t \<and>
       (\<forall>q \<in> set ps. p_compiled q t \<longrightarrow>
          severity_order (p_severity p) \<le> severity_order (p_severity q))"
  using scan_None_iff [of ps t] scan_hit [of ps t] scan_worst [of ps t]
  by (auto split: option.splits)

definition demo_pattern :: "pystr \<Rightarrow> pystr \<Rightarrow> pystr \<Rightarrow> cve_pattern" where
  "demo_pattern cve sev needle =
     \<lparr>p_id = 1, p_cve_id = cve, p_name = cve, p_severity = sev, p_cvss = 0,
      p_compiled = contains needle, p_product = lit ''generic'', p_description = []\<rparr>"

theorem tier1_scan_worst_match_witness:
  "\<exists>p. scan [demo_pattern (lit ''A'') (lit ''LOW'') (lit ''x''),
             demo_pattern (lit ''B'') (lit ''CRITICAL'') (lit ''x'')] (lit ''ax'') = Some p \<and>
       severity_order (p_severity p) = 0"
proof -
  let ?b = "demo_pattern (lit ''B'') (lit ''CRITICAL'') (lit ''x'')"
  let ?ps = "[demo_pattern (lit ''A'') (lit ''LOW'') (lit ''x''), ?b]"
  have m: "p_compiled ?b (lit ''ax'')" "severity_order (p_severity ?b) = 0"
    by code_simp+
  then have "scan ?ps (lit ''ax'') \<noteq> None"
    by (auto simp: scan_None_iff lit_def)
  with tier1_scan_worst_match [where ps = ?ps and t = "lit ''ax''"] m show ?thesis
    by (auto split: option.splits)
qed

text \<open>
  Hot reload is all or nothing: the engine's list after a load is either the old one (file
  missing, unreadable, or an entry lacks a required key) or exactly the compilable entries of the
  new file, and a failed load never leaves a mixture.
\<close>

theorem tier1_reload_atomic:
  "load_patterns c src old = old \<or>
   (\<exists>es. src = Entries es \<and>
      set (load_patterns c src old) = {p. \<exists>e \<in> set es. make_pattern c e = Inr p} \<and>
      (\<forall>e \<in> set es. make_pattern c e \<noteq> Inl MissingKey))"
proof (cases src)
  case (Entries es)
  show ?thesis
  proof (cases "compile_all c es")
    case None
    with Entries show ?thesis by (simp add: load_patterns_def)
  next
    case (Some ps)
    then have "set ps = {p. \<exists>e \<in> set es. make_pattern c e = Inr p}"
      by (auto dest: compile_all_keeps intro: compile_all_complete)
    moreover have "\<forall>e \<in> set es. make_pattern c e \<noteq> Inl MissingKey"
      using Some compile_all_None_iff [of c es] by auto
    ultimately show ?thesis using Entries Some by (simp add: load_patterns_def)
  qed
qed (simp_all add: load_patterns_def)

theorem tier1_reload_atomic_witness:
  "\<exists>e old. let src = Entries [e] in
     load_patterns (\<lambda>p ci. Some (contains p)) src old \<noteq> old \<and>
     set (load_patterns (\<lambda>p ci. Some (contains p)) src old) =
       {p. make_pattern (\<lambda>p ci. Some (contains p)) e = Inr p}"
proof -
  let ?e = "\<lparr>e_id = Some 1, e_cve_id = Some [65], e_name = Some [66], e_severity = Some [67],
    e_pattern = Some [68], e_cvss = None, e_flags = None, e_product = None, e_description = None\<rparr>"
  let ?c = "\<lambda>p (ci::bool). Some (contains p)"
  have "load_patterns ?c (Entries [?e]) [] \<noteq> []"
    by (simp add: load_patterns_def make_pattern_def)
  with tier1_reload_atomic [of ?c "Entries [?e]" "[]"] show ?thesis
    by (intro exI [of _ ?e] exI [of _ "[]"]) (simp add: Let_def)
qed

end
