(* ===== verification/UnicodeTables.thy ===== *)
theory UnicodeTables
  imports Prelude
begin

text \<open>
  The character classes \<open>\w\<close>, \<open>\d\<close> and \<open>\s\<close> of Python's \<open>re\<close> on \<open>str\<close>
  patterns. ASCII is decided directly; beyond it the ranges are those of the Unicode character
  database that \<open>str.isalnum\<close> and \<open>str.isdecimal\<close> read (version 14.0).
  The tables are cut into pieces, reached by bisection, so that evaluation reads one piece only.
\<close>

definition in_ranges :: "(int \<times> int) list \<Rightarrow> int \<Rightarrow> bool" where
  "in_ranges rs c \<longleftrightarrow> list_ex (\<lambda>r. in_range (fst r) (snd r) c) rs"

definition alnum_0 :: "(int \<times> int) list" where
  "alnum_0 =
     [(170, 170), (178, 179), (181, 181), (185, 186), (188, 190), (192, 214), (216, 246),
      (248, 705), (710, 721), (736, 740), (748, 748), (750, 750)]"

definition alnum_1 :: "(int \<times> int) list" where
  "alnum_1 =
     [(880, 884), (886, 887), (890, 893), (895, 895), (902, 902), (904, 906), (908, 908),
      (910, 929), (931, 1013), (1015, 1153), (1162, 1327), (1329, 1366)]"

definition alnum_2 :: "(int \<times> int) list" where
  "alnum_2 =
     [(1369, 1369), (1376, 1416), (1488, 1514), (1519, 1522), (1568, 1610), (1632, 1641),
      (1646, 1647), (1649, 1747), (1749, 1749), (1765, 1766), (1774, 1788), (1791, 1791)]"

definition alnum_3 :: "(int \<times> int) list" where
  "alnum_3 =
     [(1808, 1808), (1810, 1839), (1869, 1957), (1969, 1969), (1984, 2026), (2036, 2037),
      (2042, 2042), (2048, 2069), (2074, 2074), (2084, 2084), (2088, 2088), (2112, 2136)]"

definition alnum_4 :: "(int \<times> int) list" where
  "alnum_4 =
     [(2144, 2154), (2160, 2183), (2185, 2190), (2208, 2249), (2308, 2361), (2365, 2365),
      (2384, 2384), (2392, 2401), (2406, 2415), (2417, 2432), (2437, 2444), (2447, 2448)]"

definition alnum_5 :: "(int \<times> int) list" where
  "alnum_5 =
     [(2451, 2472), (2474, 2480), (2482, 2482), (2486, 2489), (2493, 2493), (2510, 2510),
      (2524, 2525), (2527, 2529), (2534, 2545), (2548, 2553), (2556, 2556), (2565, 2570)]"

definition alnum_6 :: "(int \<times> int) list" where
  "alnum_6 =
     [(2575, 2576), (2579, 2600), (2602, 2608), (2610, 2611), (2613, 2614), (2616, 2617),
      (2649, 2652), (2654, 2654), (2662, 2671), (2674, 2676), (2693, 2701), (2703, 2705)]"

definition alnum_7 :: "(int \<times> int) list" where
  "alnum_7 =
     [(2707, 2728), (2730, 2736), (2738, 2739), (2741, 2745), (2749, 2749), (2768, 2768),
      (2784, 2785), (2790, 2799), (2809, 2809), (2821, 2828), (2831, 2832), (2835, 2856)]"

definition alnum_8 :: "(int \<times> int) list" where
  "alnum_8 =
     [(2858, 2864), (2866, 2867), (2869, 2873), (2877, 2877), (2908, 2909), (2911, 2913),
      (2918, 2927), (2929, 2935), (2947, 2947), (2949, 2954), (2958, 2960), (2962, 2965)]"

definition alnum_9 :: "(int \<times> int) list" where
  "alnum_9 =
     [(2969, 2970), (2972, 2972), (2974, 2975), (2979, 2980), (2984, 2986), (2990, 3001),
      (3024, 3024), (3046, 3058), (3077, 3084), (3086, 3088), (3090, 3112), (3114, 3129)]"

definition alnum_10 :: "(int \<times> int) list" where
  "alnum_10 =
     [(3133, 3133), (3160, 3162), (3165, 3165), (3168, 3169), (3174, 3183), (3192, 3198),
      (3200, 3200), (3205, 3212), (3214, 3216), (3218, 3240), (3242, 3251), (3253, 3257)]"

definition alnum_11 :: "(int \<times> int) list" where
  "alnum_11 =
     [(3261, 3261), (3293, 3294), (3296, 3297), (3302, 3311), (3313, 3314), (3332, 3340),
      (3342, 3344), (3346, 3386), (3389, 3389), (3406, 3406), (3412, 3414), (3416, 3425)]"

definition alnum_12 :: "(int \<times> int) list" where
  "alnum_12 =
     [(3430, 3448), (3450, 3455), (3461, 3478), (3482, 3505), (3507, 3515), (3517, 3517),
      (3520, 3526), (3558, 3567), (3585, 3632), (3634, 3635), (3648, 3654), (3664, 3673)]"

definition alnum_13 :: "(int \<times> int) list" where
  "alnum_13 =
     [(3713, 3714), (3716, 3716), (3718, 3722), (3724, 3747), (3749, 3749), (3751, 3760),
      (3762, 3763), (3773, 3773), (3776, 3780), (3782, 3782), (3792, 3801), (3804, 3807)]"

definition alnum_14 :: "(int \<times> int) list" where
  "alnum_14 =
     [(3840, 3840), (3872, 3891), (3904, 3911), (3913, 3948), (3976, 3980), (4096, 4138),
      (4159, 4169), (4176, 4181), (4186, 4189), (4193, 4193), (4197, 4198), (4206, 4208)]"

definition alnum_15 :: "(int \<times> int) list" where
  "alnum_15 =
     [(4213, 4225), (4238, 4238), (4240, 4249), (4256, 4293), (4295, 4295), (4301, 4301),
      (4304, 4346), (4348, 4680), (4682, 4685), (4688, 4694), (4696, 4696), (4698, 4701)]"

definition alnum_16 :: "(int \<times> int) list" where
  "alnum_16 =
     [(4704, 4744), (4746, 4749), (4752, 4784), (4786, 4789), (4792, 4798), (4800, 4800),
      (4802, 4805), (4808, 4822), (4824, 4880), (4882, 4885), (4888, 4954), (4969, 4988)]"

definition alnum_17 :: "(int \<times> int) list" where
  "alnum_17 =
     [(4992, 5007), (5024, 5109), (5112, 5117), (5121, 5740), (5743, 5759), (5761, 5786),
      (5792, 5866), (5870, 5880), (5888, 5905), (5919, 5937), (5952, 5969), (5984, 5996)]"

definition alnum_18 :: "(int \<times> int) list" where
  "alnum_18 =
     [(5998, 6000), (6016, 6067), (6103, 6103), (6108, 6108), (6112, 6121), (6128, 6137),
      (6160, 6169), (6176, 6264), (6272, 6276), (6279, 6312), (6314, 6314), (6320, 6389)]"

definition alnum_19 :: "(int \<times> int) list" where
  "alnum_19 =
     [(6400, 6430), (6470, 6509), (6512, 6516), (6528, 6571), (6576, 6601), (6608, 6618),
      (6656, 6678), (6688, 6740), (6784, 6793), (6800, 6809), (6823, 6823), (6917, 6963)]"

definition alnum_20 :: "(int \<times> int) list" where
  "alnum_20 =
     [(6981, 6988), (6992, 7001), (7043, 7072), (7086, 7141), (7168, 7203), (7232, 7241),
      (7245, 7293), (7296, 7304), (7312, 7354), (7357, 7359), (7401, 7404), (7406, 7411)]"

definition alnum_21 :: "(int \<times> int) list" where
  "alnum_21 =
     [(7413, 7414), (7418, 7418), (7424, 7615), (7680, 7957), (7960, 7965), (7968, 8005),
      (8008, 8013), (8016, 8023), (8025, 8025), (8027, 8027), (8029, 8029), (8031, 8061)]"

definition alnum_22 :: "(int \<times> int) list" where
  "alnum_22 =
     [(8064, 8116), (8118, 8124), (8126, 8126), (8130, 8132), (8134, 8140), (8144, 8147),
      (8150, 8155), (8160, 8172), (8178, 8180), (8182, 8188), (8304, 8305), (8308, 8313)]"

definition alnum_23 :: "(int \<times> int) list" where
  "alnum_23 =
     [(8319, 8329), (8336, 8348), (8450, 8450), (8455, 8455), (8458, 8467), (8469, 8469),
      (8473, 8477), (8484, 8484), (8486, 8486), (8488, 8488), (8490, 8493), (8495, 8505)]"

definition alnum_24 :: "(int \<times> int) list" where
  "alnum_24 =
     [(8508, 8511), (8517, 8521), (8526, 8526), (8528, 8585), (9312, 9371), (9450, 9471),
      (10102, 10131), (11264, 11492), (11499, 11502), (11506, 11507), (11517, 11517),
      (11520, 11557)]"

definition alnum_25 :: "(int \<times> int) list" where
  "alnum_25 =
     [(11559, 11559), (11565, 11565), (11568, 11623), (11631, 11631), (11648, 11670),
      (11680, 11686), (11688, 11694), (11696, 11702), (11704, 11710), (11712, 11718),
      (11720, 11726), (11728, 11734)]"

definition alnum_26 :: "(int \<times> int) list" where
  "alnum_26 =
     [(11736, 11742), (11823, 11823), (12293, 12295), (12321, 12329), (12337, 12341),
      (12344, 12348), (12353, 12438), (12445, 12447), (12449, 12538), (12540, 12543),
      (12549, 12591), (12593, 12686)]"

definition alnum_27 :: "(int \<times> int) list" where
  "alnum_27 =
     [(12690, 12693), (12704, 12735), (12784, 12799), (12832, 12841), (12872, 12879),
      (12881, 12895), (12928, 12937), (12977, 12991), (13312, 19903), (19968, 42124),
      (42192, 42237), (42240, 42508)]"

definition alnum_28 :: "(int \<times> int) list" where
  "alnum_28 =
     [(42512, 42539), (42560, 42606), (42623, 42653), (42656, 42735), (42775, 42783),
      (42786, 42888), (42891, 42954), (42960, 42961), (42963, 42963), (42965, 42969),
      (42994, 43009), (43011, 43013)]"

definition alnum_29 :: "(int \<times> int) list" where
  "alnum_29 =
     [(43015, 43018), (43020, 43042), (43056, 43061), (43072, 43123), (43138, 43187),
      (43216, 43225), (43250, 43255), (43259, 43259), (43261, 43262), (43264, 43301),
      (43312, 43334), (43360, 43388)]"

definition alnum_30 :: "(int \<times> int) list" where
  "alnum_30 =
     [(43396, 43442), (43471, 43481), (43488, 43492), (43494, 43518), (43520, 43560),
      (43584, 43586), (43588, 43595), (43600, 43609), (43616, 43638), (43642, 43642),
      (43646, 43695), (43697, 43697)]"

definition alnum_31 :: "(int \<times> int) list" where
  "alnum_31 =
     [(43701, 43702), (43705, 43709), (43712, 43712), (43714, 43714), (43739, 43741),
      (43744, 43754), (43762, 43764), (43777, 43782), (43785, 43790), (43793, 43798),
      (43808, 43814), (43816, 43822)]"

definition alnum_32 :: "(int \<times> int) list" where
  "alnum_32 =
     [(43824, 43866), (43868, 43881), (43888, 44002), (44016, 44025), (44032, 55203),
      (55216, 55238), (55243, 55291), (63744, 64109), (64112, 64217), (64256, 64262),
      (64275, 64279), (64285, 64285)]"

definition alnum_33 :: "(int \<times> int) list" where
  "alnum_33 =
     [(64287, 64296), (64298, 64310), (64312, 64316), (64318, 64318), (64320, 64321),
      (64323, 64324), (64326, 64433), (64467, 64829), (64848, 64911), (64914, 64967),
      (65008, 65019), (65136, 65140)]"

definition alnum_34 :: "(int \<times> int) list" where
  "alnum_34 =
     [(65142, 65276), (65296, 65305), (65313, 65338), (65345, 65370), (65382, 65470),
      (65474, 65479), (65482, 65487), (65490, 65495), (65498, 65500), (65536, 65547),
      (65549, 65574), (65576, 65594)]"

definition alnum_35 :: "(int \<times> int) list" where
  "alnum_35 =
     [(65596, 65597), (65599, 65613), (65616, 65629), (65664, 65786), (65799, 65843),
      (65856, 65912), (65930, 65931), (66176, 66204), (66208, 66256), (66273, 66299),
      (66304, 66339), (66349, 66378)]"

definition alnum_36 :: "(int \<times> int) list" where
  "alnum_36 =
     [(66384, 66421), (66432, 66461), (66464, 66499), (66504, 66511), (66513, 66517),
      (66560, 66717), (66720, 66729), (66736, 66771), (66776, 66811), (66816, 66855),
      (66864, 66915), (66928, 66938)]"

definition alnum_37 :: "(int \<times> int) list" where
  "alnum_37 =
     [(66940, 66954), (66956, 66962), (66964, 66965), (66967, 66977), (66979, 66993),
      (66995, 67001), (67003, 67004), (67072, 67382), (67392, 67413), (67424, 67431),
      (67456, 67461), (67463, 67504)]"

definition alnum_38 :: "(int \<times> int) list" where
  "alnum_38 =
     [(67506, 67514), (67584, 67589), (67592, 67592), (67594, 67637), (67639, 67640),
      (67644, 67644), (67647, 67669), (67672, 67702), (67705, 67742), (67751, 67759),
      (67808, 67826), (67828, 67829)]"

definition alnum_39 :: "(int \<times> int) list" where
  "alnum_39 =
     [(67835, 67867), (67872, 67897), (67968, 68023), (68028, 68047), (68050, 68096),
      (68112, 68115), (68117, 68119), (68121, 68149), (68160, 68168), (68192, 68222),
      (68224, 68255), (68288, 68295)]"

definition alnum_40 :: "(int \<times> int) list" where
  "alnum_40 =
     [(68297, 68324), (68331, 68335), (68352, 68405), (68416, 68437), (68440, 68466),
      (68472, 68497), (68521, 68527), (68608, 68680), (68736, 68786), (68800, 68850),
      (68858, 68899), (68912, 68921)]"

definition alnum_41 :: "(int \<times> int) list" where
  "alnum_41 =
     [(69216, 69246), (69248, 69289), (69296, 69297), (69376, 69415), (69424, 69445),
      (69457, 69460), (69488, 69505), (69552, 69579), (69600, 69622), (69635, 69687),
      (69714, 69743), (69745, 69746)]"

definition alnum_42 :: "(int \<times> int) list" where
  "alnum_42 =
     [(69749, 69749), (69763, 69807), (69840, 69864), (69872, 69881), (69891, 69926),
      (69942, 69951), (69956, 69956), (69959, 69959), (69968, 70002), (70006, 70006),
      (70019, 70066), (70081, 70084)]"

definition alnum_43 :: "(int \<times> int) list" where
  "alnum_43 =
     [(70096, 70106), (70108, 70108), (70113, 70132), (70144, 70161), (70163, 70187),
      (70272, 70278), (70280, 70280), (70282, 70285), (70287, 70301), (70303, 70312),
      (70320, 70366), (70384, 70393)]"

definition alnum_44 :: "(int \<times> int) list" where
  "alnum_44 =
     [(70405, 70412), (70415, 70416), (70419, 70440), (70442, 70448), (70450, 70451),
      (70453, 70457), (70461, 70461), (70480, 70480), (70493, 70497), (70656, 70708),
      (70727, 70730), (70736, 70745)]"

definition alnum_45 :: "(int \<times> int) list" where
  "alnum_45 =
     [(70751, 70753), (70784, 70831), (70852, 70853), (70855, 70855), (70864, 70873),
      (71040, 71086), (71128, 71131), (71168, 71215), (71236, 71236), (71248, 71257),
      (71296, 71338), (71352, 71352)]"

definition alnum_46 :: "(int \<times> int) list" where
  "alnum_46 =
     [(71360, 71369), (71424, 71450), (71472, 71483), (71488, 71494), (71680, 71723),
      (71840, 71922), (71935, 71942), (71945, 71945), (71948, 71955), (71957, 71958),
      (71960, 71983), (71999, 71999)]"

definition alnum_47 :: "(int \<times> int) list" where
  "alnum_47 =
     [(72001, 72001), (72016, 72025), (72096, 72103), (72106, 72144), (72161, 72161),
      (72163, 72163), (72192, 72192), (72203, 72242), (72250, 72250), (72272, 72272),
      (72284, 72329), (72349, 72349)]"

definition alnum_48 :: "(int \<times> int) list" where
  "alnum_48 =
     [(72368, 72440), (72704, 72712), (72714, 72750), (72768, 72768), (72784, 72812),
      (72818, 72847), (72960, 72966), (72968, 72969), (72971, 73008), (73030, 73030),
      (73040, 73049), (73056, 73061)]"

definition alnum_49 :: "(int \<times> int) list" where
  "alnum_49 =
     [(73063, 73064), (73066, 73097), (73112, 73112), (73120, 73129), (73440, 73458),
      (73648, 73648), (73664, 73684), (73728, 74649), (74752, 74862), (74880, 75075),
      (77712, 77808), (77824, 78894)]"

definition alnum_50 :: "(int \<times> int) list" where
  "alnum_50 =
     [(82944, 83526), (92160, 92728), (92736, 92766), (92768, 92777), (92784, 92862),
      (92864, 92873), (92880, 92909), (92928, 92975), (92992, 92995), (93008, 93017),
      (93019, 93025), (93027, 93047)]"

definition alnum_51 :: "(int \<times> int) list" where
  "alnum_51 =
     [(93053, 93071), (93760, 93846), (93952, 94026), (94032, 94032), (94099, 94111),
      (94176, 94177), (94179, 94179), (94208, 100343), (100352, 101589), (101632, 101640),
      (110576, 110579), (110581, 110587)]"

definition alnum_52 :: "(int \<times> int) list" where
  "alnum_52 =
     [(110589, 110590), (110592, 110882), (110928, 110930), (110948, 110951),
      (110960, 111355), (113664, 113770), (113776, 113788), (113792, 113800),
      (113808, 113817), (119520, 119539), (119648, 119672), (119808, 119892)]"

definition alnum_53 :: "(int \<times> int) list" where
  "alnum_53 =
     [(119894, 119964), (119966, 119967), (119970, 119970), (119973, 119974),
      (119977, 119980), (119982, 119993), (119995, 119995), (119997, 120003),
      (120005, 120069), (120071, 120074), (120077, 120084), (120086, 120092)]"

definition alnum_54 :: "(int \<times> int) list" where
  "alnum_54 =
     [(120094, 120121), (120123, 120126), (120128, 120132), (120134, 120134),
      (120138, 120144), (120146, 120485), (120488, 120512), (120514, 120538),
      (120540, 120570), (120572, 120596), (120598, 120628), (120630, 120654)]"

definition alnum_55 :: "(int \<times> int) list" where
  "alnum_55 =
     [(120656, 120686), (120688, 120712), (120714, 120744), (120746, 120770),
      (120772, 120779), (120782, 120831), (122624, 122654), (123136, 123180),
      (123191, 123197), (123200, 123209), (123214, 123214), (123536, 123565)]"

definition alnum_56 :: "(int \<times> int) list" where
  "alnum_56 =
     [(123584, 123627), (123632, 123641), (124896, 124902), (124904, 124907),
      (124909, 124910), (124912, 124926), (124928, 125124), (125127, 125135),
      (125184, 125251), (125259, 125259), (125264, 125273), (126065, 126123)]"

definition alnum_57 :: "(int \<times> int) list" where
  "alnum_57 =
     [(126125, 126127), (126129, 126132), (126209, 126253), (126255, 126269),
      (126464, 126467), (126469, 126495), (126497, 126498), (126500, 126500),
      (126503, 126503), (126505, 126514), (126516, 126519), (126521, 126521)]"

definition alnum_58 :: "(int \<times> int) list" where
  "alnum_58 =
     [(126523, 126523), (126530, 126530), (126535, 126535), (126537, 126537),
      (126539, 126539), (126541, 126543), (126545, 126546), (126548, 126548),
      (126551, 126551), (126553, 126553), (126555, 126555), (126557, 126557)]"

definition alnum_59 :: "(int \<times> int) list" where
  "alnum_59 =
     [(126559, 126559), (126561, 126562), (126564, 126564), (126567, 126570),
      (126572, 126578), (126580, 126583), (126585, 126588), (126590, 126590),
      (126592, 126601), (126603, 126619), (126625, 126627), (126629, 126633)]"

definition alnum_60 :: "(int \<times> int) list" where
  "alnum_60 =
     [(126635, 126651), (127232, 127244), (130032, 130041), (131072, 173791),
      (173824, 177976), (177984, 178205), (178208, 183969), (183984, 191456),
      (194560, 195101), (196608, 201546)]"

definition decimal_0 :: "(int \<times> int) list" where
  "decimal_0 =
     [(1632, 1641), (1776, 1785), (1984, 1993), (2406, 2415), (2534, 2543), (2662, 2671),
      (2790, 2799), (2918, 2927), (3046, 3055), (3174, 3183)]"

definition decimal_1 :: "(int \<times> int) list" where
  "decimal_1 =
     [(3302, 3311), (3430, 3439), (3558, 3567), (3664, 3673), (3792, 3801), (3872, 3881),
      (4160, 4169), (4240, 4249), (6112, 6121), (6160, 6169)]"

definition decimal_2 :: "(int \<times> int) list" where
  "decimal_2 =
     [(6470, 6479), (6608, 6617), (6784, 6793), (6800, 6809), (6992, 7001), (7088, 7097),
      (7232, 7241), (7248, 7257), (42528, 42537), (43216, 43225)]"

definition decimal_3 :: "(int \<times> int) list" where
  "decimal_3 =
     [(43264, 43273), (43472, 43481), (43504, 43513), (43600, 43609), (44016, 44025),
      (65296, 65305), (66720, 66729), (68912, 68921), (69734, 69743), (69872, 69881)]"

definition decimal_4 :: "(int \<times> int) list" where
  "decimal_4 =
     [(69942, 69951), (70096, 70105), (70384, 70393), (70736, 70745), (70864, 70873),
      (71248, 71257), (71360, 71369), (71472, 71481), (71904, 71913), (72016, 72025)]"

definition decimal_5 :: "(int \<times> int) list" where
  "decimal_5 =
     [(72784, 72793), (73040, 73049), (73120, 73129), (92768, 92777), (92864, 92873),
      (93008, 93017), (120782, 120831), (123200, 123209), (123632, 123641), (125264, 125273)]"

definition decimal_6 :: "(int \<times> int) list" where
  "decimal_6 =
     [(130032, 130041)]"

definition alnum_cp :: "int \<Rightarrow> bool" where
  "alnum_cp c =
     (if c < 43396
      then (if c < 4213
            then (if c < 2707
                  then (if c < 1808
                        then (if c < 880
                              then in_ranges alnum_0 c
                              else (if c < 1369
                                    then in_ranges alnum_1 c
                                    else in_ranges alnum_2 c))
                        else (if c < 2451
                              then (if c < 2144
                                    then in_ranges alnum_3 c
                                    else in_ranges alnum_4 c)
                              else (if c < 2575
                                    then in_ranges alnum_5 c
                                    else in_ranges alnum_6 c)))
                  else (if c < 3261
                        then (if c < 2969
                              then (if c < 2858
                                    then in_ranges alnum_7 c
                                    else in_ranges alnum_8 c)
                              else (if c < 3133
                                    then in_ranges alnum_9 c
                                    else in_ranges alnum_10 c))
                        else (if c < 3713
                              then (if c < 3430
                                    then in_ranges alnum_11 c
                                    else in_ranges alnum_12 c)
                              else (if c < 3840
                                    then in_ranges alnum_13 c
                                    else in_ranges alnum_14 c))))
            else (if c < 8064
                  then (if c < 5998
                        then (if c < 4704
                              then in_ranges alnum_15 c
                              else (if c < 4992
                                    then in_ranges alnum_16 c
                                    else in_ranges alnum_17 c))
                        else (if c < 6981
                              then (if c < 6400
                                    then in_ranges alnum_18 c
                                    else in_ranges alnum_19 c)
                              else (if c < 7413
                                    then in_ranges alnum_20 c
                                    else in_ranges alnum_21 c)))
                  else (if c < 11736
                        then (if c < 8508
                              then (if c < 8319
                                    then in_ranges alnum_22 c
                                    else in_ranges alnum_23 c)
                              else (if c < 11559
                                    then in_ranges alnum_24 c
                                    else in_ranges alnum_25 c))
                        else (if c < 42512
                              then (if c < 12690
                                    then in_ranges alnum_26 c
                                    else in_ranges alnum_27 c)
                              else (if c < 43015
                                    then in_ranges alnum_28 c
                                    else in_ranges alnum_29 c)))))
      else (if c < 70751
            then (if c < 66940
                  then (if c < 64287
                        then (if c < 43701
                              then in_ranges alnum_30 c
                              else (if c < 43824
                                    then in_ranges alnum_31 c
                                    else in_ranges alnum_32 c))
                        else (if c < 65596
                              then (if c < 65142
                                    then in_ranges alnum_33 c
                                    else in_ranges alnum_34 c)
                              else (if c < 66384
                                    then in_ranges alnum_35 c
                                    else in_ranges alnum_36 c)))
                  else (if c < 69216
                        then (if c < 67835
                              then (if c < 67506
                                    then in_ranges alnum_37 c
                                    else in_ranges alnum_38 c)
                              else (if c < 68297
                                    then in_ranges alnum_39 c
                                    else in_ranges alnum_40 c))
                        else (if c < 70096
                              then (if c < 69749
                                    then in_ranges alnum_41 c
                                    else in_ranges alnum_42 c)
                              else (if c < 70405
                                    then in_ranges alnum_43 c
                                    else in_ranges alnum_44 c))))
            else (if c < 119894
                  then (if c < 73063
                        then (if c < 72001
                              then (if c < 71360
                                    then in_ranges alnum_45 c
                                    else in_ranges alnum_46 c)
                              else (if c < 72368
                                    then in_ranges alnum_47 c
                                    else in_ranges alnum_48 c))
                        else (if c < 93053
                              then (if c < 82944
                                    then in_ranges alnum_49 c
                                    else in_ranges alnum_50 c)
                              else (if c < 110589
                                    then in_ranges alnum_51 c
                                    else in_ranges alnum_52 c)))
                  else (if c < 126125
                        then (if c < 120656
                              then (if c < 120094
                                    then in_ranges alnum_53 c
                                    else in_ranges alnum_54 c)
                              else (if c < 123584
                                    then in_ranges alnum_55 c
                                    else in_ranges alnum_56 c))
                        else (if c < 126559
                              then (if c < 126523
                                    then in_ranges alnum_57 c
                                    else in_ranges alnum_58 c)
                              else (if c < 126635
                                    then in_ranges alnum_59 c
                                    else in_ranges alnum_60 c))))))"

definition decimal_cp :: "int \<Rightarrow> bool" where
  "decimal_cp c =
     (if c < 43264
      then (if c < 3302
            then in_ranges decimal_0 c
            else (if c < 6470
                  then in_ranges decimal_1 c
                  else in_ranges decimal_2 c))
      else (if c < 72784
            then (if c < 69942
                  then in_ranges decimal_3 c
                  else in_ranges decimal_4 c)
            else (if c < 130032
                  then in_ranges decimal_5 c
                  else in_ranges decimal_6 c)))"

definition word_cp :: "int \<Rightarrow> bool" where
  "word_cp c =
     (if c < 128 then in_range 97 122 c \<or> in_range 48 57 c \<or> in_range 65 90 c \<or> c = 95
      else alnum_cp c)"

definition digit_cp :: "int \<Rightarrow> bool" where
  "digit_cp c = (if c < 128 then in_range 48 57 c else decimal_cp c)"

end
