(* ===== verification/Regex.thy ===== *)
theory Regex
  imports UnicodeTables
begin

text \<open>
  The part of Python's \<open>re\<close> that the program's hard-coded patterns use, as a datatype with an
  executable backtracking matcher. \<open>mt ic r p\<close> lists the positions where a match of \<open>r\<close> from
  \<open>p\<close> can end, in the order Python's engine tries them, so its head is the match Python
  reports; \<open>rm\<close> is the declarative meaning, and \<open>set_mt\<close> says that they agree. A position
  is the character before it and the text after it.

  Python stops an unbounded repetition when an iteration consumes nothing. \<open>mt\<close> drops such
  iterations, which changes no result for a body that always consumes; every repeated body of
  the program does (\<open>loops_consume\<close>, checked for each pattern list).
\<close>

datatype citem = CR int int | CWord | CDigit | CSpace | CNotSpace

datatype rx =
    Eps
  | Chr int
  | Cls bool "citem list"  \<comment> \<open>negated?, items\<close>
  | Bol | Eol | WordB
  | Cat rx rx
  | Alt rx rx
  | Star rx
  | LStar rx      \<comment> \<open>the lazy \<open>*?\<close>\<close>
  | UpTo nat rx   \<comment> \<open>at most so many, greedy\<close>
  | LUpTo nat rx  \<comment> \<open>at most so many, lazy\<close>

type_synonym pos = "int option \<times> pystr"

subsection \<open>Abbreviations for writing patterns\<close>

definition word :: "string \<Rightarrow> rx" where
  "word s = foldr (\<lambda>c r. Cat (Chr (of_char c)) r) s Eps"

fun seqs :: "rx list \<Rightarrow> rx" where
  "seqs [] = Eps"
| "seqs [r] = r"
| "seqs (r # rs) = Cat r (seqs rs)"

fun alts :: "rx list \<Rightarrow> rx" where
  "alts [] = Cls False []"
| "alts [r] = r"
| "alts (r # rs) = Alt r (alts rs)"

definition oneof :: "string list \<Rightarrow> rx" where
  "oneof ws = alts (map word ws)"

definition Plus :: "rx \<Rightarrow> rx" where
  "Plus r = Cat r (Star r)"

definition LPlus :: "rx \<Rightarrow> rx" where
  "LPlus r = Cat r (LStar r)"

definition Opt :: "rx \<Rightarrow> rx" where
  "Opt r = UpTo 1 r"

primrec Rep :: "nat \<Rightarrow> rx \<Rightarrow> rx" where
  "Rep 0 r = Eps"
| "Rep (Suc n) r = Cat r (Rep n r)"

text \<open>\<open>r{m,n}\<close>, \<open>r{m,}\<close>.\<close>

definition Between :: "nat \<Rightarrow> nat \<Rightarrow> rx \<Rightarrow> rx" where
  "Between m n r = Cat (Rep m r) (UpTo (n - m) r)"

definition LBetween :: "nat \<Rightarrow> nat \<Rightarrow> rx \<Rightarrow> rx" where
  "LBetween m n r = Cat (Rep m r) (LUpTo (n - m) r)"

definition AtLeast :: "nat \<Rightarrow> rx \<Rightarrow> rx" where
  "AtLeast m r = Cat (Rep m r) (Star r)"

abbreviation "SP \<equiv> Cls False [CSpace]"
abbreviation "NSP \<equiv> Cls False [CNotSpace]"
abbreviation "DG \<equiv> Cls False [CDigit]"
abbreviation "WD \<equiv> Cls False [CWord]"
abbreviation "ANY \<equiv> Cls True []"

text \<open>A class of single characters, and its complement.\<close>

definition chars :: "string \<Rightarrow> citem list" where
  "chars s = map (\<lambda>c. CR (of_char c) (of_char c)) s"

definition anyof :: "string \<Rightarrow> rx" where
  "anyof s = Cls False (chars s)"

definition noneof :: "string \<Rightarrow> rx" where
  "noneof s = Cls True (chars s)"

definition rng :: "char \<Rightarrow> char \<Rightarrow> citem" where
  "rng a b = CR (of_char a) (of_char b)"

subsection \<open>Matching one character\<close>

text \<open>
  \<open>re.IGNORECASE\<close> on \<open>str\<close>: an ASCII letter of the pattern also matches its other case and
  the non-ASCII characters with the same case folding, of which there are four: U+0130 and
  U+0131 for \<open>i\<close>, U+017F for \<open>s\<close>, U+212A for \<open>k\<close>.
\<close>

definition ci_fold :: "int \<Rightarrow> int" where
  "ci_fold c =
     (if in_range 65 90 c then c + 32
      else if c = 304 \<or> c = 305 then 105
      else if c = 383 then 115
      else if c = 8490 then 107
      else c)"

definition ci_upper :: "int \<Rightarrow> int" where
  "ci_upper c = (if in_range 97 122 c then c - 32 else c)"

fun item_has :: "citem \<Rightarrow> int \<Rightarrow> bool" where
  "item_has (CR a b) c = in_range a b c"
| "item_has CWord c = word_cp c"
| "item_has CDigit c = digit_cp c"
| "item_has CSpace c = is_space c"
| "item_has CNotSpace c = (\<not> is_space c)"

definition cls_has :: "bool \<Rightarrow> citem list \<Rightarrow> int \<Rightarrow> bool" where
  "cls_has ic is c =
     (list_ex (\<lambda>i. item_has i c) is \<or>
      (if ic then list_ex (\<lambda>i. item_has i (ci_fold c) \<or> item_has i (ci_upper (ci_fold c))) is
       else False))"

definition chr_eq :: "bool \<Rightarrow> int \<Rightarrow> int \<Rightarrow> bool" where
  "chr_eq ic a c = (a = c \<or> (if ic then ci_fold a = ci_fold c else False))"

definition wordish :: "int option \<Rightarrow> bool" where
  "wordish x = (case x of None \<Rightarrow> False | Some c \<Rightarrow> word_cp c)"

definition next_char :: "pos \<Rightarrow> int option" where
  "next_char p = (case snd p of [] \<Rightarrow> None | c # _ \<Rightarrow> Some c)"

text \<open>The zero-width assertions: \<open>^\<close>, \<open>$\<close> (also before a final newline) and \<open>\b\<close>.\<close>

definition at_bol :: "pos \<Rightarrow> bool" where
  "at_bol p \<longleftrightarrow> fst p = None"

definition at_eol :: "pos \<Rightarrow> bool" where
  "at_eol p \<longleftrightarrow> snd p = [] \<or> snd p = [10]"

definition at_wordb :: "pos \<Rightarrow> bool" where
  "at_wordb p \<longleftrightarrow> wordish (fst p) \<noteq> wordish (next_char p)"

definition step_if :: "(int \<Rightarrow> bool) \<Rightarrow> pos \<Rightarrow> pos list" where
  "step_if P p = (case snd p of [] \<Rightarrow> [] | c # s \<Rightarrow> if P c then [(Some c, s)] else [])"

subsection \<open>The matcher\<close>

primrec weight :: "rx \<Rightarrow> nat" where
  "weight Eps = 0"
| "weight (Chr a) = 0"
| "weight (Cls neg is) = 0"
| "weight Bol = 0"
| "weight Eol = 0"
| "weight WordB = 0"
| "weight (Cat a b) = Suc (weight a + weight b)"
| "weight (Alt a b) = Suc (weight a + weight b)"
| "weight (Star a) = Suc (weight a)"
| "weight (LStar a) = Suc (weight a)"
| "weight (UpTo n a) = Suc (n + weight a)"
| "weight (LUpTo n a) = Suc (n + weight a)"

function (sequential) mt :: "bool \<Rightarrow> rx \<Rightarrow> pos \<Rightarrow> pos list" where
  "mt ic Eps p = [p]"
| "mt ic (Chr a) p = step_if (chr_eq ic a) p"
| "mt ic (Cls neg is) p = step_if (\<lambda>c. cls_has ic is c \<noteq> neg) p"
| "mt ic Bol p = (if at_bol p then [p] else [])"
| "mt ic Eol p = (if at_eol p then [p] else [])"
| "mt ic WordB p = (if at_wordb p then [p] else [])"
| "mt ic (Cat a b) p = concat (map (mt ic b) (mt ic a p))"
| "mt ic (Alt a b) p = mt ic a p @ mt ic b p"
| "mt ic (Star a) p =
     concat (map (mt ic (Star a)) (filter (\<lambda>q. length (snd q) < length (snd p)) (mt ic a p))) @ [p]"
| "mt ic (LStar a) p =
     p # concat (map (mt ic (LStar a)) (filter (\<lambda>q. length (snd q) < length (snd p)) (mt ic a p)))"
| "mt ic (UpTo n a) p =
     (case n of 0 \<Rightarrow> [p] | Suc k \<Rightarrow> concat (map (mt ic (UpTo k a)) (mt ic a p)) @ [p])"
| "mt ic (LUpTo n a) p =
     (case n of 0 \<Rightarrow> [p] | Suc k \<Rightarrow> p # concat (map (mt ic (LUpTo k a)) (mt ic a p)))"
  by pat_completeness auto
termination
  by (relation "inv_image (less_than <*lex*> less_than) (\<lambda>(ic, r, p). (weight r, length (snd p)))") auto

text \<open>The declarative meaning.\<close>

declare mt.simps(9,10,11,12) [simp del]

inductive rm :: "bool \<Rightarrow> rx \<Rightarrow> pos \<Rightarrow> pos \<Rightarrow> bool" for ic where
  rm_eps: "rm ic Eps p p"
| rm_chr: "chr_eq ic a c \<Longrightarrow> rm ic (Chr a) (x, c # s) (Some c, s)"
| rm_cls: "cls_has ic is c \<noteq> neg \<Longrightarrow> rm ic (Cls neg is) (x, c # s) (Some c, s)"
| rm_bol: "at_bol p \<Longrightarrow> rm ic Bol p p"
| rm_eol: "at_eol p \<Longrightarrow> rm ic Eol p p"
| rm_wordb: "at_wordb p \<Longrightarrow> rm ic WordB p p"
| rm_cat: "rm ic a p q \<Longrightarrow> rm ic b q t \<Longrightarrow> rm ic (Cat a b) p t"
| rm_alt1: "rm ic a p q \<Longrightarrow> rm ic (Alt a b) p q"
| rm_alt2: "rm ic b p q \<Longrightarrow> rm ic (Alt a b) p q"
| rm_star0: "rm ic (Star a) p p"
| rm_star: "rm ic a p q \<Longrightarrow> rm ic (Star a) q t \<Longrightarrow> rm ic (Star a) p t"
| rm_lstar0: "rm ic (LStar a) p p"
| rm_lstar: "rm ic a p q \<Longrightarrow> rm ic (LStar a) q t \<Longrightarrow> rm ic (LStar a) p t"
| rm_upto0: "rm ic (UpTo n a) p p"
| rm_upto: "rm ic a p q \<Longrightarrow> rm ic (UpTo n a) q t \<Longrightarrow> rm ic (UpTo (Suc n) a) p t"
| rm_lupto0: "rm ic (LUpTo n a) p p"
| rm_lupto: "rm ic a p q \<Longrightarrow> rm ic (LUpTo n a) q t \<Longrightarrow> rm ic (LUpTo (Suc n) a) p t"

inductive_cases rm_EpsE [elim!]: "rm ic Eps p q"
inductive_cases rm_ChrE [elim!]: "rm ic (Chr a) p q"
inductive_cases rm_ClsE [elim!]: "rm ic (Cls neg is) p q"
inductive_cases rm_BolE [elim!]: "rm ic Bol p q"
inductive_cases rm_EolE [elim!]: "rm ic Eol p q"
inductive_cases rm_WordBE [elim!]: "rm ic WordB p q"
inductive_cases rm_CatE [elim!]: "rm ic (Cat a b) p q"
inductive_cases rm_AltE [elim!]: "rm ic (Alt a b) p q"
inductive_cases rm_UpToE: "rm ic (UpTo n a) p q"
inductive_cases rm_LUpToE: "rm ic (LUpTo n a) p q"

text \<open>A match consumes a prefix of the text; one that consumes nothing ends where it began.\<close>

definition advance :: "pystr \<Rightarrow> int option \<Rightarrow> int option" where
  "advance w x = (if w = [] then x else Some (last w))"

lemma advance_Nil [simp]: "advance [] x = x"
  by (simp add: advance_def)

lemma advance_append: "advance (v @ w) x = advance w (advance v x)"
  by (simp add: advance_def)

lemma rm_consumes: "rm ic r p q \<Longrightarrow> \<exists>w. snd p = w @ snd q \<and> fst q = advance w (fst p)"
proof (induction rule: rm.induct)
  case (rm_chr a c x s)
  then show ?case by (intro exI [of _ "[c]"]) (simp add: advance_def)
next
  case (rm_cls "is" c neg x s)
  then show ?case by (intro exI [of _ "[c]"]) (simp add: advance_def)
qed (auto simp: advance_append)

lemma rm_same_length: "rm ic r p q \<Longrightarrow> \<not> length (snd q) < length (snd p) \<Longrightarrow> q = p"
  by (cases p; cases q) (auto dest!: rm_consumes)

lemma step_if_set: "q \<in> set (step_if P p) \<longleftrightarrow> (\<exists>x c s. p = (x, c # s) \<and> q = (Some c, s) \<and> P c)"
  by (cases p) (auto simp: step_if_def split: list.splits)

lemma mt_Star_iff:
  "q \<in> set (mt ic (Star a) p) \<longleftrightarrow>
     q = p \<or> (\<exists>u \<in> set (mt ic a p). length (snd u) < length (snd p) \<and> q \<in> set (mt ic (Star a) u))"
  by (subst mt.simps(9)) auto

lemma mt_LStar_iff:
  "q \<in> set (mt ic (LStar a) p) \<longleftrightarrow>
     q = p \<or> (\<exists>u \<in> set (mt ic a p). length (snd u) < length (snd p) \<and> q \<in> set (mt ic (LStar a) u))"
  by (subst mt.simps(10)) auto

lemma mt_UpTo_iff:
  "q \<in> set (mt ic (UpTo n a) p) \<longleftrightarrow>
     q = p \<or> (\<exists>k. n = Suc k \<and> (\<exists>u \<in> set (mt ic a p). q \<in> set (mt ic (UpTo k a) u)))"
  by (subst mt.simps(11)) (auto split: nat.splits)

lemma mt_LUpTo_iff:
  "q \<in> set (mt ic (LUpTo n a) p) \<longleftrightarrow>
     q = p \<or> (\<exists>k. n = Suc k \<and> (\<exists>u \<in> set (mt ic a p). q \<in> set (mt ic (LUpTo k a) u)))"
  by (subst mt.simps(12)) (auto split: nat.splits)

lemma mt_sound: "q \<in> set (mt ic r p) \<Longrightarrow> rm ic r p q"
proof (induction ic r p arbitrary: q rule: mt.induct)
  case (2 ic a p)
  then show ?case by (auto simp: step_if_set intro: rm_chr)
next
  case (3 ic neg "is" p)
  then show ?case by (auto simp: step_if_set intro: rm_cls)
next
  case (7 ic a b p)
  then obtain u where "u \<in> set (mt ic a p)" "q \<in> set (mt ic b u)" by auto
  with 7 show ?case by (blast intro: rm_cat)
next
  case (9 ic a p)
  from 9(3) consider "q = p" | u where "u \<in> set (mt ic a p)" "length (snd u) < length (snd p)"
      "q \<in> set (mt ic (Star a) u)" unfolding mt_Star_iff [of q ic a p] by blast
  then show ?case
  proof cases
    case 1
    then show ?thesis by (simp add: rm_star0)
  next
    case 2
    have "rm ic a p u" using 9(1) [OF 2(1)] .
    moreover have "rm ic (Star a) u q" using 9(2) [of u q] 2 by simp
    ultimately show ?thesis by (rule rm_star)
  qed
next
  case (10 ic a p)
  from 10(3) consider "q = p" | u where "u \<in> set (mt ic a p)" "length (snd u) < length (snd p)"
      "q \<in> set (mt ic (LStar a) u)" unfolding mt_LStar_iff [of q ic a p] by blast
  then show ?case
  proof cases
    case 1
    then show ?thesis by (simp add: rm_lstar0)
  next
    case 2
    have "rm ic a p u" using 10(1) [OF 2(1)] .
    moreover have "rm ic (LStar a) u q" using 10(2) [of u q] 2 by simp
    ultimately show ?thesis by (rule rm_lstar)
  qed
next
  case (11 ic n a p)
  from 11(3) consider "q = p" | k u where "n = Suc k" "u \<in> set (mt ic a p)"
      "q \<in> set (mt ic (UpTo k a) u)" unfolding mt_UpTo_iff [of q ic n a p] by blast
  then show ?case
  proof cases
    case 1
    then show ?thesis by (simp add: rm_upto0)
  next
    case 2
    have "rm ic a p u" using 11(1) [OF 2(1,2)] .
    moreover have "rm ic (UpTo k a) u q" using 11(2) [OF 2] .
    ultimately show ?thesis using 2(1) by (simp add: rm_upto)
  qed
next
  case (12 ic n a p)
  from 12(3) consider "q = p" | k u where "n = Suc k" "u \<in> set (mt ic a p)"
      "q \<in> set (mt ic (LUpTo k a) u)" unfolding mt_LUpTo_iff [of q ic n a p] by blast
  then show ?case
  proof cases
    case 1
    then show ?thesis by (simp add: rm_lupto0)
  next
    case 2
    have "rm ic a p u" using 12(1) [OF 2(1,2)] .
    moreover have "rm ic (LUpTo k a) u q" using 12(2) [OF 2] .
    ultimately show ?thesis using 2(1) by (simp add: rm_lupto)
  qed
qed (auto split: if_splits intro: rm.intros)

lemma mt_complete: "rm ic r p q \<Longrightarrow> q \<in> set (mt ic r p)"
proof (induction rule: rm.induct)
  case (rm_star a p q t)
  then show ?case
    by (cases "length (snd q) < length (snd p)") (metis mt_Star_iff, metis rm_same_length)
next
  case (rm_lstar a p q t)
  then show ?case
    by (cases "length (snd q) < length (snd p)") (metis mt_LStar_iff, metis rm_same_length)
next
  case (rm_upto a p q n t)
  then show ?case unfolding mt_UpTo_iff [of t ic "Suc n"] by blast
next
  case (rm_lupto a p q n t)
  then show ?case unfolding mt_LUpTo_iff [of t ic "Suc n"] by blast
next
  case (rm_cat a p q b t)
  then show ?case by auto
next
  case (rm_star0 a p)
  show ?case by (subst mt_Star_iff) simp
next
  case (rm_lstar0 a p)
  show ?case by (subst mt_LStar_iff) simp
next
  case (rm_upto0 n a p)
  show ?case by (subst mt_UpTo_iff) simp
next
  case (rm_lupto0 n a p)
  show ?case by (subst mt_LUpTo_iff) simp
qed (simp_all add: step_if_def)

theorem set_mt: "set (mt ic r p) = {q. rm ic r p q}"
  by (auto intro: mt_sound mt_complete)

subsection \<open>Searching\<close>

text \<open>\<open>pattern.search(s)\<close>: the leftmost match, as its start and end positions.\<close>

fun search_from :: "bool \<Rightarrow> rx \<Rightarrow> int option \<Rightarrow> pystr \<Rightarrow> (pos \<times> pos) option" where
  "search_from ic r x [] =
     (case mt ic r (x, []) of q # _ \<Rightarrow> Some ((x, []), q) | [] \<Rightarrow> None)"
| "search_from ic r x (c # s) =
     (case mt ic r (x, c # s) of
        q # _ \<Rightarrow> Some ((x, c # s), q)
      | [] \<Rightarrow> search_from ic r (Some c) s)"

definition re_search :: "bool \<Rightarrow> rx \<Rightarrow> pystr \<Rightarrow> (pos \<times> pos) option" where
  "re_search ic r s = search_from ic r None s"

definition found :: "bool \<Rightarrow> rx \<Rightarrow> pystr \<Rightarrow> bool" where
  "found ic r s \<longleftrightarrow> re_search ic r s \<noteq> None"

text \<open>\<open>m.group(0)\<close>.\<close>

definition group0 :: "pos \<times> pos \<Rightarrow> pystr" where
  "group0 m = take (length (snd (fst m)) - length (snd (snd m))) (snd (fst m))"

text \<open>\<open>pattern.match(s)\<close> is anchored at the start.\<close>

definition re_match :: "bool \<Rightarrow> rx \<Rightarrow> pystr \<Rightarrow> bool" where
  "re_match ic r s \<longleftrightarrow> mt ic r (None, s) \<noteq> []"

lemma search_from_bounds:
  "search_from ic r x s = Some (p, q) \<Longrightarrow> rm ic r p q \<and> length (snd p) \<le> length s"
proof (induction ic r x s rule: search_from.induct)
  case (1 ic r x)
  then show ?case by (auto split: list.splits intro!: mt_sound)
next
  case (2 ic r x c s)
  then show ?case by (fastforce split: list.splits intro!: mt_sound)
qed

text \<open>\<open>pattern.finditer(s)\<close>, for a pattern that never matches the empty string.\<close>

function finditer_from :: "bool \<Rightarrow> rx \<Rightarrow> int option \<Rightarrow> pystr \<Rightarrow> pystr list" where
  "finditer_from ic r x s =
     (case search_from ic r x s of
        None \<Rightarrow> []
      | Some (p, q) \<Rightarrow>
          group0 (p, q) #
          (if length (snd q) < length s then finditer_from ic r (fst q) (snd q) else []))"
  by pat_completeness auto
termination
  by (relation "measure (\<lambda>(ic, r, x, s). length s)") auto

declare finditer_from.simps [simp del]

definition finditer :: "bool \<Rightarrow> rx \<Rightarrow> pystr \<Rightarrow> pystr list" where
  "finditer ic r s = finditer_from ic r None s"

lemma mt_Nil_iff: "mt ic r p = [] \<longleftrightarrow> (\<forall>q. \<not> rm ic r p q)"
proof -
  have "mt ic r p = [] \<longleftrightarrow> set (mt ic r p) = {}" by simp
  then show ?thesis unfolding set_mt by blast
qed

lemma search_from_iff:
  "search_from ic r x s \<noteq> None \<longleftrightarrow> (\<exists>a b. s = a @ b \<and> (\<exists>q. rm ic r (advance a x, b) q))"
proof (induction ic r x s rule: search_from.induct)
  case (1 ic r x)
  have "search_from ic r x [] \<noteq> None \<longleftrightarrow> mt ic r (x, []) \<noteq> []"
    by (auto split: list.splits)
  then show ?case unfolding mt_Nil_iff by auto
next
  case (2 ic r x c s)
  have step: "(\<exists>a b. c # s = a @ b \<and> (\<exists>q. rm ic r (advance a x, b) q)) \<longleftrightarrow>
      (\<exists>q. rm ic r (x, c # s) q) \<or> (\<exists>a b. s = a @ b \<and> (\<exists>q. rm ic r (advance a (Some c), b) q))"
    (is "?l \<longleftrightarrow> ?h \<or> ?t")
  proof
    assume ?l
    then obtain a b q where ab: "c # s = a @ b" and q: "rm ic r (advance a x, b) q" by blast
    show "?h \<or> ?t"
    proof (cases a)
      case Nil
      with ab q have "rm ic r (x, c # s) q" by simp
      then show ?thesis by blast
    next
      case (Cons d a')
      with ab q have "s = a' @ b" "rm ic r (advance a' (Some c), b) q"
        by (auto simp: advance_def split: if_splits)
      then show ?thesis by blast
    qed
  next
    assume "?h \<or> ?t"
    then show ?l
    proof
      assume ?h
      then show ?l by (metis advance_Nil append_Nil)
    next
      assume ?t
      then obtain a b q where "s = a @ b" "rm ic r (advance a (Some c), b) q" by blast
      then have "c # s = (c # a) @ b \<and> rm ic r (advance (c # a) x, b) q"
        by (simp add: advance_def split: if_splits)
      then show ?l by blast
    qed
  qed
  show ?case
  proof (cases "mt ic r (x, c # s)")
    case Nil
    with set_mt [of ic r "(x, c # s)"] have "\<not> (\<exists>q. rm ic r (x, c # s) q)" by auto
    with Nil step 2 show ?thesis by simp
  next
    case (Cons q qs)
    then have "q \<in> set (mt ic r (x, c # s))" by simp
    then have "rm ic r (x, c # s) q" by (rule mt_sound)
    moreover have "search_from ic r x (c # s) \<noteq> None" using Cons by simp
    ultimately show ?thesis using step by blast
  qed
qed

lemma found_iff: "found ic r s \<longleftrightarrow> (\<exists>a b. s = a @ b \<and> (\<exists>q. rm ic r (advance a None, b) q))"
  unfolding found_def re_search_def by (rule search_from_iff)

subsection \<open>Patterns without anchors: padding cannot hide a match\<close>

primrec anchor_free :: "rx \<Rightarrow> bool" where
  "anchor_free Eps = True"
| "anchor_free (Chr a) = True"
| "anchor_free (Cls neg is) = True"
| "anchor_free Bol = False"
| "anchor_free Eol = False"
| "anchor_free WordB = False"
| "anchor_free (Cat a b) = (anchor_free a \<and> anchor_free b)"
| "anchor_free (Alt a b) = (anchor_free a \<and> anchor_free b)"
| "anchor_free (Star a) = anchor_free a"
| "anchor_free (LStar a) = anchor_free a"
| "anchor_free (UpTo n a) = anchor_free a"
| "anchor_free (LUpTo n a) = anchor_free a"

lemma rm_frame:
  "rm ic r p q \<Longrightarrow> anchor_free r \<Longrightarrow>
     \<exists>w. snd p = w @ snd q \<and> (\<forall>x t. rm ic r (x, w @ t) (advance w x, t))"
proof (induction rule: rm.induct)
  case (rm_eps p)
  then show ?case by (auto intro: rm.rm_eps)
next
  case (rm_chr a c x s)
  then show ?case by (intro exI [of _ "[c]"]) (auto simp: advance_def intro: rm.rm_chr)
next
  case (rm_cls "is" c neg x s)
  then show ?case by (intro exI [of _ "[c]"]) (auto simp: advance_def intro: rm.rm_cls)
next
  case (rm_cat a p q b t)
  then obtain v w where "snd p = v @ snd q" "\<forall>x t. rm ic a (x, v @ t) (advance v x, t)"
    "snd q = w @ snd t" "\<forall>x t. rm ic b (x, w @ t) (advance w x, t)" by auto
  then show ?case
    by (intro exI [of _ "v @ w"]) (auto simp: advance_append, metis rm.rm_cat)
next
  case (rm_alt1 a p q b)
  then show ?case by (auto intro: rm.rm_alt1)
next
  case (rm_alt2 b p q a)
  then show ?case by (auto intro: rm.rm_alt2)
next
  case (rm_star a p q t)
  then obtain v w where "snd p = v @ snd q" "\<forall>x t. rm ic a (x, v @ t) (advance v x, t)"
    "snd q = w @ snd t" "\<forall>x t. rm ic (Star a) (x, w @ t) (advance w x, t)" by auto
  then show ?case
    by (intro exI [of _ "v @ w"]) (auto simp: advance_append, metis rm.rm_star)
next
  case (rm_lstar a p q t)
  then obtain v w where "snd p = v @ snd q" "\<forall>x t. rm ic a (x, v @ t) (advance v x, t)"
    "snd q = w @ snd t" "\<forall>x t. rm ic (LStar a) (x, w @ t) (advance w x, t)" by auto
  then show ?case
    by (intro exI [of _ "v @ w"]) (auto simp: advance_append, metis rm.rm_lstar)
next
  case (rm_upto a p q n t)
  then obtain v w where "snd p = v @ snd q" "\<forall>x t. rm ic a (x, v @ t) (advance v x, t)"
    "snd q = w @ snd t" "\<forall>x t. rm ic (UpTo n a) (x, w @ t) (advance w x, t)" by auto
  then show ?case
    by (intro exI [of _ "v @ w"]) (auto simp: advance_append, metis rm.rm_upto)
next
  case (rm_lupto a p q n t)
  then obtain v w where "snd p = v @ snd q" "\<forall>x t. rm ic a (x, v @ t) (advance v x, t)"
    "snd q = w @ snd t" "\<forall>x t. rm ic (LUpTo n a) (x, w @ t) (advance w x, t)" by auto
  then show ?case
    by (intro exI [of _ "v @ w"]) (auto simp: advance_append, metis rm.rm_lupto)
qed (auto intro: rm.rm_star0 rm.rm_lstar0 rm.rm_upto0 rm.rm_lupto0)

theorem found_padding:
  assumes "anchor_free r" "found ic r s"
  shows "found ic r (a @ s @ b)"
proof -
  from assms(2) obtain u v q where s: "s = u @ v" and m: "rm ic r (advance u None, v) q"
    unfolding found_iff by blast
  from rm_frame [OF m assms(1)] obtain w where "v = w @ snd q"
    and "\<forall>x t. rm ic r (x, w @ t) (advance w x, t)" by auto
  with s have "a @ s @ b = (a @ u) @ (w @ snd q @ b)"
    and "rm ic r (advance (a @ u) None, w @ snd q @ b) (advance w (advance (a @ u) None), snd q @ b)"
    by auto
  then show ?thesis unfolding found_iff by blast
qed

lemma rm_word: "rm ic (word w) (x, lit w @ t) (advance (lit w) x, t)"
proof (induction w arbitrary: x)
  case Nil
  then show ?case by (simp add: word_def lit_def rm_eps)
next
  case (Cons c w)
  have "rm ic (Chr (of_char c)) (x, of_char c # lit w @ t) (Some (of_char c), lit w @ t)"
    by (rule rm_chr) (simp add: chr_eq_def)
  moreover have "rm ic (word w) (Some (of_char c), lit w @ t) (advance (lit w) (Some (of_char c)), t)"
    by (rule Cons)
  ultimately have "rm ic (word (c # w)) (x, of_char c # lit w @ t) (advance (lit w) (Some (of_char c)), t)"
    by (simp add: word_def) (rule rm_cat)
  moreover have "advance (lit w) (Some (of_char c)) = advance (lit (c # w)) x"
    by (simp add: advance_def lit_def)
  ultimately show ?case by (simp add: lit_def)
qed

lemma found_word: "contains (lit w) s \<Longrightarrow> found ic (word w) s"
  unfolding contains_iff found_iff by (blast intro: rm_word)

lemma found_Alt: "found ic (Alt a b) s \<longleftrightarrow> found ic a s \<or> found ic b s"
  unfolding found_iff by (blast intro: rm_alt1 rm_alt2)

lemma found_alts: "rs \<noteq> [] \<Longrightarrow> found ic (alts rs) s \<longleftrightarrow> (\<exists>r \<in> set rs. found ic r s)"
  by (induction rs rule: alts.induct) (auto simp: found_Alt)

lemma found_oneof: "w \<in> set ws \<Longrightarrow> contains (lit w) s \<Longrightarrow> found ic (oneof ws) s"
  by (subst oneof_def, subst found_alts) (auto intro: found_word)

subsection \<open>Repetitions consume\<close>

primrec consumes :: "rx \<Rightarrow> bool" where
  "consumes Eps = False"
| "consumes (Chr a) = True"
| "consumes (Cls neg is) = True"
| "consumes Bol = False"
| "consumes Eol = False"
| "consumes WordB = False"
| "consumes (Cat a b) = (consumes a \<or> consumes b)"
| "consumes (Alt a b) = (consumes a \<and> consumes b)"
| "consumes (Star a) = False"
| "consumes (LStar a) = False"
| "consumes (UpTo n a) = False"
| "consumes (LUpTo n a) = False"

primrec loops_consume :: "rx \<Rightarrow> bool" where
  "loops_consume Eps = True"
| "loops_consume (Chr a) = True"
| "loops_consume (Cls neg is) = True"
| "loops_consume Bol = True"
| "loops_consume Eol = True"
| "loops_consume WordB = True"
| "loops_consume (Cat a b) = (loops_consume a \<and> loops_consume b)"
| "loops_consume (Alt a b) = (loops_consume a \<and> loops_consume b)"
| "loops_consume (Star a) = (consumes a \<and> loops_consume a)"
| "loops_consume (LStar a) = (consumes a \<and> loops_consume a)"
| "loops_consume (UpTo n a) = (consumes a \<and> loops_consume a)"
| "loops_consume (LUpTo n a) = (consumes a \<and> loops_consume a)"

lemma consumes_shorter: "rm ic r p q \<Longrightarrow> consumes r \<Longrightarrow> length (snd q) < length (snd p)"
proof (induction rule: rm.induct)
  case (rm_cat a p q b t)
  have "length (snd q) \<le> length (snd p)" "length (snd t) \<le> length (snd q)"
    using rm_consumes [OF rm_cat.hyps(1)] rm_consumes [OF rm_cat.hyps(2)] by auto
  with rm_cat show ?case by auto
qed auto

lemma found_nonempty: "found ic r s \<Longrightarrow> consumes r \<Longrightarrow> s \<noteq> []"
proof
  assume "found ic r s" "consumes r" "s = []"
  then obtain a q where "rm ic r (advance a None, []) q"
    unfolding found_iff by (metis append_is_Nil_conv)
  with consumes_shorter [OF this \<open>consumes r\<close>] show False by simp
qed

subsection \<open>Barriers\<close>

text \<open>
  A character no part of the pattern can consume splits the text: the matches on the left of it
  and on its right are independent.
\<close>

primrec avoids :: "bool \<Rightarrow> int \<Rightarrow> rx \<Rightarrow> bool" where
  "avoids ic d Eps = True"
| "avoids ic d (Chr a) = (\<not> chr_eq ic a d)"
| "avoids ic d (Cls neg is) = (cls_has ic is d = neg)"
| "avoids ic d Bol = False"
| "avoids ic d Eol = False"
| "avoids ic d WordB = False"
| "avoids ic d (Cat a b) = (avoids ic d a \<and> avoids ic d b)"
| "avoids ic d (Alt a b) = (avoids ic d a \<and> avoids ic d b)"
| "avoids ic d (Star a) = avoids ic d a"
| "avoids ic d (LStar a) = avoids ic d a"
| "avoids ic d (UpTo n a) = avoids ic d a"
| "avoids ic d (LUpTo n a) = avoids ic d a"

definition extend :: "pystr \<Rightarrow> pos \<Rightarrow> pos" where
  "extend t p = (fst p, snd p @ t)"

lemma snd_extend [simp]: "snd (extend t p) = snd p @ t" "fst (extend t p) = fst p"
  by (simp_all add: extend_def)

lemma step_if_extend: "\<not> P d \<Longrightarrow> step_if P (extend (d # t) p) = map (extend (d # t)) (step_if P p)"
  by (cases p, cases "snd p") (auto simp: step_if_def extend_def)

lemma filter_extend:
  "filter (\<lambda>q. length (snd q) < Suc (length (snd p) + length t)) (map (extend (d # t)) qs) =
     map (extend (d # t)) (filter (\<lambda>q. length (snd q) < length (snd p)) qs)"
  by (induction qs) auto

lemma mt_barrier:
  "avoids ic d r \<Longrightarrow> mt ic r (extend (d # t) p) = map (extend (d # t)) (mt ic r p)"
proof (induction ic r p rule: mt.induct)
  case (7 ic a b p)
  then have "map (mt ic b) (map (extend (d # t)) (mt ic a p)) =
      map (\<lambda>q. map (extend (d # t)) (mt ic b q)) (mt ic a p)"
    by auto
  moreover have "mt ic a (extend (d # t) p) = map (extend (d # t)) (mt ic a p)"
    using 7 by simp
  ultimately show ?case by (simp only: mt.simps map_concat map_map comp_def)
next
  case (9 ic a p)
  let ?qs = "filter (\<lambda>q. length (snd q) < length (snd p)) (mt ic a p)"
  have "mt ic (Star a) (extend (d # t) p) =
      concat (map (mt ic (Star a)) (map (extend (d # t)) ?qs)) @ [extend (d # t) p]"
    using 9 by (subst mt.simps) (simp add: filter_extend)
  also have "map (mt ic (Star a)) (map (extend (d # t)) ?qs) =
      map (\<lambda>q. map (extend (d # t)) (mt ic (Star a) q)) ?qs"
    using 9 by auto
  finally show ?case by (subst (2) mt.simps) (simp add: map_concat comp_def)
next
  case (10 ic a p)
  let ?qs = "filter (\<lambda>q. length (snd q) < length (snd p)) (mt ic a p)"
  have "mt ic (LStar a) (extend (d # t) p) =
      extend (d # t) p # concat (map (mt ic (LStar a)) (map (extend (d # t)) ?qs))"
    using 10 by (subst mt.simps) (simp add: filter_extend)
  also have "map (mt ic (LStar a)) (map (extend (d # t)) ?qs) =
      map (\<lambda>q. map (extend (d # t)) (mt ic (LStar a) q)) ?qs"
    using 10 by auto
  finally show ?case by (subst (2) mt.simps) (simp add: map_concat comp_def)
next
  case (11 ic n a p)
  then show ?case
    by (cases n) (auto simp: mt.simps(11) map_concat comp_def intro!: arg_cong [where f = concat])
next
  case (12 ic n a p)
  then show ?case
    by (cases n) (auto simp: mt.simps(12) map_concat comp_def intro!: arg_cong [where f = concat])
qed (auto simp: step_if_extend)

lemma mt_consumes_Nil: "consumes r \<Longrightarrow> mt ic r (x, []) = []"
  using consumes_shorter [of ic r "(x, [])"] by (auto simp: mt_Nil_iff)

lemma mt_barrier_here: "consumes r \<Longrightarrow> avoids ic d r \<Longrightarrow> mt ic r (x, d # t) = []"
  using mt_barrier [of ic d r t "(x, [])"] by (simp add: extend_def mt_consumes_Nil)

lemma search_from_barrier:
  assumes "consumes r" "avoids ic d r"
  shows "search_from ic r x (s @ d # t) =
    (case search_from ic r x s of
       Some (p, q) \<Rightarrow> Some (extend (d # t) p, extend (d # t) q)
     | None \<Rightarrow> search_from ic r (Some d) t)"
proof (induction s arbitrary: x)
  case Nil
  then show ?case using assms by (simp add: mt_consumes_Nil mt_barrier_here)
next
  case (Cons c s)
  have "mt ic r (x, c # s @ d # t) = map (extend (d # t)) (mt ic r (x, c # s))"
    using mt_barrier [OF assms(2), of t "(x, c # s)"] by (simp add: extend_def)
  then show ?case
    using Cons by (cases "mt ic r (x, c # s)") (auto simp: extend_def split: option.splits)
qed

lemma group0_extend: "group0 (extend t p, extend t q) = group0 (p, q)" if "length (snd q) \<le> length (snd p)"
  using that by (simp add: group0_def)

lemma finditer_from_barrier:
  assumes "consumes r" "avoids ic d r"
  shows "finditer_from ic r x (s @ d # t) = finditer_from ic r x s @ finditer_from ic r (Some d) t"
proof (induction "length s" arbitrary: x s rule: less_induct)
  case less
  show ?case
  proof (cases "search_from ic r x s")
    case None
    have "finditer_from ic r x (s @ d # t) = finditer_from ic r (Some d) t"
    proof (cases "search_from ic r (Some d) t")
      case None
      then show ?thesis using \<open>search_from ic r x s = None\<close> assms
        by (subst (1 2) finditer_from.simps) (simp add: search_from_barrier)
    next
      case (Some m)
      then have "length (snd (snd m)) < length t"
        using search_from_bounds [of ic r "Some d" t "fst m" "snd m"] consumes_shorter [OF _ assms(1)]
        by (metis order_less_le_trans prod.collapse)
      with Some show ?thesis using \<open>search_from ic r x s = None\<close> assms
        by (cases m, subst (1 2) finditer_from.simps) (auto simp: search_from_barrier)
    qed
    with None show ?thesis by (subst (2) finditer_from.simps) simp
  next
    case (Some m)
    then obtain p q where m: "search_from ic r x s = Some (p, q)" by (cases m) auto
    then have b: "rm ic r p q" "length (snd p) \<le> length s" by (auto dest: search_from_bounds)
    then have l: "length (snd q) < length (snd p)" using assms(1) by (blast dest: consumes_shorter)
    with b have "length (snd q) < length s" by simp
    from less [OF this, of "fst q"] have
      "finditer_from ic r (fst q) (snd q @ d # t) =
        finditer_from ic r (fst q) (snd q) @ finditer_from ic r (Some d) t" .
    then show ?thesis
      using m l b(2) assms
      by (subst (1 2) finditer_from.simps) (simp add: search_from_barrier group0_extend)
  qed
qed

lemma finditer_from_Nil: "consumes r \<Longrightarrow> finditer_from ic r x [] = []"
  by (subst finditer_from.simps) (simp add: mt_consumes_Nil)

lemma finditer_between:
  assumes "consumes r" "a = [] \<or> avoids ic (last a) r" "b = [] \<or> avoids ic (hd b) r"
    "\<And>x. finditer_from ic r x s = [s]"
  shows "s \<in> set (finditer ic r (a @ s @ b))"
proof -
  have s: "s \<in> set (finditer_from ic r x (s @ b))" for x
    using assms by (cases b) (auto simp: finditer_from_barrier)
  show ?thesis
  proof (cases "a = []")
    case True
    with s show ?thesis by (simp add: finditer_def)
  next
    case False
    then have "a @ s @ b = butlast a @ last a # (s @ b)" by simp
    with s False assms(1,2) show ?thesis
      unfolding finditer_def by (metis UnI2 finditer_from_barrier set_append)
  qed
qed

subsection \<open>Patterns that need a character from outside an alphabet\<close>

text \<open>\<open>leaves ic A r\<close>: every match of \<open>r\<close> consumes a character that is not in \<open>A\<close>.\<close>

primrec leaves :: "bool \<Rightarrow> int list \<Rightarrow> rx \<Rightarrow> bool" where
  "leaves ic A Eps = False"
| "leaves ic A (Chr a) = list_all (\<lambda>c. \<not> chr_eq ic a c) A"
| "leaves ic A (Cls neg is) = list_all (\<lambda>c. cls_has ic is c = neg) A"
| "leaves ic A Bol = False"
| "leaves ic A Eol = False"
| "leaves ic A WordB = False"
| "leaves ic A (Cat a b) = (leaves ic A a \<or> leaves ic A b)"
| "leaves ic A (Alt a b) = (leaves ic A a \<and> leaves ic A b)"
| "leaves ic A (Star a) = False"
| "leaves ic A (LStar a) = False"
| "leaves ic A (UpTo n a) = False"
| "leaves ic A (LUpTo n a) = False"

lemma leaves_no_match: "rm ic r p q \<Longrightarrow> leaves ic A r \<Longrightarrow> \<not> set (snd p) \<subseteq> set A"
proof (induction rule: rm.induct)
  case (rm_cat a p q b t)
  obtain w where "snd p = w @ snd q" using rm_consumes [OF rm_cat.hyps(1)] by blast
  with rm_cat show ?case by auto
qed (auto simp: list_all_iff)

lemma leaves_not_found: "leaves ic A r \<Longrightarrow> set s \<subseteq> set A \<Longrightarrow> \<not> found ic r s"
  unfolding found_iff using leaves_no_match by fastforce

end
