(* ===== verification/Tier2.thy ===== *)
theory Tier2
  imports Request Regex
begin

text \<open>
  Tier 2, \<open>agent/security/tier2_injection.py\<close>: the hard-coded SQL-injection and XSS patterns, the
  two checks over a list of inputs (each tried as it is and percent-decoded) and the extraction
  of the inputs from a request.
\<close>

subsection \<open>SQL injection patterns\<close>

abbreviation "quote_items \<equiv> [CR 39 39, CR 34 34]"

definition SQL_LOGIC :: rx where
  "SQL_LOGIC =
     seqs [WordB, oneof [''or'', ''and''], Plus SP, Plus (Cls False (CWord # quote_items)), Star SP,
           Plus (anyof ''=<>!''), Star SP, Plus (Cls False (CWord # quote_items))]"

definition SQL_COMMENTS :: rx where
  "SQL_COMMENTS = oneof [''--'', ''#'', ''/*'', ''*/'']"

definition SQL_STACKED :: rx where
  "SQL_STACKED =
     seqs [word '';'', Star SP, oneof [''select'', ''insert'', ''update'', ''delete'', ''drop'', ''exec'']]"

text \<open>The alternatives of \<open>_SQL_STRUCTURAL\<close>, in the order of the verbose pattern.\<close>

definition SQL_STRUCTURAL_ALTS :: "rx list" where
  "SQL_STRUCTURAL_ALTS =
     [seqs [Chr 39, Star SP, oneof [''or'', ''and''], Star SP, Cls False (CDigit # quote_items)],
      seqs [word ''union'', Plus SP, Opt (seqs [word ''all'', Plus SP]), word ''select''],
      seqs [word '';'', Star SP, oneof [''drop'', ''alter'', ''create'', ''exec'']],
      seqs [word ''--'', Star SP, Eol],
      word ''xp_cmdshell'',
      word ''information_schema.tables'',
      seqs [word ''sleep'', Star SP, word ''('', Star SP, Plus DG, Star SP, word '')''],
      seqs [word ''benchmark'', Star SP, word ''('']]"

definition SQL_STRUCTURAL :: rx where
  "SQL_STRUCTURAL = alts SQL_STRUCTURAL_ALTS"

subsection \<open>XSS patterns\<close>

definition XSS_SCRIPT :: rx where
  "XSS_SCRIPT =
     alts [seqs [word ''<'', Star SP, word ''script'', Star (noneof ''>''), word ''>''],
           seqs [word ''</'', Star SP, word ''script'', Star SP, word ''>'']]"

definition XSS_JAVASCRIPT :: rx where
  "XSS_JAVASCRIPT = seqs [word ''javascript'', Star SP, word '':'']"

definition XSS_EVENTS :: rx where
  "XSS_EVENTS =
     seqs [WordB, word ''on'',
           oneof [''load'', ''error'', ''click'', ''mouseover'', ''mouseout'', ''focus'', ''blur'', ''submit'',
                  ''keydown'', ''keyup'', ''keypress'', ''change'', ''input'', ''resize'', ''scroll'', ''dblclick'',
                  ''contextmenu'', ''drag'', ''drop'', ''copy'', ''paste'', ''cut''],
           Star SP, word ''='']"

definition XSS_DATA_URI :: rx where
  "XSS_DATA_URI =
     seqs [word ''data'', Star SP, word '':'', Star SP,
           oneof [''text/html'', ''application/javascript'', ''text/javascript'']]"

definition XSS_SVG :: rx where
  "XSS_SVG =
     seqs [word ''<'', Star SP, word ''svg'', Star (noneof ''>''), word ''>'', LStar ANY,
           oneof [''onload'', ''onerror'', ''onclick'']]"

definition XSS_ENTITIES :: rx where
  "XSS_ENTITIES =
     alts [word ''&lt;script'', word ''&#60;script'', word ''%3Cscript'', Cat (Chr 92) (word ''u003cscript'')]"

lemmas tier2_patterns =
  SQL_LOGIC_def SQL_COMMENTS_def SQL_STACKED_def SQL_STRUCTURAL_def SQL_STRUCTURAL_ALTS_def
  XSS_SCRIPT_def XSS_JAVASCRIPT_def XSS_EVENTS_def XSS_DATA_URI_def XSS_SVG_def XSS_ENTITIES_def

lemma tier2_loops_consume:
  "list_all loops_consume
     [SQL_LOGIC, SQL_COMMENTS, SQL_STACKED, SQL_STRUCTURAL, XSS_SCRIPT, XSS_JAVASCRIPT, XSS_EVENTS,
      XSS_DATA_URI, XSS_SVG, XSS_ENTITIES]"
  by code_simp

subsection \<open>The checks\<close>

text \<open>
  The result of \<open>check_sqli\<close> and \<open>check_xss\<close>: \<open>None\<close> for \<open>detected: False\<close>, otherwise the
  fingerprint (SQL) or type (XSS) and the detail text.
\<close>

record detection =
  d_tag :: pystr
  d_detail :: pystr

definition py_strip_cut :: "nat \<Rightarrow> pos \<times> pos \<Rightarrow> pystr" where
  "py_strip_cut n m = take n (strip (group0 m))"

definition quoted :: "string \<Rightarrow> pystr \<Rightarrow> pystr" where
  "quoted pre s = lit pre @ [32, 39] @ s @ [39]"

text \<open>The body of the inner loop of \<open>check_sqli\<close>, on one text.\<close>

definition sqli_text :: "pystr \<Rightarrow> detection option" where
  "sqli_text s =
     (case re_search True SQL_STRUCTURAL s of
        Some m \<Rightarrow>
          Some \<lparr>d_tag = strip (group0 m),
                d_detail = quoted ''SQL injection: structural match'' (py_strip_cut 80 m)\<rparr>
      | None \<Rightarrow>
          if found True SQL_LOGIC s \<and> found True SQL_COMMENTS s then
            Some \<lparr>d_tag = lit ''tautology+comment'',
                  d_detail = lit ''SQL injection: logical tautology with comment''\<rparr>
          else
            case re_search True SQL_STACKED s of
              Some m \<Rightarrow>
                Some \<lparr>d_tag = strip (group0 m),
                      d_detail = quoted ''SQL injection: stacked query'' (py_strip_cut 80 m)\<rparr>
            | None \<Rightarrow> None)"

definition xss_text :: "pystr \<Rightarrow> detection option" where
  "xss_text s =
     (if found True XSS_SCRIPT s then
        Some \<lparr>d_tag = lit ''script_tag'', d_detail = lit ''XSS: script tag detected''\<rparr>
      else if found True XSS_JAVASCRIPT s then
        Some \<lparr>d_tag = lit ''javascript_protocol'',
              d_detail = lit ''XSS: javascript: protocol injection''\<rparr>
      else
        case re_search True XSS_EVENTS s of
          Some m \<Rightarrow>
            Some \<lparr>d_tag = lit ''event_handler'',
                  d_detail = quoted ''XSS: DOM event handler'' (py_strip_cut 60 m)\<rparr>
        | None \<Rightarrow>
            if found True XSS_DATA_URI s then
              Some \<lparr>d_tag = lit ''data_uri'', d_detail = lit ''XSS: data: URI injection''\<rparr>
            else if found True XSS_SVG s then
              Some \<lparr>d_tag = lit ''svg_xss'', d_detail = lit ''XSS: SVG-based attack''\<rparr>
            else if found True XSS_ENTITIES s then
              Some \<lparr>d_tag = lit ''encoded_xss'',
                    d_detail = lit ''XSS: HTML/URL encoded script tag''\<rparr>
            else None)"

text \<open>The texts the loops try: each non-empty input as it is, then percent-decoded.\<close>

fun variants :: "pystr list \<Rightarrow> pystr list" where
  "variants [] = []"
| "variants (raw # rest) =
     (if raw = [] then variants rest else raw # unquote_plus raw # variants rest)"

definition check_sqli :: "pystr list \<Rightarrow> detection option" where
  "check_sqli inputs = first_some sqli_text (variants inputs)"

definition check_xss :: "pystr list \<Rightarrow> detection option" where
  "check_xss inputs = first_some xss_text (variants inputs)"

subsection \<open>Extracting the inputs\<close>

text \<open>The values of the \<open>key=value\<close> parts of a query or form string.\<close>

definition param_values :: "pystr \<Rightarrow> pystr list" where
  "param_values q = map (after_first 61) (filter (\<lambda>part. 61 \<in> set part) (split_on 38 q))"

definition input_headers :: "pystr list" where
  "input_headers =
     [lit ''user-agent'', lit ''referer'', lit ''x-forwarded-for'', lit ''cookie'', lit ''host'']"

definition extract_inputs :: "request \<Rightarrow> pystr list" where
  "extract_inputs r =
     (if uri_of r \<noteq> [] then [uri_of r] else []) @
     (if query_of r \<noteq> [] then query_of r # param_values (query_of r) else []) @
     filter (\<lambda>v. v \<noteq> []) (map (header_of r) input_headers) @
     (case rq_body r of
        None \<Rightarrow> []
      | Some (BStr []) \<Rightarrow> []
      | Some (BBytes []) \<Rightarrow> []
      | Some b \<Rightarrow>
          body_text r #
          (if contains (lit ''x-www-form-urlencoded'') (ctype_of r) then param_values (body_text r)
           else []))"

subsection \<open>Properties\<close>

lemma variants_iff:
  "t \<in> set (variants ins) \<longleftrightarrow> (\<exists>raw \<in> set ins. raw \<noteq> [] \<and> (t = raw \<or> t = unquote_plus raw))"
  by (induction ins) auto

lemma sqli_text_iff:
  "sqli_text s \<noteq> None \<longleftrightarrow>
     found True SQL_STRUCTURAL s \<or> found True SQL_LOGIC s \<and> found True SQL_COMMENTS s \<or>
     found True SQL_STACKED s"
  by (auto simp: sqli_text_def found_def split: option.splits)

lemma xss_text_iff:
  "xss_text s \<noteq> None \<longleftrightarrow>
     (\<exists>r \<in> set [XSS_SCRIPT, XSS_JAVASCRIPT, XSS_EVENTS, XSS_DATA_URI, XSS_SVG, XSS_ENTITIES].
        found True r s)"
  by (auto simp: xss_text_def found_def split: option.splits)

lemma variants_all:
  "(\<forall>t \<in> set (variants ins). P t) \<longleftrightarrow>
     (\<forall>raw \<in> set ins. raw \<noteq> [] \<longrightarrow> P raw \<and> P (unquote_plus raw))"
  by (induction ins) auto

lemma first_some_variants:
  "first_some f (variants ins) \<noteq> None \<longleftrightarrow>
     (\<exists>raw \<in> set ins. raw \<noteq> [] \<and> (f raw \<noteq> None \<or> f (unquote_plus raw) \<noteq> None))"
  unfolding first_some_None_iff variants_all by auto

lemma check_sqli_iff:
  "check_sqli ins \<noteq> None \<longleftrightarrow>
     (\<exists>raw \<in> set ins. raw \<noteq> [] \<and> (sqli_text raw \<noteq> None \<or> sqli_text (unquote_plus raw) \<noteq> None))"
  unfolding check_sqli_def by (rule first_some_variants)

lemma check_xss_iff:
  "check_xss ins \<noteq> None \<longleftrightarrow>
     (\<exists>raw \<in> set ins. raw \<noteq> [] \<and> (xss_text raw \<noteq> None \<or> xss_text (unquote_plus raw) \<noteq> None))"
  unfolding check_xss_def by (rule first_some_variants)

lemma after_first_param: "61 \<notin> set k \<Longrightarrow> after_first 61 (k @ 61 # v) = v"
proof -
  assume "61 \<notin> set k"
  then have "dropWhile (\<lambda>c. c \<noteq> 61) (k @ 61 # v) = 61 # v" by (induction k) auto
  then show ?thesis by (simp add: after_first_def)
qed

text \<open>Every parameter value of a query is among the values the extraction returns.\<close>

lemma param_values_covers:
  assumes "38 \<notin> set k" "61 \<notin> set k" "38 \<notin> set v" "x = [] \<or> last x = 38" "y = [] \<or> hd y = 38"
  shows "v \<in> set (param_values (x @ k @ [61] @ v @ y))"
proof -
  have "k @ 61 # v \<in> set (split_on 38 (x @ (k @ 61 # v) @ y))"
    using assms by (intro split_on_segment) auto
  moreover have "after_first 61 (k @ 61 # v) = v"
    using assms(2) by (rule after_first_param)
  ultimately show ?thesis
    unfolding param_values_def by (force simp: image_iff)
qed

lemma extract_inputs_query_value:
  "query_of r = q \<Longrightarrow> q \<noteq> [] \<Longrightarrow> v \<in> set (param_values q) \<Longrightarrow> v \<in> set (extract_inputs r)"
  by (simp add: extract_inputs_def)

lemma extract_inputs_body_value:
  assumes "rq_body r = Some (BStr s)" "s \<noteq> []"
    "contains (lit ''x-www-form-urlencoded'') (ctype_of r)" "v \<in> set (param_values s)"
  shows "v \<in> set (extract_inputs r)"
  using assms by (cases s) (auto simp: extract_inputs_def body_text_def)

text \<open>The structural alternatives that no padding can hide: all but the trailing comment.\<close>

definition padding_proof :: "rx list" where
  "padding_proof = filter anchor_free SQL_STRUCTURAL_ALTS"

lemma padding_proof_facts:
  "list_all (\<lambda>r. anchor_free r \<and> consumes r) padding_proof"
  "length padding_proof = 7" "length SQL_STRUCTURAL_ALTS = 8"
  by code_simp+

lemma structural_alt: "r \<in> set padding_proof \<Longrightarrow> found True r s \<Longrightarrow> found True SQL_STRUCTURAL s"
  using padding_proof_facts(3) unfolding SQL_STRUCTURAL_def padding_proof_def
  by (subst found_alts) auto

lemma sqli_text_padding:
  assumes "r \<in> set padding_proof" "found True r s"
  shows "sqli_text (a @ s @ b) \<noteq> None"
proof -
  have "anchor_free r" using assms(1) padding_proof_facts(1) by (auto simp: list_all_iff)
  then have "found True r (a @ s @ b)" using assms(2) by (rule found_padding)
  with assms(1) show ?thesis unfolding sqli_text_iff by (blast intro: structural_alt)
qed

text \<open>
  Tier 2 flags a list of inputs as SQL injection exactly when some non-empty input, as it is
  or percent-decoded once, contains a structural match, a logical tautology together with a
  comment, or a stacked query; no input, and neither of its two forms, is left out.
\<close>

theorem tier2_sqli_complete:
  "check_sqli ins \<noteq> None \<longleftrightarrow>
     (\<exists>raw \<in> set ins. raw \<noteq> [] \<and> (\<exists>s \<in> {raw, unquote_plus raw}.
        found True SQL_STRUCTURAL s \<or> found True SQL_LOGIC s \<and> found True SQL_COMMENTS s \<or>
        found True SQL_STACKED s))"
  unfolding check_sqli_iff sqli_text_iff by blast

text \<open>
  Tier 2 flags a list of inputs as XSS exactly when some non-empty input, as it is or
  percent-decoded once, matches one of the six XSS patterns.
\<close>

theorem tier2_xss_complete:
  "check_xss ins \<noteq> None \<longleftrightarrow>
     (\<exists>raw \<in> set ins. raw \<noteq> [] \<and> (\<exists>s \<in> {raw, unquote_plus raw}.
        \<exists>r \<in> {XSS_SCRIPT, XSS_JAVASCRIPT, XSS_EVENTS, XSS_DATA_URI, XSS_SVG, XSS_ENTITIES}.
          found True r s))"
  unfolding check_xss_iff xss_text_iff by auto

text \<open>
  An injection in a query parameter cannot be hidden by what surrounds it, whatever the other
  parameters are.
\<close>

lemma parameter_injection_detected:
  assumes "rq_query r = Some (x @ k @ [61] @ v @ y)"
    and "x = [] \<or> last x = 38" "y = [] \<or> hd y = 38"
    and "38 \<notin> set k" "61 \<notin> set k" "38 \<notin> set v"
    and "unquote_plus v = a @ s @ b" "p \<in> set padding_proof" "found True p s"
  shows "check_sqli (extract_inputs r) \<noteq> None"
proof -
  have "s \<noteq> []"
    using assms(8,9) padding_proof_facts(1) by (auto simp: list_all_iff dest: found_nonempty)
  then have "unquote_plus v \<noteq> []" using assms(7) by simp
  then have "v \<noteq> []" by (auto simp: unquote_plus_def unquote_def)
  moreover have "v \<in> set (extract_inputs r)"
    using assms(1-6) param_values_covers [of k v x y]
    by (intro extract_inputs_query_value [OF refl]) auto
  moreover have "sqli_text (unquote_plus v) \<noteq> None"
    unfolding assms(7) using assms(8,9) by (rule sqli_text_padding)
  ultimately show ?thesis unfolding check_sqli_iff by blast
qed

end
