(* ===== verification/Floats.thy ===== *)
theory Floats
  imports Prelude
begin

text \<open>
  The IEEE double arithmetic of the scoring code, exactly. A non-negative double is an \<open>int\<close>,
  its value times 2^120: every double that is zero or at least 2^-67 is such a multiple, which
  covers the constants of the code and all quotients of two lengths. Results are rounded to 53
  significant bits, half to even. Values stay far below the largest double.
\<close>

type_synonym dbl = int

text \<open>How many bits of \<open>n\<close> lie beyond the 53 of a significand.\<close>

function extra_bits :: "int \<Rightarrow> nat" where
  "extra_bits n = (if n < 9007199254740992 then 0 else Suc (extra_bits (n div 2)))"
  by pat_completeness auto
termination
  by (relation "measure nat") auto

declare extra_bits.simps [simp del]

text \<open>\<open>n / d\<close> to the nearest integer, half to even.\<close>

definition div_even :: "int \<Rightarrow> int \<Rightarrow> int" where
  "div_even n d =
     (let q = n div d; r = 2 * (n mod d)
      in if r > d \<or> r = d \<and> odd q then q + 1 else q)"

definition fl_quot :: "int \<Rightarrow> int \<Rightarrow> dbl" where
  "fl_quot a b =
     (let k = 2 ^ extra_bits (a * 2 ^ 120 div b)
      in div_even (a * 2 ^ 120) (b * k) * k)"

text \<open>The sum of two doubles.\<close>

definition fl_add :: "dbl \<Rightarrow> dbl \<Rightarrow> dbl" where
  "fl_add x y = (let k = 2 ^ extra_bits (x + y) in div_even (x + y) k * k)"

text \<open>
  \<open>round(x, 4)\<close>: the nearest multiple of 1/10000 (\<open>round4\<close>, as a count of ten-thousandths) and
  the double nearest to it.
\<close>

definition round4 :: "dbl \<Rightarrow> int" where
  "round4 x = div_even (x * 10000) (2 ^ 120)"

definition fl_round4 :: "dbl \<Rightarrow> dbl" where
  "fl_round4 x = fl_quot (round4 x) 10000"

definition fl_one :: dbl where
  "fl_one = 2 ^ 120"

lemma div_times_le: "0 < d \<Longrightarrow> n div d * d \<le> (n::int)"
  using div_mult_mod_eq [of n d] pos_mod_sign [of d n] by linarith

lemma div_even_ge_int:
  assumes "0 < d" "q * d \<le> n"
  shows "q \<le> div_even n d"
proof -
  have "q * d div d \<le> n div d" using assms by (intro zdiv_mono1)
  then have "q \<le> n div d" using assms(1) by simp
  then show ?thesis by (simp add: div_even_def Let_def)
qed

lemma div_even_le_int:
  assumes "0 < d" "n \<le> q * d"
  shows "div_even n d \<le> q"
proof (cases "n = q * d")
  case True
  with assms(1) show ?thesis by (simp add: div_even_def)
next
  case False
  with assms(2) have "n < q * d" by simp
  with div_times_le [OF assms(1), of n] have "n div d * d < q * d" by linarith
  with assms(1) have "n div d < q" by simp
  then show ?thesis by (simp add: div_even_def Let_def)
qed

lemma div_even_mono:
  assumes "0 < d" "n \<le> m"
  shows "div_even n d \<le> div_even m d"
proof (cases "n div d = m div d")
  case True
  have "m div d * d + n mod d = n" using True by (metis div_mult_mod_eq)
  moreover have "m div d * d + m mod d = m" by simp
  ultimately have "n mod d \<le> m mod d" using assms(2) by linarith
  with True show ?thesis by (auto simp: div_even_def Let_def)
next
  case False
  moreover have "n div d \<le> m div d" using assms by (intro zdiv_mono1)
  ultimately have "n div d < m div d" by simp
  then show ?thesis by (simp add: div_even_def Let_def)
qed

lemma fl_add_nonneg: "0 \<le> x \<Longrightarrow> 0 \<le> y \<Longrightarrow> 0 \<le> fl_add x y"
  unfolding fl_add_def Let_def by (intro mult_nonneg_nonneg div_even_ge_int) auto

lemma extra_bits_0: "n < 9007199254740992 \<Longrightarrow> extra_bits n = 0"
  by (simp add: extra_bits.simps)

lemma div_even_1 [simp]: "div_even n 1 = n"
  by (simp add: div_even_def)

lemma extra_bits_upper: "n < 2 ^ (53 + extra_bits n)"
proof (induction n rule: extra_bits.induct)
  case (1 n)
  show ?case
  proof (cases "n < 9007199254740992")
    case True
    then show ?thesis by (simp add: extra_bits_0)
  next
    case False
    with 1 have "n div 2 < 2 ^ (53 + extra_bits (n div 2))" by simp
    then have "n < 2 * 2 ^ (53 + extra_bits (n div 2))" by linarith
    moreover have "extra_bits n = Suc (extra_bits (n div 2))"
      using False by (subst extra_bits.simps) simp
    ultimately show ?thesis by (simp add: power_add)
  qed
qed

lemma extra_bits_lower: "0 < extra_bits n \<Longrightarrow> 2 ^ (52 + extra_bits n) \<le> n"
proof (induction n rule: extra_bits.induct)
  case (1 n)
  then have big: "\<not> n < 9007199254740992" by (auto simp: extra_bits_0)
  then have e: "extra_bits n = Suc (extra_bits (n div 2))" by (subst extra_bits.simps) simp
  show ?case
  proof (cases "0 < extra_bits (n div 2)")
    case True
    with 1(1) big have "2 ^ (52 + extra_bits (n div 2)) \<le> n div 2" by simp
    then have "2 * 2 ^ (52 + extra_bits (n div 2)) \<le> n" by linarith
    with e show ?thesis by (simp add: power_add)
  next
    case False
    with e big show ?thesis by simp
  qed
qed

text \<open>Rounding to 53 bits, and its monotonicity.\<close>

definition fl_int :: "int \<Rightarrow> int" where
  "fl_int n = (let k = 2 ^ extra_bits n in div_even n k * k)"

lemma fl_add_fl_int: "fl_add x y = fl_int (x + y)"
  by (simp add: fl_add_def fl_int_def)

lemma fl_int_small: "n < 9007199254740992 \<Longrightarrow> fl_int n = n"
  by (simp add: fl_int_def extra_bits_0)

lemma fl_int_mono:
  assumes "n \<le> m"
  shows "fl_int n \<le> fl_int m"
proof -
  let ?a = "extra_bits n" and ?b = "extra_bits m"
  consider "?a = ?b" | "?a < ?b" | "?b < ?a" by linarith
  then show ?thesis
  proof cases
    case 1
    then show ?thesis unfolding fl_int_def Let_def
      using assms by (auto intro!: mult_right_mono div_even_mono)
  next
    case 2
    have "n \<le> 2 ^ 53 * 2 ^ ?a" using extra_bits_upper [of n] by (simp add: power_add)
    then have "div_even n (2 ^ ?a) \<le> 2 ^ 53" by (intro div_even_le_int) auto
    then have n: "fl_int n \<le> 2 ^ 53 * 2 ^ ?a"
      unfolding fl_int_def Let_def by (intro mult_right_mono) auto
    have "2 ^ 52 * 2 ^ ?b \<le> m" using extra_bits_lower [of m] 2 by (simp add: power_add)
    then have "2 ^ 52 \<le> div_even m (2 ^ ?b)" by (intro div_even_ge_int) auto
    then have m: "2 ^ 52 * 2 ^ ?b \<le> fl_int m"
      unfolding fl_int_def Let_def by (intro mult_right_mono) auto
    have "(2::int) ^ (53 + ?a) \<le> 2 ^ (52 + ?b)" using 2 by (intro power_increasing) auto
    with n m show ?thesis unfolding power_add by linarith
  next
    case 3
    then have "2 ^ (52 + ?a) \<le> n" using extra_bits_lower [of n] by simp
    moreover have "m < 2 ^ (53 + ?b)" by (rule extra_bits_upper)
    moreover have "(2::int) ^ (53 + ?b) \<le> 2 ^ (52 + ?a)" using 3 by (intro power_increasing) auto
    ultimately show ?thesis using assms by linarith
  qed
qed

lemma fl_add_mono: "x \<le> x' \<Longrightarrow> y \<le> y' \<Longrightarrow> fl_add x y \<le> fl_add x' y'"
  unfolding fl_add_fl_int by (intro fl_int_mono) simp

text \<open>Rounding is idempotent, so adding a positive amount never goes below a double.\<close>

definition is_double :: "int \<Rightarrow> bool" where
  "is_double x \<longleftrightarrow> fl_int x = x"

lemma fl_add_increases: "is_double x \<Longrightarrow> 0 \<le> y \<Longrightarrow> x \<le> fl_add x y"
  unfolding fl_add_fl_int is_double_def using fl_int_mono [of x "x + y"] by simp

lemma fl_int_dvd: "is_double x \<longleftrightarrow> 2 ^ extra_bits x dvd x"
proof
  assume "is_double x"
  then show "2 ^ extra_bits x dvd x"
    unfolding is_double_def fl_int_def Let_def by (metis dvd_triv_right)
next
  assume "2 ^ extra_bits x dvd x"
  then have "x mod 2 ^ extra_bits x = 0" by simp
  then have "div_even x (2 ^ extra_bits x) * 2 ^ extra_bits x = x"
    by (auto simp: div_even_def Let_def)
  then show "is_double x" by (simp add: is_double_def fl_int_def Let_def)
qed

lemma is_double_multiple:
  assumes "0 \<le> q" "q \<le> 2 ^ 53"
  shows "is_double (q * 2 ^ k)"
proof (cases "q = 2 ^ 53")
  case True
  have "extra_bits (2 ^ (53 + k)) \<le> Suc k"
  proof (rule ccontr)
    assume "\<not> extra_bits (2 ^ (53 + k)) \<le> Suc k"
    then have "(2::int) ^ (52 + extra_bits (2 ^ (53 + k))) \<le> 2 ^ (53 + k)"
      by (intro extra_bits_lower) simp
    moreover have "(2::int) ^ (53 + k) < 2 ^ (52 + extra_bits (2 ^ (53 + k)))"
      using \<open>\<not> extra_bits (2 ^ (53 + k)) \<le> Suc k\<close> by (intro power_strict_increasing) auto
    ultimately show False by simp
  qed
  then have "(2::int) ^ extra_bits (2 ^ (53 + k)) dvd 2 ^ (53 + k)"
    by (intro le_imp_power_dvd) simp
  with True show ?thesis by (simp add: fl_int_dvd power_add)
next
  case False
  with assms have "q < 2 ^ 53" by simp
  then have lt: "q * 2 ^ k < 2 ^ (53 + k)" by (simp add: power_add)
  have "extra_bits (q * 2 ^ k) \<le> k"
  proof (rule ccontr)
    assume a: "\<not> extra_bits (q * 2 ^ k) \<le> k"
    then have "(2::int) ^ (52 + extra_bits (q * 2 ^ k)) \<le> q * 2 ^ k"
      by (intro extra_bits_lower) simp
    moreover have "(2::int) ^ (53 + k) \<le> 2 ^ (52 + extra_bits (q * 2 ^ k))"
      using a by (intro power_increasing) auto
    ultimately show False using lt by simp
  qed
  then have "(2::int) ^ extra_bits (q * 2 ^ k) dvd q * 2 ^ k"
    by (meson dvd_mult le_imp_power_dvd)
  then show ?thesis by (simp add: fl_int_dvd)
qed

lemma fl_int_is_double:
  assumes "0 \<le> n"
  shows "is_double (fl_int n)"
proof -
  let ?k = "extra_bits n"
  have "0 \<le> div_even n (2 ^ ?k)" using assms by (intro div_even_ge_int) auto
  moreover have "div_even n (2 ^ ?k) \<le> 2 ^ 53"
    using extra_bits_upper [of n] by (intro div_even_le_int) (auto simp: power_add)
  ultimately show ?thesis unfolding fl_int_def Let_def by (rule is_double_multiple)
qed

lemma fl_add_is_double: "0 \<le> x \<Longrightarrow> 0 \<le> y \<Longrightarrow> is_double (fl_add x y)"
  unfolding fl_add_fl_int by (intro fl_int_is_double) simp

lemma is_double_0: "is_double 0"
  by (simp add: is_double_def fl_int_small)

end
