(* ===== verification/Entropy.thy ===== *)
theory Entropy
  imports Prelude
begin

text \<open>
  Shannon entropy, used by \<open>tier3_ml.py\<close> (on text, rounded) and \<open>content/entropy.py\<close> (on bytes).
  \<open>math.log2\<close> is the real logarithm: the sums are real numbers, not doubles.
\<close>

definition entropy_term :: "nat \<Rightarrow> nat \<Rightarrow> real" where
  "entropy_term n c = (real c / real n) * log 2 (real c / real n)"

text \<open>The frequencies in order of first occurrence, as \<open>Counter\<close> yields them.\<close>

fun nub :: "int list \<Rightarrow> int list" where
  "nub [] = []"
| "nub (x # xs) = x # filter (\<lambda>y. y \<noteq> x) (nub xs)"

definition raw_entropy :: "int list \<Rightarrow> real" where
  "raw_entropy s = - (\<Sum>c \<leftarrow> nub s. entropy_term (length s) (count_list s c))"

definition round4_real :: "real \<Rightarrow> real" where
  "round4_real x = real_of_int (round (x * 10000)) / 10000"

lemma set_nub [simp]: "set (nub s) = set s"
  by (induction s) auto

lemma distinct_nub: "distinct (nub s)"
  by (induction s) auto

lemma sum_nub: "(\<Sum>c \<leftarrow> nub s. f c) = (\<Sum>c \<in> set s. f c)"
  using sum.distinct_set_conv_list [OF distinct_nub, of f s] by simp

lemma entropy_term_nonpos: "c \<le> n \<Longrightarrow> entropy_term n c \<le> 0"
proof -
  assume "c \<le> n"
  show ?thesis
  proof (cases "c = 0")
    case True
    then show ?thesis by (simp add: entropy_term_def)
  next
    case False
    with \<open>c \<le> n\<close> have "0 < real c / real n" "real c / real n \<le> 1" by simp_all
    then have "log 2 (real c / real n) \<le> 0" by (subst log_le_zero_cancel_iff) auto
    then show ?thesis unfolding entropy_term_def by (intro mult_nonneg_nonpos) auto
  qed
qed

lemma raw_entropy_nonneg: "0 \<le> raw_entropy s"
proof -
  have "(\<Sum>c \<leftarrow> nub s. entropy_term (length s) (count_list s c)) \<le> 0"
    by (intro sum_list_nonpos) (auto intro: entropy_term_nonpos count_le_length)
  then show ?thesis by (simp add: raw_entropy_def)
qed

subsection \<open>The upper bound\<close>

lemma gibbs_term:
  assumes "0 < c" "0 < n" "0 < (k::real)"
  shows "- entropy_term n c \<le> (real c / real n) * log 2 k + (1 / k - real c / real n) / ln 2"
proof -
  define p where "p = real c / real n"
  have p: "0 < p" using assms by (simp add: p_def)
  have "ln (1 / (k * p)) \<le> 1 / (k * p) - 1"
    using p assms(3) by (intro ln_le_minus_one) simp
  moreover have "ln (1 / (k * p)) = - ln k - ln p"
    using p assms(3) by (simp add: ln_div ln_mult)
  ultimately have "- ln p \<le> ln k + 1 / (k * p) - 1" by linarith
  then have "p * (- ln p) \<le> p * (ln k + 1 / (k * p) - 1)"
    using p by (intro mult_left_mono) auto
  also have "p * (ln k + 1 / (k * p) - 1) = p * ln k + (1 / k - p)"
    using p assms(3) by (simp add: field_simps)
  finally have "p * (- ln p) / ln 2 \<le> (p * ln k + (1 / k - p)) / ln 2"
    by (intro divide_right_mono) auto
  then show ?thesis
    by (simp add: entropy_term_def p_def [symmetric] log_def add_divide_distrib)
qed

lemma sum_count: "(\<Sum>c \<in> set s. count_list s c) = length s"
  using sum_count_set [of s "set s"] by simp

text \<open>Gibbs' inequality: the entropy is at most the logarithm of the alphabet's size.\<close>

lemma raw_entropy_le:
  assumes "s \<noteq> []" "finite A" "set s \<subseteq> A"
  shows "raw_entropy s \<le> log 2 (real (card A))"
proof -
  define n k where "n = length s" and "k = real (card A)"
  have n: "0 < n" using assms(1) by (simp add: n_def)
  have "A \<noteq> {}" using assms(1,3) by auto
  then have k: "0 < k" using assms(2) by (simp add: k_def card_gt_0_iff)
  have cnt: "(\<Sum>c \<in> set s. real (count_list s c)) = real n"
    using sum_count [of s] unfolding n_def by (metis of_nat_sum)
  have "raw_entropy s = (\<Sum>c \<in> set s. - entropy_term n (count_list s c))"
    by (simp add: raw_entropy_def sum_nub n_def sum_negf)
  also have "\<dots> \<le> (\<Sum>c \<in> set s. (real (count_list s c) / real n) * log 2 k +
      (1 / k - real (count_list s c) / real n) / ln 2)"
  proof (rule sum_mono)
    fix c assume "c \<in> set s"
    then have "0 < count_list s c" using count_list_0_iff [of s c] by auto
    then show "- entropy_term n (count_list s c) \<le> (real (count_list s c) / real n) * log 2 k +
        (1 / k - real (count_list s c) / real n) / ln 2"
      using n k by (rule gibbs_term)
  qed
  also have "\<dots> = log 2 k + (real (card (set s)) / k - 1) / ln 2"
    using n by (simp add: sum.distrib sum_distrib_right [symmetric] sum_divide_distrib [symmetric]
        sum_subtractf cnt)
  also have "\<dots> \<le> log 2 k"
  proof -
    have "real (card (set s)) \<le> k"
      unfolding k_def using card_mono [OF assms(2,3)] by simp
    then have "real (card (set s)) / k - 1 \<le> 0" using k by simp
    then have "(real (card (set s)) / k - 1) / ln 2 \<le> 0" by (simp add: divide_nonpos_pos)
    then show ?thesis by simp
  qed
  finally show ?thesis by (simp add: k_def)
qed

end
