(* ===== verification/Tier3.thy ===== *)
theory Tier3
  imports Request Regex Floats Entropy
begin

text \<open>
  Tier 3, \<open>agent/security/tier3_ml.py\<close>: the features of a request and the weighted anomaly score.
  Scores and the special-character ratio are doubles, computed exactly (\<open>Floats\<close>). The Shannon
  entropies use \<open>math.log2\<close>; they are real numbers here, rounded to four places as the code does,
  so the last bits of the library's logarithm are not modelled. Every threshold they meet has
  one decimal.
\<close>

subsection \<open>Features\<close>

text \<open>\<open>_shannon_entropy\<close>.\<close>

definition shannon_entropy :: "pystr \<Rightarrow> real" where
  "shannon_entropy s = (if s = [] then 0 else round4_real (raw_entropy s))"

definition special_chars :: "int list" where
  "special_chars = lit ''!@#$%^&*(){}[]|'' @ [92] @ lit ''<>/?;:'' @ [39, 34]"

definition special_char_ratio :: "pystr \<Rightarrow> dbl" where
  "special_char_ratio s =
     (if s = [] then 0
      else fl_round4 (fl_quot (int (length (filter (\<lambda>c. c \<in> set special_chars) s))) (int (length s))))"

definition encode_method :: "pystr \<Rightarrow> nat" where
  "encode_method m =
     dict_get [(lit ''GET'', 0), (lit ''POST'', 1), (lit ''PUT'', 2), (lit ''DELETE'', 3),
               (lit ''PATCH'', 4), (lit ''HEAD'', 5), (lit ''OPTIONS'', 6)] m 7"

definition UNICODE_ESCAPE :: rx where
  "UNICODE_ESCAPE =
     seqs [Chr 92, word ''u'', Rep 4 (Cls False [rng CHR ''0'' CHR ''9'', rng CHR ''a'' CHR ''f'', rng CHR ''A'' CHR ''F''])]"

definition BASE64_RUN :: rx where
  "BASE64_RUN =
     Cat (AtLeast 40 (Cls False
            ([rng CHR ''A'' CHR ''Z'', rng CHR ''a'' CHR ''z'', rng CHR ''0'' CHR ''9''] @ chars ''+/'')))
         (UpTo 2 (word ''=''))"

definition SCANNER_UA :: rx where
  "SCANNER_UA =
     alts (map word
       [''nmap'', ''nikto'', ''sqlmap'', ''masscan'', ''zgrab'', ''gobuster'', ''dirbuster'', ''wfuzz'',
        ''burpsuite'', ''owasp'', ''acunetix'', ''nessus'', ''openvas'', ''w3af'', ''skipfish'', ''havij'',
        ''hydra'', ''medusa'', ''metasploit''] @
       [Cat (word ''curl/'') (Plus (Cls False [rng CHR ''0'' CHR ''9'']))] @
       map word
       [''python-requests'', ''go-http-client'', ''libwww'', ''wget'', ''scrapy'', ''mechanize'', ''phantomjs'',
        ''headlesschrome''])"

definition SUSPICIOUS_UA :: rx where
  "SUSPICIOUS_UA =
     alts [word ''../'', word ''<script'', seqs [word ''select'', Plus SP, word ''from''],
           seqs [word ''union'', Plus SP, word ''select''], word ''eval('', word ''base64_decode'']"

definition proxy_headers :: "pystr list" where
  "proxy_headers =
     [lit ''via'', lit ''forwarded'', lit ''x-real-ip'', lit ''x-originating-ip'', lit ''x-cluster-client-ip'']"

definition usual_methods :: "pystr list" where
  "usual_methods =
     [lit ''GET'', lit ''POST'', lit ''PUT'', lit ''DELETE'', lit ''PATCH'', lit ''HEAD'', lit ''OPTIONS'']"

record features =
  f_method_encoded :: nat
  f_uri_length :: nat
  f_query_length :: nat
  f_header_count :: nat
  f_body_length :: nat
  f_uri_entropy :: real
  f_query_entropy :: real
  f_body_entropy :: real
  f_special_char_ratio :: dbl
  f_encoded_char_count :: nat
  f_double_encoded :: bool
  f_null_bytes :: bool
  f_unicode_escape :: bool
  f_has_base64_body :: bool
  f_has_json_body :: bool
  f_param_count :: nat
  f_excessive_params :: bool
  f_ua_length :: nat
  f_ua_has_scanner :: bool
  f_ua_empty :: bool
  f_ua_suspicious :: bool
  f_unusual_method :: bool
  f_has_x_forwarded :: bool
  f_has_proxy_headers :: bool

definition extract_features :: "request \<Rightarrow> features" where
  "extract_features r =
     (let uri = uri_of r; query = query_of r; headers = headers_of r; body_str = body_text r;
          meth = py_upper (get_or (lit ''GET'') (rq_method r));
          ua = header_of r (lit ''user-agent'');
          full = uri @ [32] @ query @ [32] @ body_str
      in \<lparr>f_method_encoded = encode_method meth,
          f_uri_length = length uri,
          f_query_length = length query,
          f_header_count = length headers,
          f_body_length = length body_str,
          f_uri_entropy = shannon_entropy uri,
          f_query_entropy = shannon_entropy query,
          f_body_entropy = shannon_entropy body_str,
          f_special_char_ratio = special_char_ratio full,
          f_encoded_char_count = count_list full 37,
          f_double_encoded = contains (lit ''%25'') full,
          f_null_bytes = (0 \<in> set full \<or> contains (lit ''%00'') full),
          f_unicode_escape = found False UNICODE_ESCAPE full,
          f_has_base64_body = found False BASE64_RUN body_str,
          f_has_json_body = contains (lit ''application/json'') (ctype_of r),
          f_param_count = count_list full 61,
          f_excessive_params = (count_list full 61 > 20),
          f_ua_length = length ua,
          f_ua_has_scanner = found True SCANNER_UA ua,
          f_ua_empty = (ua = []),
          f_ua_suspicious = found True SUSPICIOUS_UA ua,
          f_unusual_method = (meth \<notin> set usual_methods),
          f_has_x_forwarded = (lit ''x-forwarded-for'' \<in> fst ` set headers),
          f_has_proxy_headers = list_ex (\<lambda>h. h \<in> fst ` set headers) proxy_headers\<rparr>)"

subsection \<open>The score\<close>

text \<open>The reasons of \<open>_compute_score\<close>, one constructor per message, with the values it prints.\<close>

datatype ml_reason =
    NullBytes | DoubleEncoding | ExcessiveEncoding nat | LongUri nat | HighQueryEntropy real
  | HighBodyEntropy real | ScannerUA | SuspiciousUA | EmptyUA | UnusualMethod | Base64Body
  | ExcessiveParams nat | HighSpecialRatio dbl | ProxyHeaders | UnicodeEscapes

type_synonym acc = "dbl \<times> ml_reason list"

text \<open>\<open>if cond: total += w; reasons.append(msg)\<close>, where \<open>cond\<close> may read the running total.\<close>

definition add_if :: "(dbl \<Rightarrow> bool) \<Rightarrow> dbl \<Rightarrow> ml_reason list \<Rightarrow> acc \<Rightarrow> acc" where
  "add_if cond w msg a = (if cond (fst a) then (fl_add (fst a) w, snd a @ msg) else a)"

abbreviation hundredths :: "int \<Rightarrow> dbl" where
  "hundredths n \<equiv> fl_quot n 100"

definition score_steps :: "features \<Rightarrow> ((dbl \<Rightarrow> bool) \<times> dbl \<times> ml_reason list) list" where
  "score_steps f =
     [(\<lambda>_. f_null_bytes f, hundredths 70, [NullBytes]),
      (\<lambda>_. f_double_encoded f, hundredths 50, [DoubleEncoding]),
      (\<lambda>_. f_encoded_char_count f > 30, hundredths 25, [ExcessiveEncoding (f_encoded_char_count f)]),
      (if f_uri_length f > 2000 then (\<lambda>_. True, hundredths 40, [LongUri (f_uri_length f)])
       else (\<lambda>_. f_uri_length f > 1000, hundredths 20, [])),
      (\<lambda>_. f_query_entropy f > 4.5, hundredths 30, [HighQueryEntropy (f_query_entropy f)]),
      (\<lambda>_. f_body_entropy f > 5.5 \<and> f_body_length f > 100, hundredths 25,
         [HighBodyEntropy (f_body_entropy f)]),
      (\<lambda>_. f_ua_has_scanner f, hundredths 35, [ScannerUA]),
      (\<lambda>_. f_ua_suspicious f, hundredths 40, [SuspiciousUA]),
      (\<lambda>_. f_ua_empty f, hundredths 15, [EmptyUA]),
      (\<lambda>_. f_unusual_method f, hundredths 20, [UnusualMethod]),
      (\<lambda>_. f_has_base64_body f, hundredths 20, [Base64Body]),
      (\<lambda>_. f_excessive_params f, hundredths 20, [ExcessiveParams (f_param_count f)]),
      (\<lambda>_. f_special_char_ratio f > hundredths 15, hundredths 30,
         [HighSpecialRatio (f_special_char_ratio f)]),
      (\<lambda>tot. f_has_proxy_headers f \<and> tot > hundredths 20, hundredths 10, [ProxyHeaders]),
      (\<lambda>_. f_unicode_escape f, hundredths 20, [UnicodeEscapes])]"

fun run_steps :: "((dbl \<Rightarrow> bool) \<times> dbl \<times> ml_reason list) list \<Rightarrow> acc \<Rightarrow> acc" where
  "run_steps [] a = a"
| "run_steps ((c, w, m) # ss) a = run_steps ss (add_if c w m a)"

definition compute_score :: "features \<Rightarrow> acc" where
  "compute_score f =
     (case run_steps (score_steps f) (0, []) of (tot, reasons) \<Rightarrow> (min tot fl_one, reasons))"

datatype ml_action = ML_BLOCK | ML_SUSPICIOUS | ML_PERMIT

record ml_result =
  m_score :: dbl
  m_action :: ml_action
  m_reasons :: "ml_reason list"

definition SUSPICIOUS_THRESHOLD :: dbl where
  "SUSPICIOUS_THRESHOLD = hundredths 60"

definition BLOCK_THRESHOLD :: dbl where
  "BLOCK_THRESHOLD = hundredths 85"

text \<open>\<open>MLAnomalyScorer.score\<close>: the action is decided on the unrounded score.\<close>

definition ml_score :: "dbl \<Rightarrow> request \<Rightarrow> ml_result" where
  "ml_score threshold r =
     (case compute_score (extract_features r) of (score, reasons) \<Rightarrow>
        \<lparr>m_score = fl_round4 score,
         m_action = (if score \<ge> threshold then ML_BLOCK
                     else if score \<ge> SUSPICIOUS_THRESHOLD then ML_SUSPICIOUS else ML_PERMIT),
         m_reasons = reasons\<rparr>)"

subsection \<open>Properties\<close>

lemma shannon_entropy_nonneg: "0 \<le> shannon_entropy s"
proof -
  have "0 \<le> round (raw_entropy s * 10000)"
    using round_mono [of 0 "raw_entropy s * 10000"] raw_entropy_nonneg [of s] by simp
  then show ?thesis by (simp add: shannon_entropy_def round4_real_def)
qed

lemma hundredths_values:
  "0 \<le> hundredths 10" "0 \<le> hundredths 15" "0 \<le> hundredths 20" "0 \<le> hundredths 25"
  "0 \<le> hundredths 30" "0 \<le> hundredths 35" "0 \<le> hundredths 40" "0 \<le> hundredths 50"
  "0 \<le> hundredths 70" "hundredths 20 \<le> hundredths 40"
  by code_simp+

definition good_acc :: "acc \<Rightarrow> bool" where
  "good_acc a \<longleftrightarrow> 0 \<le> fst a \<and> is_double (fst a)"

lemma add_if_good: "good_acc a \<Longrightarrow> 0 \<le> w \<Longrightarrow> good_acc (add_if c w m a)"
  by (auto simp: good_acc_def add_if_def intro: fl_add_nonneg fl_add_is_double)

definition step_le ::
  "((dbl \<Rightarrow> bool) \<times> dbl \<times> ml_reason list) \<Rightarrow> ((dbl \<Rightarrow> bool) \<times> dbl \<times> ml_reason list) \<Rightarrow> bool" where
  "step_le s t \<longleftrightarrow>
     0 \<le> fst (snd s) \<and> fst (snd s) \<le> fst (snd t) \<and>
     (\<forall>x y. x \<le> y \<longrightarrow> fst s x \<longrightarrow> fst t y)"

lemma add_if_mono:
  assumes "step_le (c, w, m) (c', w', m')" "good_acc b" "fst a \<le> fst b"
  shows "fst (add_if c w m a) \<le> fst (add_if c' w' m' b)"
proof (cases "c (fst a)")
  case True
  with assms have "c' (fst b)" "w \<le> w'" by (auto simp: step_le_def)
  with True assms(3) show ?thesis by (simp add: add_if_def fl_add_mono)
next
  case False
  have "fst b \<le> fst (add_if c' w' m' b)"
    using assms(1,2) by (auto simp: add_if_def good_acc_def step_le_def intro: fl_add_increases)
  with False assms(3) show ?thesis by (simp add: add_if_def)
qed

lemma run_steps_mono:
  "list_all2 step_le ss ts \<Longrightarrow> good_acc a \<Longrightarrow> good_acc b \<Longrightarrow> fst a \<le> fst b \<Longrightarrow>
     fst (run_steps ss a) \<le> fst (run_steps ts b)"
proof (induction ss ts arbitrary: a b rule: list_all2_induct)
  case Nil
  then show ?case by simp
next
  case (Cons s ss t ts)
  obtain c w m where s: "s = (c, w, m)" by (cases s)
  obtain c' w' m' where t: "t = (c', w', m')" by (cases t)
  have "0 \<le> w" "0 \<le> w'" using Cons.hyps(1) by (auto simp: step_le_def s t)
  then have "good_acc (add_if c w m a)" "good_acc (add_if c' w' m' b)"
    using Cons.prems by (auto intro: add_if_good)
  moreover have "fst (add_if c w m a) \<le> fst (add_if c' w' m' b)"
    using Cons.hyps(1) Cons.prems unfolding s t by (intro add_if_mono)
  ultimately show ?case using Cons.IH by (simp add: s t)
qed

text \<open>\<open>g\<close> shows every anomaly \<open>f\<close> shows, at least as strongly.\<close>

definition more_anomalous :: "features \<Rightarrow> features \<Rightarrow> bool" where
  "more_anomalous f g \<longleftrightarrow>
     (f_null_bytes f \<longrightarrow> f_null_bytes g) \<and> (f_double_encoded f \<longrightarrow> f_double_encoded g) \<and>
     f_encoded_char_count f \<le> f_encoded_char_count g \<and> f_uri_length f \<le> f_uri_length g \<and>
     f_query_entropy f \<le> f_query_entropy g \<and> f_body_entropy f \<le> f_body_entropy g \<and>
     f_body_length f \<le> f_body_length g \<and> (f_ua_has_scanner f \<longrightarrow> f_ua_has_scanner g) \<and>
     (f_ua_suspicious f \<longrightarrow> f_ua_suspicious g) \<and> (f_ua_empty f \<longrightarrow> f_ua_empty g) \<and>
     (f_unusual_method f \<longrightarrow> f_unusual_method g) \<and> (f_has_base64_body f \<longrightarrow> f_has_base64_body g) \<and>
     (f_excessive_params f \<longrightarrow> f_excessive_params g) \<and>
     f_special_char_ratio f \<le> f_special_char_ratio g \<and>
     (f_has_proxy_headers f \<longrightarrow> f_has_proxy_headers g) \<and>
     (f_unicode_escape f \<longrightarrow> f_unicode_escape g)"

lemma score_steps_le: "more_anomalous f g \<Longrightarrow> list_all2 step_le (score_steps f) (score_steps g)"
  using hundredths_values
  by (auto simp: more_anomalous_def score_steps_def step_le_def simp del: One_nat_def)

lemma good_acc_start: "good_acc (0, [])"
  by (simp add: good_acc_def is_double_0)

lemma compute_score_fst: "fst (compute_score f) = min (fst (run_steps (score_steps f) (0, []))) fl_one"
  by (simp add: compute_score_def split: prod.splits)

lemma run_steps_good:
  "list_all (\<lambda>s. 0 \<le> fst (snd s)) ss \<Longrightarrow> good_acc a \<Longrightarrow> good_acc (run_steps ss a)"
  by (induction ss a rule: run_steps.induct) (auto intro: add_if_good)

lemma score_steps_nonneg: "list_all (\<lambda>s. 0 \<le> fst (snd s)) (score_steps f)"
  using hundredths_values by (simp add: score_steps_def)

text \<open>C16: The anomaly score lies between 0.0 and 1.0 for every request and is a double.\<close>

theorem tier3_score_bounds:
  "0 \<le> fst (compute_score f) \<and> fst (compute_score f) \<le> fl_one \<and> is_double (fst (compute_score f))"
proof -
  have g: "good_acc (run_steps (score_steps f) (0, []))"
    by (rule run_steps_good [OF score_steps_nonneg good_acc_start])
  have "is_double fl_one" unfolding is_double_def by code_simp
  with g show ?thesis by (auto simp: compute_score_fst good_acc_def fl_one_def min_def)
qed

lemma compute_score_mono:
  "more_anomalous f g \<Longrightarrow> fst (compute_score f) \<le> fst (compute_score g)"
proof -
  assume "more_anomalous f g"
  then have "fst (run_steps (score_steps f) (0, [])) \<le> fst (run_steps (score_steps g) (0, []))"
    by (intro run_steps_mono score_steps_le good_acc_start) auto
  then show ?thesis by (simp add: compute_score_fst min_le_iff_disj)
qed

text \<open>
  C38: The score is monotone: a request that shows every anomaly another one shows, at least as
  strongly, never gets a lower score, the rounding of the double additions included. An attacker
  cannot lower the score by adding an indicator.
\<close>

theorem tier3_score_monotone:
  "more_anomalous f g \<Longrightarrow> fst (compute_score f) \<le> fst (compute_score g)"
  by (rule compute_score_mono)

definition quiet_features :: features where
  "quiet_features =
     \<lparr>f_method_encoded = 0, f_uri_length = 0, f_query_length = 0, f_header_count = 0,
      f_body_length = 0, f_uri_entropy = 0, f_query_entropy = 0, f_body_entropy = 0,
      f_special_char_ratio = 0, f_encoded_char_count = 0, f_double_encoded = False,
      f_null_bytes = False, f_unicode_escape = False, f_has_base64_body = False,
      f_has_json_body = False, f_param_count = 0, f_excessive_params = False, f_ua_length = 0,
      f_ua_has_scanner = False, f_ua_empty = False, f_ua_suspicious = False,
      f_unusual_method = False, f_has_x_forwarded = False, f_has_proxy_headers = False\<rparr>"

theorem tier3_score_monotone_witness:
  "fst (compute_score quiet_features) \<le> fst (compute_score (quiet_features\<lparr>f_null_bytes := True\<rparr>))"
  by (rule tier3_score_monotone) (simp add: more_anomalous_def quiet_features_def)

lemma null_and_empty_ua_score:
  "fst (compute_score (quiet_features\<lparr>f_null_bytes := True, f_ua_empty := True\<rparr>)) = BLOCK_THRESHOLD"
proof -
  have "fl_add (fl_add 0 (hundredths 70)) (hundredths 15) = hundredths 85"
    "hundredths 85 \<le> fl_one" "\<not> hundredths 15 < 0" by code_simp+
  then show ?thesis
    by (simp add: compute_score_fst score_steps_def quiet_features_def add_if_def BLOCK_THRESHOLD_def)
qed

lemma special_char_ratio_nonneg: "0 \<le> special_char_ratio s"
proof -
  have q: "0 \<le> fl_quot a b" if "0 \<le> a" "0 < b" for a b
    unfolding fl_quot_def Let_def using that
    by (intro mult_nonneg_nonneg div_even_ge_int) auto
  have r: "0 \<le> fl_round4 x" if "0 \<le> x" for x
    unfolding fl_round4_def using that by (intro q) (auto simp: round4_def intro!: div_even_ge_int)
  show ?thesis unfolding special_char_ratio_def by (auto intro!: r q)
qed

text \<open>
  A request with a null byte (literal or \<open>%00\<close>) and no User-Agent reaches the default
  threshold 0.85 and is blocked by Tier 3, whatever else it contains; the two weights 0.7 and 0.15
  add up to exactly the double 0.85.
\<close>

theorem tier3_null_byte_without_ua_blocks:
  assumes "0 \<in> set (uri_of r @ [32] @ query_of r @ [32] @ body_text r) \<or>
      contains (lit ''%00'') (uri_of r @ [32] @ query_of r @ [32] @ body_text r)"
    and "header_of r (lit ''user-agent'') = []" "threshold \<le> BLOCK_THRESHOLD"
  shows "m_action (ml_score threshold r) = ML_BLOCK"
proof -
  let ?f = "extract_features r"
  have "more_anomalous (quiet_features\<lparr>f_null_bytes := True, f_ua_empty := True\<rparr>) ?f"
    using assms(1,2)
    by (auto simp: more_anomalous_def quiet_features_def extract_features_def Let_def
        shannon_entropy_nonneg special_char_ratio_nonneg)
  then have "BLOCK_THRESHOLD \<le> fst (compute_score ?f)"
    using compute_score_mono null_and_empty_ua_score by metis
  with assms(3) show ?thesis by (cases "compute_score ?f") (simp add: ml_score_def)
qed

theorem tier3_null_byte_without_ua_blocks_witness:
  "m_action (ml_score BLOCK_THRESHOLD (empty_request\<lparr>rq_uri := Some (lit ''/a%00'')\<rparr>)) = ML_BLOCK"
proof (rule tier3_null_byte_without_ua_blocks)
  show "header_of (empty_request\<lparr>rq_uri := Some (lit ''/a%00'')\<rparr>) (lit ''user-agent'') = []"
    by code_simp
  have "contains (lit ''%00'') (lit ''/a%00'' @ [32, 32])" by code_simp
  then show "0 \<in> set (uri_of (empty_request\<lparr>rq_uri := Some (lit ''/a%00'')\<rparr>) @ [32] @
      query_of (empty_request\<lparr>rq_uri := Some (lit ''/a%00'')\<rparr>) @ [32] @
      body_text (empty_request\<lparr>rq_uri := Some (lit ''/a%00'')\<rparr>)) \<or>
    contains (lit ''%00'') (uri_of (empty_request\<lparr>rq_uri := Some (lit ''/a%00'')\<rparr>) @ [32] @
      query_of (empty_request\<lparr>rq_uri := Some (lit ''/a%00'')\<rparr>) @ [32] @
      body_text (empty_request\<lparr>rq_uri := Some (lit ''/a%00'')\<rparr>))"
    by (simp add: empty_request_def body_text_def)
  show "BLOCK_THRESHOLD \<le> BLOCK_THRESHOLD" by simp
qed

end
