(* ===== verification/Content.thy ===== *)
theory Content
  imports Request Regex Entropy
begin

text \<open>
  Content inspection, \<open>agent/security/content/\<close>: magic bytes, entropy, the YARA scanner and the
  Base64 inspector. YARA is third-party: a compiled rule set is a function from the data to its
  matches (or an exception), and compiling is a parameter.
\<close>

subsection \<open>Magic bytes\<close>

record signature =
  sg_key :: pystr
  sg_magic :: bytes
  sg_description :: pystr

definition sig :: "string \<Rightarrow> bytes \<Rightarrow> string \<Rightarrow> signature" where
  "sig k m d = \<lparr>sg_key = lit k, sg_magic = m, sg_description = lit d\<rparr>"

text \<open>The dictionary, in its insertion order.\<close>

definition MAGIC_SIGNATURES :: "signature list" where
  "MAGIC_SIGNATURES =
     [sig ''EXE_WINDOWS'' [77, 90] ''Windows PE Executable'',
      sig ''ELF_LINUX'' [127, 69, 76, 70] ''Linux ELF Executable'',
      sig ''MACHO'' [206, 250, 237, 254] ''macOS Mach-O Binary'',
      sig ''PHP_SCRIPT'' [60, 63, 112, 104, 112] ''PHP Script'',
      sig ''PHP_SHORT'' [60, 63] ''PHP Short Tag'',
      sig ''SHELL_SHEBANG'' [35, 33] ''Shell Script (#!)'',
      sig ''PYTHON_SHEBANG'' (lit ''#!/usr/bin/py'') ''Python Script'',
      sig ''ZIP'' [80, 75, 3, 4] ''ZIP Archive / Office Doc'',
      sig ''GZIP'' [31, 139] ''GZIP Compressed'',
      sig ''TAR_BZ2'' [66, 90, 104] ''BZip2 Archive'',
      sig ''7ZIP'' [55, 122, 188, 175, 39, 28] ''7-Zip Archive'',
      sig ''RAR'' [82, 97, 114, 33, 26, 7] ''RAR Archive'',
      sig ''PDF'' [37, 80, 68, 70] ''PDF Document'',
      sig ''OLE2'' [208, 207, 17, 224] ''MS Office OLE2 (doc/xls/ppt)'',
      sig ''JAVA_CLASS'' [202, 254, 186, 190] ''Java Class File'',
      sig ''JAR'' [80, 75, 3, 4] ''JAR File'',
      sig ''JPEG'' [255, 216, 255] ''JPEG Image'',
      sig ''PNG'' [137, 80, 78, 71, 13, 10, 26, 10] ''PNG Image'',
      sig ''GIF87'' [71, 73, 70, 56, 55, 97] ''GIF87 Image'',
      sig ''GIF89'' [71, 73, 70, 56, 57, 97] ''GIF89 Image'',
      sig ''WEBP'' [82, 73, 70, 70] ''WEBP Image'']"

definition DANGEROUS_TYPES :: "pystr list" where
  "DANGEROUS_TYPES =
     map lit [''EXE_WINDOWS'', ''ELF_LINUX'', ''MACHO'', ''PHP_SCRIPT'', ''PHP_SHORT'', ''SHELL_SHEBANG'',
              ''PYTHON_SHEBANG'', ''JAVA_CLASS'']"

definition CONTENT_TYPE_MAP :: "(pystr \<times> pystr list) list" where
  "CONTENT_TYPE_MAP =
     [(lit ''image/jpeg'', [lit ''JPEG'']),
      (lit ''image/png'', [lit ''PNG'']),
      (lit ''image/gif'', [lit ''GIF87'', lit ''GIF89'']),
      (lit ''image/webp'', [lit ''WEBP'']),
      (lit ''application/pdf'', [lit ''PDF'']),
      (lit ''application/zip'', [lit ''ZIP'', lit ''7ZIP'', lit ''RAR'']),
      (lit ''text/plain'', [])]"

definition detect_file_type :: "bytes \<Rightarrow> signature option" where
  "detect_file_type data = first_match (\<lambda>s. startswith (take 16 data) (sg_magic s)) MAGIC_SIGNATURES"

record magic_verdict =
  mv_detected :: "signature option"
  mv_declared :: pystr
  mv_dangerous :: bool
  mv_spoofed :: bool
  mv_should_block :: bool
  mv_reason :: pystr

definition declared_type :: "pystr \<Rightarrow> pystr" where
  "declared_type ct = py_lower (strip (before_first 59 ct))"

definition validate_content_type :: "bytes \<Rightarrow> pystr \<Rightarrow> magic_verdict" where
  "validate_content_type data ct =
     (let declared = declared_type ct;
          clean = \<lparr>mv_detected = detect_file_type data, mv_declared = declared,
                   mv_dangerous = False, mv_spoofed = False, mv_should_block = False,
                   mv_reason = []\<rparr>
      in case detect_file_type data of
           None \<Rightarrow> clean
         | Some s \<Rightarrow>
             (if sg_key s \<in> set DANGEROUS_TYPES then
                clean\<lparr>mv_dangerous := True, mv_should_block := True,
                      mv_reason := lit ''Dangerous file type detected: '' @ sg_description s\<rparr>
              else case map_of CONTENT_TYPE_MAP declared of
                     None \<Rightarrow> clean
                   | Some expected \<Rightarrow>
                       (if expected \<noteq> [] \<and> sg_key s \<notin> set expected then
                          clean\<lparr>mv_spoofed := True, mv_should_block := True,
                                mv_reason := lit ''Content-Type spoofing: claimed '' @ [39] @ declared @
                                  [39] @ lit '' but file is actually '' @ sg_description s\<rparr>
                        else clean)))"

subsection \<open>Entropy\<close>

datatype entropy_level = CLEAN | MEDIUM_ENTROPY | HIGH_ENTROPY_SUSPICIOUS | HIGH_ENTROPY_LIKELY_ENCRYPTED

definition byte_entropy :: "bytes \<Rightarrow> real" where
  "byte_entropy data = (if data = [] then 0 else raw_entropy data)"

definition entropy_verdict :: "bytes \<Rightarrow> real \<times> bool \<times> entropy_level" where
  "entropy_verdict data =
     (let score = byte_entropy data
      in (round4_real score, 7.2 \<le> score,
          if 7.8 \<le> score then HIGH_ENTROPY_LIKELY_ENCRYPTED
          else if 7.2 \<le> score then HIGH_ENTROPY_SUSPICIOUS
          else if 6 \<le> score then MEDIUM_ENTROPY
          else CLEAN))"

subsection \<open>YARA\<close>

record yara_match =
  y_rule :: pystr
  y_namespace :: pystr
  y_tags :: "pystr list"
  y_severity :: "pystr option"
  y_description :: "pystr option"

type_synonym yara_rules = "bytes \<Rightarrow> yara_match list result"

datatype rules_dir = DirMissing | YarFiles "pystr list"

text \<open>
  \<open>_load_rules\<close>, also \<open>reload\<close>: the rules in force change only when the whole directory
  compiles.
\<close>

definition load_rules ::
  "bool \<Rightarrow> (pystr list \<Rightarrow> yara_rules result) \<Rightarrow> rules_dir \<Rightarrow> yara_rules option \<Rightarrow> yara_rules option" where
  "load_rules available compile dir old =
     (if \<not> available then old
      else case dir of
             DirMissing \<Rightarrow> old
           | YarFiles files \<Rightarrow>
               (if files = [] then old
                else case compile files of Inl _ \<Rightarrow> old | Inr rules \<Rightarrow> Some rules))"

definition yara_is_ready :: "bool \<Rightarrow> yara_rules option \<Rightarrow> bool" where
  "yara_is_ready available rules = (available \<and> rules \<noteq> None)"

text \<open>
  \<open>scan\<close>: the first match, with the defaults of \<open>meta.get\<close>; no rules, no data, a timeout and any
  other exception are "no match".
\<close>

definition yara_scan :: "bool \<Rightarrow> yara_rules option \<Rightarrow> bytes \<Rightarrow> yara_match option" where
  "yara_scan available rules data =
     (case rules of
        None \<Rightarrow> None
      | Some m \<Rightarrow>
          (if \<not> available \<or> data = [] then None
           else case m data of
                  Inr (best # _) \<Rightarrow>
                    Some (best\<lparr>y_severity := Some (get_or (lit ''HIGH'') (y_severity best)),
                               y_description := Some (get_or [] (y_description best))\<rparr>)
                | _ \<Rightarrow> None))"

subsection \<open>Base64\<close>

definition B64_CHAR :: rx where
  "B64_CHAR = Cls False [rng CHR ''A'' CHR ''Z'', rng CHR ''a'' CHR ''z'', rng CHR ''0'' CHR ''9'', CR 43 43, CR 47 47]"

definition B64_TAIL :: rx where
  "B64_TAIL = alts [seqs [Rep 2 B64_CHAR, word ''==''], seqs [Rep 3 B64_CHAR, word ''=''], Rep 4 B64_CHAR]"

definition B64_PATTERN :: rx where
  "B64_PATTERN = Cat (Star (Rep 4 B64_CHAR)) B64_TAIL"

definition MIN_B64_LENGTH :: nat where
  "MIN_B64_LENGTH = 48"

text \<open>The body of the loop: too short, undecodable or tiny candidates are dropped.\<close>

definition b64_candidate :: "pystr \<Rightarrow> bytes option" where
  "b64_candidate c =
     (if length c < MIN_B64_LENGTH then None
      else case b64decode_str (c @ [61, 61]) of
             Inl _ \<Rightarrow> None
           | Inr raw \<Rightarrow> if 16 \<le> length raw then Some raw else None)"

definition extract_b64_candidates :: "bytes \<Rightarrow> bytes list" where
  "extract_b64_candidates data =
     List.map_filter b64_candidate (finditer False B64_PATTERN (decode_replace data))"

text \<open>\<open>bytes.strip\<close> and \<open>\s\<close> of a bytes pattern use the ASCII white space.\<close>

definition ascii_space :: "int \<Rightarrow> bool" where
  "ascii_space c \<longleftrightarrow> in_range 9 13 c \<or> c = 32"

definition decode_body_if_base64 :: "bytes \<Rightarrow> pystr \<Rightarrow> bytes option" where
  "decode_body_if_base64 body ct =
     (if body = [] then None
      else if contains (lit ''multipart'') (py_lower ct) \<or> contains (lit ''text/html'') (py_lower ct)
      then None
      else case b64decode_bytes (filter (\<lambda>c. c \<noteq> 10 \<and> c \<noteq> 13) (strip_by ascii_space body)) of
             Inl _ \<Rightarrow> None
           | Inr decoded \<Rightarrow> if length body \<le> 2 * length decoded then None else Some decoded)"

text \<open>
  \<open>stream_decode_chunks\<close>, the chunks it yields; \<open>range\<close> with a step of 0 raises (a chunk size
  below 3), and an undecodable chunk is skipped.
\<close>

function stream_chunks :: "nat \<Rightarrow> bytes \<Rightarrow> bytes list" where
  "stream_chunks n clean =
     (if n = 0 \<or> clean = [] then []
      else let chunk = take n clean;
               padded = chunk @ replicate ((4 - length chunk mod 4) mod 4) 61
           in case b64decode_bytes padded of
                Inl _ \<Rightarrow> stream_chunks n (drop n clean)
              | Inr d \<Rightarrow> d # stream_chunks n (drop n clean))"
  by pat_completeness auto
termination
  by (relation "measure (\<lambda>(n, clean). length clean)") auto

declare stream_chunks.simps [simp del]

definition stream_decode_chunks :: "bytes \<Rightarrow> nat \<Rightarrow> bytes list result" where
  "stream_decode_chunks data chunk_size =
     (if chunk_size < 3 then Inl ValueError
      else Inr (stream_chunks (chunk_size div 3 * 4) (filter (\<lambda>c. \<not> ascii_space c) data)))"

subsection \<open>Lemmas\<close>

definition dangerous_prefixes :: "bytes list" where
  "dangerous_prefixes =
     [[77, 90], [127, 69, 76, 70], [206, 250, 237, 254], [60, 63], [35, 33], [202, 254, 186, 190]]"

lemma startswith_take: "length p \<le> n \<Longrightarrow> startswith (take n s) p = startswith s p"
  by (simp add: startswith_def min_def)

lemma startswith_refine: "startswith s (p @ q) \<Longrightarrow> startswith s p"
  by (auto simp: startswith_iff)

lemma startswith_Cons: "startswith s (a # p) \<longleftrightarrow> (\<exists>t. s = a # t \<and> startswith t p)"
  by (auto simp: startswith_iff)

lemma startswith_Nil [simp]: "startswith s []"
  by (simp add: startswith_def)

lemma magic_lengths: "\<forall>s \<in> set MAGIC_SIGNATURES. length (sg_magic s) \<le> 16"
proof -
  have "list_all (\<lambda>s. length (sg_magic s) \<le> 16) MAGIC_SIGNATURES" by code_simp
  then show ?thesis by (simp add: list_all_iff)
qed

lemma detect_file_type_eq:
  "detect_file_type data = first_match (\<lambda>s. startswith data (sg_magic s)) MAGIC_SIGNATURES"
  unfolding detect_file_type_def
  using magic_lengths by (intro first_match_cong) (simp add: startswith_take)

lemma detect_file_typeD:
  "detect_file_type data = Some s \<Longrightarrow> s \<in> set MAGIC_SIGNATURES \<and> startswith data (sg_magic s)"
  unfolding detect_file_type_eq by (rule first_match_SomeD)

text \<open>
  Two signatures of the table that the same data can both match are one a prefix of the other;
  among the pairs of the table a dangerous one is never behind a harmless one.
\<close>

definition compatible :: "bytes \<Rightarrow> bytes \<Rightarrow> bool" where
  "compatible p q \<longleftrightarrow> startswith p q \<or> startswith q p"

lemma startswith_compatible: "startswith s p \<Longrightarrow> startswith s q \<Longrightarrow> compatible p q"
  by (auto simp: startswith_iff compatible_def append_eq_append_conv2)

lemma dangerous_signatures_exclusive:
  assumes "s \<in> set MAGIC_SIGNATURES" "p \<in> set dangerous_prefixes" "compatible (sg_magic s) p"
  shows "sg_key s \<in> set DANGEROUS_TYPES"
proof -
  have "list_all (\<lambda>s. list_all (\<lambda>p. compatible (sg_magic s) p \<longrightarrow>
      List.member DANGEROUS_TYPES (sg_key s)) dangerous_prefixes) MAGIC_SIGNATURES"
    by code_simp
  then show ?thesis using assms by (auto simp: list_all_iff)
qed

lemma dangerous_signature_prefix:
  assumes "s \<in> set MAGIC_SIGNATURES" "sg_key s \<in> set DANGEROUS_TYPES"
  shows "\<exists>p \<in> set dangerous_prefixes. startswith (sg_magic s) p"
proof -
  have "list_all (\<lambda>s. List.member DANGEROUS_TYPES (sg_key s) \<longrightarrow>
      list_ex (\<lambda>p. startswith (sg_magic s) p) dangerous_prefixes) MAGIC_SIGNATURES"
    by code_simp
  then show ?thesis using assms by (simp add: list_all_iff list_ex_iff)
qed

lemma dangerous_prefix_signature:
  assumes "p \<in> set dangerous_prefixes"
  shows "\<exists>s \<in> set MAGIC_SIGNATURES. sg_magic s = p"
proof -
  have "list_all (\<lambda>p. list_ex (\<lambda>s. sg_magic s = p) MAGIC_SIGNATURES) dangerous_prefixes"
    by code_simp
  then show ?thesis using assms by (simp add: list_all_iff list_ex_iff)
qed

lemma startswith_trans: "startswith s p \<Longrightarrow> startswith p q \<Longrightarrow> startswith s q"
  by (auto simp: startswith_iff)

lemma detected_dangerous_iff:
  "(\<exists>s. detect_file_type data = Some s \<and> sg_key s \<in> set DANGEROUS_TYPES) \<longleftrightarrow>
     (\<exists>p \<in> set dangerous_prefixes. startswith data p)"
proof
  assume "\<exists>s. detect_file_type data = Some s \<and> sg_key s \<in> set DANGEROUS_TYPES"
  then show "\<exists>p \<in> set dangerous_prefixes. startswith data p"
    by (meson detect_file_typeD dangerous_signature_prefix startswith_trans)
next
  assume "\<exists>p \<in> set dangerous_prefixes. startswith data p"
  then obtain p where p: "p \<in> set dangerous_prefixes" "startswith data p" by blast
  then obtain s where "s \<in> set MAGIC_SIGNATURES" "startswith data (sg_magic s)"
    using dangerous_prefix_signature by metis
  then obtain s' where s': "detect_file_type data = Some s'"
    unfolding detect_file_type_eq
    using first_match_exists [of s MAGIC_SIGNATURES "\<lambda>s. startswith data (sg_magic s)"] by auto
  then have "s' \<in> set MAGIC_SIGNATURES" "startswith data (sg_magic s')"
    by (auto dest: detect_file_typeD)
  with p s' show "\<exists>s. detect_file_type data = Some s \<and> sg_key s \<in> set DANGEROUS_TYPES"
    by (meson dangerous_signatures_exclusive startswith_compatible)
qed

lemma validate_blocks_iff:
  "mv_should_block (validate_content_type data ct) \<longleftrightarrow>
     (\<exists>s. detect_file_type data = Some s \<and>
        (sg_key s \<in> set DANGEROUS_TYPES \<or>
         (\<exists>expected. map_of CONTENT_TYPE_MAP (declared_type ct) = Some expected \<and>
            expected \<noteq> [] \<and> sg_key s \<notin> set expected)))"
  by (auto simp: validate_content_type_def Let_def split: option.splits)

lemma validate_blocks_dangerous:
  "p \<in> set dangerous_prefixes \<Longrightarrow> startswith data p \<Longrightarrow>
     mv_should_block (validate_content_type data ct)"
  unfolding validate_blocks_iff using detected_dangerous_iff by blast

text \<open>Base64 text in a larger text.\<close>

lemma b64_class: "(cls_has False [rng CHR ''A'' CHR ''Z'', rng CHR ''a'' CHR ''z'',
    rng CHR ''0'' CHR ''9'', CR 43 43, CR 47 47] c) \<longleftrightarrow> b64_val c \<noteq> None"
  by (auto simp: cls_has_def rng_def b64_val_def)

lemma avoids_Rep: "avoids ic d (Rep n r) \<longleftrightarrow> n = 0 \<or> avoids ic d r"
  by (induction n) auto

lemma b64_avoids: "\<not> is_b64_char d \<Longrightarrow> avoids False d B64_PATTERN"
  by (simp add: B64_PATTERN_def B64_TAIL_def B64_CHAR_def is_b64_char_def avoids_Rep b64_class word_def chr_eq_def)

lemma b64_consumes: "consumes B64_PATTERN"
  by code_simp

definition b64_letters :: "pystr \<Rightarrow> bool" where
  "b64_letters s = list_all (\<lambda>c. b64_val c \<noteq> None) s"

lemma mt_b64_char:
  "mt False B64_CHAR (x, []) = []"
  "mt False B64_CHAR (x, c # s) = (if b64_val c \<noteq> None then [(Some c, s)] else [])"
  by (simp_all add: B64_CHAR_def step_if_def b64_class)

lemma mt_b64_quad:
  "mt False (Rep 4 B64_CHAR) (x, a # b # c # d # s) =
     (if b64_letters [a, b, c, d] then [(Some d, s)] else [])"
  "mt False (Rep 4 B64_CHAR) (x, []) = []"
  by (auto simp: numeral_eq_Suc mt_b64_char b64_letters_def)

lemma mt_b64_quads:
  "b64_letters [a, b, c, d] \<Longrightarrow>
     mt False (Star (Rep 4 B64_CHAR)) (x, a # b # c # d # s) =
     mt False (Star (Rep 4 B64_CHAR)) (Some d, s) @ [(x, a # b # c # d # s)]"
  "\<not> b64_letters [a, b, c, d] \<Longrightarrow>
     mt False (Star (Rep 4 B64_CHAR)) (x, a # b # c # d # s) = [(x, a # b # c # d # s)]"
  "mt False (Star (Rep 4 B64_CHAR)) (x, []) = [(x, [])]"
  by (subst mt.simps(9), simp add: mt_b64_quad)+

lemma mt_word_eq:
  "mt False (word ''='') (x, c # s) = (if c = 61 then [(Some c, s)] else [])"
  "mt False (word ''=='') (x, c # d # s) = (if c = 61 \<and> d = 61 then [(Some d, s)] else [])"
  by (auto simp: word_def step_if_def chr_eq_def)

lemma mt_b64_tail:
  "mt False B64_TAIL (x, []) = []"
  "b64_letters [a, b] \<Longrightarrow> mt False B64_TAIL (x, [a, b, 61, 61]) = [(Some 61, [])]"
  "b64_letters [a, b, c] \<Longrightarrow> mt False B64_TAIL (x, [a, b, c, 61]) = [(Some 61, [])]"
  "b64_letters [a, b, c, d] \<Longrightarrow> c \<noteq> 61 \<Longrightarrow> d \<noteq> 61 \<Longrightarrow>
     mt False B64_TAIL (x, [a, b, c, d]) = [(Some d, [])]"
  by (auto simp: B64_TAIL_def numeral_eq_Suc mt_b64_char mt_word_eq b64_letters_def b64_val_def)

lemma b64_letter: "0 \<le> v \<Longrightarrow> v < 64 \<Longrightarrow> b64_val (b64_chr v) \<noteq> None"
  by (simp add: b64_val_chr)

lemma b64encode_matched:
  assumes "is_bytes bs" "bs \<noteq> []"
  shows "\<exists>y qs. mt False B64_PATTERN (x, b64encode bs) = (y, []) # qs"
  using assms
proof (induction bs arbitrary: x rule: b64encode.induct)
  case (1 a b c bs)
  let ?q = "[b64_chr (a div 4), b64_chr (a mod 4 * 16 + b div 16), b64_chr (b mod 16 * 4 + c div 64),
    b64_chr (c mod 64)]"
  have r: "0 \<le> a" "a < 256" "0 \<le> b" "b < 256" "0 \<le> c" "c < 256" "is_bytes bs"
    using 1 by (simp_all add: is_bytes_def)
  then have q: "b64_letters ?q"
    by (simp add: b64_letters_def b64_letter byte_sextets byte_sextet_sums del: not_None_eq)
  have p: "b64_chr (b mod 16 * 4 + c div 64) \<noteq> 61" "b64_chr (c mod 64) \<noteq> 61"
    using r by (simp_all add: b64_chr_not_pad byte_sextets byte_sextet_sums)
  show ?case
  proof (cases "bs = []")
    case True
    then show ?thesis using q p
      by (simp add: B64_PATTERN_def mt_b64_quads mt_b64_tail)
  next
    case False
    then obtain y qs where "mt False B64_PATTERN (Some (b64_chr (c mod 64)), b64encode bs) = (y, []) # qs"
      using 1 r by blast
    then show ?thesis using q
      by (simp add: B64_PATTERN_def mt_b64_quads)
  qed
next
  case (2 a b)
  then have "b64_letters [b64_chr (a div 4), b64_chr (a mod 4 * 16 + b div 16), b64_chr (b mod 16 * 4)]"
    by (simp add: b64_letters_def b64_letter byte_sextets byte_sextet_sums is_bytes_def del: not_None_eq)
  moreover have "\<not> b64_letters [p, q, s, 61]" for p q s by (simp add: b64_letters_def b64_val_def)
  ultimately show ?case
    by (simp add: B64_PATTERN_def mt_b64_quads mt_b64_tail)
next
  case (3 a)
  then have "b64_letters [b64_chr (a div 4), b64_chr (a mod 4 * 16)]"
    by (simp add: b64_letters_def b64_letter byte_sextets byte_sextet_sums is_bytes_def del: not_None_eq)
  moreover have "\<not> b64_letters [p, q, s, 61]" for p q s by (simp add: b64_letters_def b64_val_def)
  ultimately show ?case
    by (simp add: B64_PATTERN_def mt_b64_quads mt_b64_tail)
qed simp

lemma finditer_b64encode:
  assumes "is_bytes bs" "bs \<noteq> []"
  shows "finditer_from False B64_PATTERN x (b64encode bs) = [b64encode bs]"
proof -
  obtain c s where c: "b64encode bs = c # s"
    using assms(2) by (cases bs rule: b64encode.cases) auto
  obtain y qs where "mt False B64_PATTERN (x, b64encode bs) = (y, []) # qs"
    using b64encode_matched [OF assms] by blast
  then have "search_from False B64_PATTERN x (b64encode bs) = Some ((x, b64encode bs), (y, []))"
    using c by simp
  then show ?thesis
    using c by (subst finditer_from.simps) (simp add: group0_def finditer_from_Nil b64_consumes)
qed

text \<open>Data embedded as Base64 between two characters outside the alphabet are found.\<close>

lemma extract_finds:
  assumes "is_bytes bs" "34 \<le> length bs" "decode_replace data = a @ b64encode bs @ b"
    "a = [] \<or> \<not> is_b64_char (last a)" "b = [] \<or> \<not> is_b64_char (hd b)"
  shows "bs \<in> set (extract_b64_candidates data)"
proof -
  have "bs \<noteq> []" using assms(2) by auto
  then have "b64encode bs \<in> set (finditer False B64_PATTERN (decode_replace data))"
    unfolding assms(3) using assms(1,4,5)
    by (intro finditer_between b64_consumes finditer_b64encode) (auto intro: b64_avoids)
  moreover have "b64_candidate (b64encode bs) = Some bs"
    using assms(1,2) by (simp add: b64_candidate_def MIN_B64_LENGTH_def b64encode_length
        b64_str_roundtrip)
  ultimately show ?thesis
    unfolding extract_b64_candidates_def by (force simp: List.map_filter_def)
qed

text \<open>Cutting encoded text at a multiple of four cuts the data at the same multiple of three.\<close>

lemma b64encode_take_drop:
  "take (4 * k) (b64encode bs) = b64encode (take (3 * k) bs) \<and>
   drop (4 * k) (b64encode bs) = b64encode (drop (3 * k) bs)"
proof (induction bs arbitrary: k rule: b64encode.induct)
  case (1 a b c bs)
  show ?case
  proof (cases k)
    case (Suc j)
    then have k: "4 * k = Suc (Suc (Suc (Suc (4 * j))))" "3 * k = Suc (Suc (Suc (3 * j)))" by simp_all
    show ?thesis unfolding k using 1 [of j] by simp
  qed simp
next
  case (2 a b)
  show ?case by (cases k) auto
next
  case (3 a)
  show ?case by (cases k) auto
qed simp

lemma stream_chunks_step:
  assumes "0 < n" "clean \<noteq> []" "length (take n clean) mod 4 = 0" "b64decode_bytes (take n clean) = Inr d"
  shows "stream_chunks n clean = d # stream_chunks n (drop n clean)"
proof -
  have "(4 - length (take n clean) mod 4) mod 4 = 0" unfolding assms(3) by simp
  then have "take n clean @ replicate ((4 - length (take n clean) mod 4) mod 4) 61 = take n clean"
    by (simp only: replicate_0 append_Nil2)
  with assms(1,2,4) show ?thesis by (subst stream_chunks.simps) (simp only: Let_def, simp)
qed

lemma stream_chunks_encode:
  assumes "0 < k" "is_bytes bs"
  shows "concat (stream_chunks (4 * k) (b64encode bs)) = bs \<and>
    (\<forall>c \<in> set (stream_chunks (4 * k) (b64encode bs)). length c \<le> 3 * k)"
  using assms(2)
proof (induction "length bs" arbitrary: bs rule: less_induct)
  case less
  show ?case
  proof (cases "bs = []")
    case True
    then show ?thesis by (subst (1 2) stream_chunks.simps) simp
  next
    case False
    let ?t = "take (3 * k) bs" and ?d = "drop (3 * k) bs"
    have b: "is_bytes ?t" "is_bytes ?d"
      using less.prems by (auto simp: is_bytes_def dest: in_set_takeD in_set_dropD)
    have ne: "b64encode bs \<noteq> []"
      using False by (cases bs rule: b64encode.cases) auto
    have t: "take (4 * k) (b64encode bs) = b64encode ?t"
      and d: "drop (4 * k) (b64encode bs) = b64encode ?d"
      using b64encode_take_drop by blast+
    have m: "length (b64encode ?t) mod 4 = 0"
      unfolding b64encode_length by (rule mod_mult_self2_is_0)
    have "0 < 4 * k" using assms(1) by simp
    from stream_chunks_step [OF this ne, unfolded t d, OF m b64_roundtrip_exact [OF b(1)]]
    have eq: "stream_chunks (4 * k) (b64encode bs) = ?t # stream_chunks (4 * k) (b64encode ?d)" .
    have "length ?d < length bs" using False assms(1) by simp
    from less.hyps [OF this b(2)] have "concat (stream_chunks (4 * k) (b64encode ?d)) = ?d"
      "\<forall>c \<in> set (stream_chunks (4 * k) (b64encode ?d)). length c \<le> 3 * k" by blast+
    moreover have "length ?t \<le> 3 * k" by simp
    ultimately show ?thesis
      unfolding eq concat.simps list.set ball_simps using append_take_drop_id by metis
  qed
qed

lemma b64_char_not_space: "is_b64_char c \<Longrightarrow> \<not> ascii_space c"
  by (auto simp: is_b64_char_def ascii_space_def b64_val_def)

subsection \<open>Properties\<close>

text \<open>
  The magic-byte check blocks exactly the payloads that start with one of six dangerous
  prefixes (Windows, ELF and Mach-O executables, \<open><?\<close>, \<open>#!\<close>, Java classes), whatever content
  type is declared, and those whose detected type is not one the declared content type allows. No
  signature of the table hides a dangerous prefix.
\<close>

theorem content_magic_blocks_exactly:
  "mv_should_block (validate_content_type data ct) \<longleftrightarrow>
     (\<exists>p \<in> set dangerous_prefixes. startswith data p) \<or>
     (\<exists>s expected. detect_file_type data = Some s \<and>
        map_of CONTENT_TYPE_MAP (declared_type ct) = Some expected \<and>
        expected \<noteq> [] \<and> sg_key s \<notin> set expected)"
  unfolding validate_blocks_iff using detected_dangerous_iff by blast

text \<open>
  C37: Data of at least 34 bytes that a body carries as standard Base64, between characters outside
  the Base64 alphabet (or at the ends of the body), is among the decoded candidates the inspector
  scans, byte for byte.
\<close>

theorem content_base64_payload_extracted:
  assumes "is_bytes bs" "34 \<le> length bs" "decode_replace data = a @ b64encode bs @ b"
    "a = [] \<or> \<not> is_b64_char (last a)" "b = [] \<or> \<not> is_b64_char (hd b)"
  shows "bs \<in> set (extract_b64_candidates data)"
  using assms by (rule extract_finds)

definition demo_payload :: bytes where
  "demo_payload = lit ''<?php system($_GET[0]); /* padding padding */ ?>''"

definition demo_json_body :: bytes where
  "demo_json_body = lit ''{'' @ [34] @ lit ''f'' @ [34] @ lit '':'' @ [34] @ b64encode demo_payload @ [34] @ lit ''}''"

theorem content_base64_payload_extracted_witness:
  "demo_payload \<in> set (extract_b64_candidates demo_json_body)"
proof (rule content_base64_payload_extracted)
  show "decode_replace demo_json_body =
      (lit ''{'' @ [34] @ lit ''f'' @ [34] @ lit '':'' @ [34]) @ b64encode demo_payload @ ([34] @ lit ''}'')"
    by code_simp
qed (code_simp+)

text \<open>
  Chunked decoding is the inverse of encoding: for Base64 text wrapped with any white space and
  any chunk size of at least 3, the chunks that come out concatenate to the original data, and none
  is longer than the chunk size.
\<close>

theorem content_stream_decode_roundtrip:
  assumes "is_bytes bs" "3 \<le> n" "filter (\<lambda>c. \<not> ascii_space c) data = b64encode bs"
  shows "\<exists>cs. stream_decode_chunks data n = Inr cs \<and> concat cs = bs \<and> (\<forall>c \<in> set cs. length c \<le> n)"
proof -
  have k: "0 < n div 3" "3 * (n div 3) \<le> n" using assms(2) by (auto simp: div_greater_zero_iff)
  from stream_chunks_encode [OF k(1) assms(1)] k(2) show ?thesis
    using assms(2,3) by (auto simp: stream_decode_chunks_def mult.commute dest: order_trans)
qed

theorem content_stream_decode_roundtrip_witness:
  "\<exists>cs. stream_decode_chunks (lit ''aGVs'' @ [10] @ lit ''bG8='') 3 = Inr cs \<and> concat cs = lit ''hello'' \<and>
     (\<forall>c \<in> set cs. length c \<le> 3)"
proof (rule content_stream_decode_roundtrip)
  show "filter (\<lambda>c. \<not> ascii_space c) (lit ''aGVs'' @ [10] @ lit ''bG8='') = b64encode (lit ''hello'')"
    by code_simp
qed (code_simp+)

text \<open>
  The whole-body decoder never recognises a Base64 body: for every encoding of two bytes or
  more it returns nothing, whatever the content type, because its size check rejects exactly the
  decodings of the expected size.
\<close>

theorem content_decode_body_rejects_base64:
  assumes "is_bytes bs" "2 \<le> length bs"
  shows "decode_body_if_base64 (b64encode bs) ct = None"
proof -
  have ns: "\<forall>c \<in> set (b64encode bs). \<not> ascii_space c"
    using b64encode_chars [OF assms(1)] b64_char_not_space by blast
  then have "strip_by ascii_space (b64encode bs) = b64encode bs" by (rule strip_by_id)
  moreover have "filter (\<lambda>c. c \<noteq> 10 \<and> c \<noteq> 13) (b64encode bs) = b64encode bs"
    using ns by (intro filter_True) (auto simp: ascii_space_def)
  moreover have "length (b64encode bs) \<le> 2 * length bs"
    unfolding b64encode_length using assms(2) by presburger
  ultimately show ?thesis
    using assms(1) by (simp add: decode_body_if_base64_def b64_roundtrip_exact)
qed

theorem content_decode_body_rejects_base64_witness:
  "decode_body_if_base64 (b64encode demo_payload) (lit ''text/plain'') = None"
  by (rule content_decode_body_rejects_base64) code_simp+

text \<open>
  The entropy of a payload lies between 0 and 8 bits, so its verdict thresholds (6.0, 7.2, 7.8)
  are inside the range, and the verdict is suspicious exactly on the two high levels.
\<close>

theorem content_entropy_bounds:
  assumes "is_bytes data"
  shows "0 \<le> byte_entropy data \<and> byte_entropy data \<le> 8 \<and>
    (fst (snd (entropy_verdict data)) \<longleftrightarrow>
       snd (snd (entropy_verdict data)) \<in> {HIGH_ENTROPY_SUSPICIOUS, HIGH_ENTROPY_LIKELY_ENCRYPTED})"
proof -
  have "log 2 (real (card {0..<256::int})) = 8"
    using log_pow_cancel [of 2 8] by simp
  moreover have "set data \<subseteq> {0..<256}" using assms by (auto simp: is_bytes_def)
  ultimately have "byte_entropy data \<le> 8"
    using raw_entropy_le [of data "{0..<256}"] by (simp add: byte_entropy_def)
  then show ?thesis
    using raw_entropy_nonneg [of data] by (auto simp: entropy_verdict_def byte_entropy_def Let_def)
qed

theorem content_entropy_bounds_witness:
  "byte_entropy [0, 255] \<le> 8"
  using content_entropy_bounds [of "[0, 255]"] by (simp add: is_bytes_def)

end
