(* ===== verification/BQueue.thy ===== *)
theory BQueue
  imports Prelude
begin

text \<open>
  Bounded queues. Three components hand events to a background worker through one
  (\<open>queue.Queue(maxsize)\<close>, \<open>asyncio.Queue(maxsize)\<close>): the producer never waits, a full queue drops
  the item, and the worker takes batches from the front. The locale states that contract and what
  follows from it; \<open>Telemetry\<close>, \<open>Store\<close> and \<open>Doris\<close> interpret it.
\<close>

text \<open>\<open>put_nowait\<close> succeeds: \<open>maxsize = 0\<close> means unbounded.\<close>

definition room :: "nat \<Rightarrow> 'a list \<Rightarrow> bool" where
  "room m q = (m = 0 \<or> length q < m)"

definition put_nowait :: "nat \<Rightarrow> 'a \<Rightarrow> 'a list \<Rightarrow> 'a list option" where
  "put_nowait m x q = (if room m q then Some (q @ [x]) else None)"

text \<open>The loop of \<open>get_nowait\<close> calls: at most \<open>n\<close> items from the front.\<close>

fun drain :: "nat \<Rightarrow> 'a list \<Rightarrow> 'a list \<times> 'a list" where
  "drain 0 q = ([], q)"
| "drain (Suc n) [] = ([], [])"
| "drain (Suc n) (x # q) = (let (b, q') = drain n q in (x # b, q'))"

lemma drain_eq: "drain n q = (take n q, drop n q)"
  by (induction n q rule: drain.induct) auto

text \<open>A producer offers items and the worker drains; \<open>k\<close> is what one round of it takes at most.\<close>

datatype 'e bstep = Offer 'e | Drain nat

fun brun :: "('e \<Rightarrow> 's \<Rightarrow> 's \<times> bool) \<Rightarrow> (nat \<Rightarrow> 's \<Rightarrow> 'e list \<times> 's) \<Rightarrow> 'e bstep list \<Rightarrow> 's \<Rightarrow>
    's \<times> 'e list \<times> 'e list" where
  "brun offer dr [] s = (s, [], [])"
| "brun offer dr (Offer e # xs) s =
     (let (s', ok) = offer e s; (t, acc, del) = brun offer dr xs s'
      in (t, (if ok then e # acc else acc), del))"
| "brun offer dr (Drain k # xs) s =
     (let (b, s') = dr k s; (t, acc, del) = brun offer dr xs s' in (t, acc, b @ del))"

locale bounded_buffer =
  fixes cap :: nat
    and items :: "'s \<Rightarrow> 'e list"
    and offer :: "'e \<Rightarrow> 's \<Rightarrow> 's \<times> bool"
    and dr :: "nat \<Rightarrow> 's \<Rightarrow> 'e list \<times> 's"
  assumes offer_accepts: "room cap (items s) \<Longrightarrow> offer e s = (s', ok) \<Longrightarrow> ok \<and> items s' = items s @ [e]"
    and offer_drops: "\<not> room cap (items s) \<Longrightarrow> offer e s = (s', ok) \<Longrightarrow> \<not> ok \<and> items s' = items s"
    and drain_front: "dr k s = (b, s') \<Longrightarrow> items s = b @ items s'"
begin

lemma offer_items:
  "offer e s = (s', ok) \<Longrightarrow> items s' = items s @ (if ok then [e] else []) \<and> (ok \<longleftrightarrow> room cap (items s))"
  by (cases "room cap (items s)") (auto dest: offer_accepts offer_drops)

text \<open>Nothing accepted is lost, duplicated or reordered.\<close>

lemma brun_OfferE:
  assumes "brun offer dr (Offer e # xs) s = (t, acc, del)"
  obtains s' ok acc' where "offer e s = (s', ok)" "brun offer dr xs s' = (t, acc', del)"
    "acc = (if ok then e # acc' else acc')"
  using assms by (auto simp: brun.simps split: prod.splits)

lemma brun_DrainE:
  assumes "brun offer dr (Drain k # xs) s = (t, acc, del)"
  obtains b s' del' where "dr k s = (b, s')" "brun offer dr xs s' = (t, acc, del')" "del = b @ del'"
  using assms by (auto split: prod.splits)

declare brun.simps(2,3) [simp del]

lemma fifo: "brun offer dr xs s = (t, acc, del) \<Longrightarrow> items s @ acc = del @ items t"
proof (induction xs arbitrary: s acc del)
  case (Cons x xs)
  show ?case
  proof (cases x)
    case (Offer e)
    with Cons.prems obtain s' ok acc' where "offer e s = (s', ok)" "brun offer dr xs s' = (t, acc', del)"
      "acc = (if ok then e # acc' else acc')" by (auto elim!: brun_OfferE)
    with Cons.IH [of s' acc' del] offer_items [of e s s' ok] show ?thesis by (auto split: if_splits)
  next
    case (Drain k)
    with Cons.prems obtain b s' del' where "dr k s = (b, s')" "brun offer dr xs s' = (t, acc, del')"
      "del = b @ del'" by (auto elim!: brun_DrainE)
    with Cons.IH [of s' acc del'] drain_front [of k s b s'] show ?thesis by simp
  qed
qed simp

lemma bounded:
  "brun offer dr xs s = (t, acc, del) \<Longrightarrow> 0 < cap \<Longrightarrow> length (items s) \<le> cap \<Longrightarrow> length (items t) \<le> cap"
proof (induction xs arbitrary: s acc del)
  case (Cons x xs)
  show ?case
  proof (cases x)
    case (Offer e)
    with Cons.prems obtain s' ok acc' where "offer e s = (s', ok)" "brun offer dr xs s' = (t, acc', del)"
      by (auto elim!: brun_OfferE)
    with Cons.IH [of s' acc' del] Cons.prems(2,3) offer_items [of e s s' ok] show ?thesis
      by (auto simp: room_def split: if_splits)
  next
    case (Drain k)
    with Cons.prems obtain b s' del' where "dr k s = (b, s')" "brun offer dr xs s' = (t, acc, del')"
      by (auto elim!: brun_DrainE)
    with Cons.IH [of s' acc del'] Cons.prems(2,3) drain_front [of k s b s'] show ?thesis by simp
  qed
qed simp

text \<open>The queue never refuses while the number of offers made fits the room left.\<close>

lemma all_accepted:
  "brun offer dr (map Offer es) s = (t, acc, del) \<Longrightarrow> length (items s) + length es \<le> cap \<Longrightarrow>
     acc = es \<and> items t = items s @ es"
proof (induction es arbitrary: s acc)
  case (Cons e es)
  then obtain s' ok acc' where o: "offer e s = (s', ok)" "brun offer dr (map Offer es) s' = (t, acc', del)"
      "acc = (if ok then e # acc' else acc')" by (auto elim!: brun_OfferE)
  moreover have "room cap (items s)" using Cons.prems(2) by (simp add: room_def)
  ultimately show ?case
    using Cons.IH [of s' acc'] Cons.prems(2) offer_items [of e s s' ok] by auto
qed simp

end

text \<open>The plain queue satisfies the contract.\<close>

definition offer_queue :: "nat \<Rightarrow> 'e \<Rightarrow> 'e list \<Rightarrow> 'e list \<times> bool" where
  "offer_queue m e q = (case put_nowait m e q of None \<Rightarrow> (q, False) | Some q' \<Rightarrow> (q', True))"

interpretation queue: bounded_buffer m "\<lambda>q. q" "offer_queue m" drain for m
  by unfold_locales (auto simp: offer_queue_def put_nowait_def drain_eq split: if_splits)

end
