(* ===== verification/Store.thy ===== *)
theory Store
  imports Request Floats BQueue "HOL-Library.AList"
begin

text \<open>
  The agent's local store, \<open>agent/db/duckdb_store.py\<close>. DuckDB is third-party; each SQL statement of
  the program is modelled by what it asks for: \<open>INSERT OR REPLACE\<close> sets the row of its primary key,
  \<open>UPDATE ... WHERE\<close> and \<open>DELETE ... WHERE\<close> touch the rows that satisfy the condition. A table with
  a primary key is an association list, the event table a list in insertion order. Writes wait in a
  bounded queue until the writer thread executes them; reads see the executed ones only. Times are
  whole seconds.
\<close>

subsection \<open>Tables\<close>

text \<open>The telemetry event, as the pipeline emits it.\<close>

record event =
  ev_request_id :: pystr
  ev_client_ip :: pystr
  ev_method :: pystr
  ev_uri :: pystr
  ev_action :: pystr
  ev_tier :: nat
  ev_cve_id :: "pystr option"
  ev_rule_name :: "pystr option"
  ev_reason :: pystr
  ev_ml_score :: dbl
  ev_latency :: int

record signature_row =
  sr_cve_id :: pystr
  sr_pattern :: pystr
  sr_severity :: pystr
  sr_active :: bool

record ip_row =
  ip_verdict :: pystr
  ip_reason :: pystr
  ip_cve_id :: "pystr option"
  ip_expires :: int

record hash_row =
  h_verdict :: pystr
  h_threat :: "pystr option"

record tables =
  t_signatures :: "(int \<times> signature_row) list"
  t_ips :: "(pystr \<times> ip_row) list"
  t_hashes :: "(pystr \<times> hash_row) list"
  t_config :: "(pystr \<times> pystr) list"
  t_events :: "(pystr \<times> event) list"

definition empty_tables :: tables where
  "empty_tables = \<lparr>t_signatures = [], t_ips = [], t_hashes = [], t_config = [], t_events = []\<rparr>"

subsection \<open>Writes\<close>

datatype write_op =
    SetIp pystr ip_row
  | DeleteExpired
  | UpsertSignature int pystr pystr pystr
  | Deactivate pystr
  | StoreHash pystr hash_row
  | SetConfig pystr pystr
  | InsertEvent pystr event

text \<open>Executing one queued statement at time \<open>now\<close>; a duplicate event id violates the key.\<close>

fun execute :: "int \<Rightarrow> write_op \<Rightarrow> tables \<Rightarrow> tables result" where
  "execute now (SetIp ip row) t = Inr (t\<lparr>t_ips := AList.update ip row (t_ips t)\<rparr>)"
| "execute now DeleteExpired t = Inr (t\<lparr>t_ips := filter (\<lambda>r. now < ip_expires (snd r)) (t_ips t)\<rparr>)"
| "execute now (UpsertSignature i cve pat sev) t =
     Inr (t\<lparr>t_signatures := AList.update i
        \<lparr>sr_cve_id = cve, sr_pattern = pat, sr_severity = sev, sr_active = True\<rparr> (t_signatures t)\<rparr>)"
| "execute now (Deactivate cve) t =
     Inr (t\<lparr>t_signatures := map (\<lambda>(i, r). (i, if sr_cve_id r = cve then r\<lparr>sr_active := False\<rparr> else r))
        (t_signatures t)\<rparr>)"
| "execute now (StoreHash sha row) t = Inr (t\<lparr>t_hashes := AList.update sha row (t_hashes t)\<rparr>)"
| "execute now (SetConfig k v) t = Inr (t\<lparr>t_config := AList.update k v (t_config t)\<rparr>)"
| "execute now (InsertEvent uid e) t =
     (if map_of (t_events t) uid \<noteq> None then Inl IntegrityError
      else Inr (t\<lparr>t_events := t_events t @ [(uid, e)]\<rparr>))"

text \<open>A batch stops at the first statement that raises; the ones before it stay executed.\<close>

fun execute_batch :: "int \<Rightarrow> write_op list \<Rightarrow> tables \<Rightarrow> tables" where
  "execute_batch now [] t = t"
| "execute_batch now (w # ws) t =
     (case execute now w t of Inl _ \<Rightarrow> t | Inr t' \<Rightarrow> execute_batch now ws t')"

definition QUEUE_SIZE :: nat where
  "QUEUE_SIZE = 10000"

definition WRITE_BATCH :: nat where
  "WRITE_BATCH = 200"

record duckdb =
  st_tables :: tables
  st_queue :: "write_op list"
  st_shared :: bool  \<comment> \<open>the two connections see one database (a file, not \<open>:memory:\<close>)\<close>

definition open_store :: "pystr \<Rightarrow> tables \<Rightarrow> duckdb" where
  "open_store path existing =
     \<lparr>st_tables = (if path = lit '':memory:'' then empty_tables else existing), st_queue = [],
      st_shared = (path \<noteq> lit '':memory:'')\<rparr>"

text \<open>\<open>_enqueue\<close>; the flag says whether the statement was kept.\<close>

definition enqueue :: "write_op \<Rightarrow> duckdb \<Rightarrow> duckdb \<times> bool" where
  "enqueue w s =
     (case put_nowait QUEUE_SIZE w (st_queue s) of
        None \<Rightarrow> (s, False)
      | Some q \<Rightarrow> (s\<lparr>st_queue := q\<rparr>, True))"

text \<open>One round of \<open>_write_loop\<close> on a queue that holds still.\<close>

definition take_batch :: "nat \<Rightarrow> duckdb \<Rightarrow> write_op list \<times> duckdb" where
  "take_batch n s = (let (b, q) = drain n (st_queue s) in (b, s\<lparr>st_queue := q\<rparr>))"

definition write_round :: "int \<Rightarrow> duckdb \<Rightarrow> duckdb" where
  "write_round now s =
     (let (b, s') = take_batch WRITE_BATCH s
      in s'\<lparr>st_tables := execute_batch now b (st_tables s')\<rparr>)"

subsection \<open>Operations\<close>

text \<open>
  A read on the second connection of a \<open>:memory:\<close> database finds no schema and raises.
\<close>

definition read_tables :: "duckdb \<Rightarrow> tables result" where
  "read_tables s = (if st_shared s then Inr (st_tables s) else Inl OtherException)"

definition map_result :: "('a \<Rightarrow> 'b) \<Rightarrow> 'a result \<Rightarrow> 'b result" where
  "map_result f r = (case r of Inl e \<Rightarrow> Inl e | Inr x \<Rightarrow> Inr (f x))"

lemma map_result_simps [simp]: "map_result f (Inl e) = Inl e" "map_result f (Inr x) = Inr (f x)"
  by (simp_all add: map_result_def)

definition get_ip_verdict :: "int \<Rightarrow> pystr \<Rightarrow> duckdb \<Rightarrow> ip_row option result" where
  "get_ip_verdict now ip s =
     map_result (\<lambda>t. case map_of (t_ips t) ip of
          Some r \<Rightarrow> if now < ip_expires r then Some r else None
        | None \<Rightarrow> None) (read_tables s)"

definition set_ip_verdict ::
  "int \<Rightarrow> pystr \<Rightarrow> pystr \<Rightarrow> pystr \<Rightarrow> pystr option \<Rightarrow> int \<Rightarrow> duckdb \<Rightarrow> duckdb" where
  "set_ip_verdict now ip verdict reason cve ttl s =
     fst (enqueue (SetIp ip \<lparr>ip_verdict = verdict, ip_reason = reason, ip_cve_id = cve,
       ip_expires = now + ttl\<rparr>) s)"

definition cleanup_expired_ips :: "duckdb \<Rightarrow> duckdb" where
  "cleanup_expired_ips s = fst (enqueue DeleteExpired s)"

definition get_active_signatures :: "duckdb \<Rightarrow> (int \<times> pystr \<times> pystr \<times> pystr) list result" where
  "get_active_signatures s =
     map_result (\<lambda>t. map (\<lambda>(i, r). (i, sr_cve_id r, sr_pattern r, sr_severity r))
        (filter (\<lambda>(i, r). sr_active r) (t_signatures t))) (read_tables s)"

definition upsert_signature :: "int \<Rightarrow> pystr \<Rightarrow> pystr \<Rightarrow> pystr \<Rightarrow> duckdb \<Rightarrow> duckdb" where
  "upsert_signature i cve pat sev s = fst (enqueue (UpsertSignature i cve pat sev) s)"

definition deactivate_signature :: "pystr \<Rightarrow> duckdb \<Rightarrow> duckdb" where
  "deactivate_signature cve s = fst (enqueue (Deactivate cve) s)"

definition get_file_hash :: "pystr \<Rightarrow> duckdb \<Rightarrow> hash_row option result" where
  "get_file_hash sha s = map_result (\<lambda>t. map_of (t_hashes t) sha) (read_tables s)"

definition store_file_hash :: "pystr \<Rightarrow> pystr \<Rightarrow> pystr option \<Rightarrow> duckdb \<Rightarrow> duckdb" where
  "store_file_hash sha verdict threat s =
     fst (enqueue (StoreHash sha \<lparr>h_verdict = verdict, h_threat = threat\<rparr>) s)"

definition get_config :: "pystr \<Rightarrow> duckdb \<Rightarrow> pystr option result" where
  "get_config k s = map_result (\<lambda>t. map_of (t_config t) k) (read_tables s)"

definition set_config :: "pystr \<Rightarrow> pystr \<Rightarrow> duckdb \<Rightarrow> duckdb" where
  "set_config k v s = fst (enqueue (SetConfig k v) s)"

definition store_event :: "pystr \<Rightarrow> event \<Rightarrow> duckdb \<Rightarrow> duckdb" where
  "store_event uid e s =
     fst (enqueue (InsertEvent uid
       (e\<lparr>ev_uri := take 2000 (ev_uri e), ev_reason := take 1000 (ev_reason e)\<rparr>)) s)"

text \<open>
  \<open>ORDER BY created_at DESC LIMIT\<close>: rows get their time when the single writer inserts them, so
  the newest are the last of the list.
\<close>

definition get_recent_events :: "nat \<Rightarrow> pystr option \<Rightarrow> duckdb \<Rightarrow> event list result" where
  "get_recent_events limit action s =
     map_result (\<lambda>t. take limit (rev (filter
        (\<lambda>e. case action of None \<Rightarrow> True | Some a \<Rightarrow> a = [] \<or> ev_action e = a)
        (map snd (t_events t))))) (read_tables s)"

definition cve_counts :: "event list \<Rightarrow> (pystr \<times> nat) list" where
  "cve_counts es =
     (let ids = List.map_filter ev_cve_id es
      in map (\<lambda>c. (c, count_list ids c)) (remdups ids))"

record store_stats =
  ss_total :: nat
  ss_blocked :: nat
  ss_permitted :: nat
  ss_top_cves :: "(pystr \<times> nat) list"

definition get_stats :: "duckdb \<Rightarrow> store_stats result" where
  "get_stats s =
     map_result (\<lambda>t. let es = map snd (t_events t);
                        total = length es;
                        blocked = length (filter (\<lambda>e. ev_action e = lit ''BLOCK'') es)
        in \<lparr>ss_total = total, ss_blocked = blocked, ss_permitted = total - blocked,
            ss_top_cves = take 5 (rev (sort_key snd (cve_counts es)))\<rparr>) (read_tables s)"

subsection \<open>The queue contract\<close>

interpretation wq: bounded_buffer QUEUE_SIZE st_queue enqueue take_batch
  by unfold_locales
    (auto simp: enqueue_def take_batch_def put_nowait_def drain_eq split: if_splits)

lemma enqueue_keeps [simp]:
  "st_tables (fst (enqueue w s)) = st_tables s" "st_shared (fst (enqueue w s)) = st_shared s"
  by (simp_all add: enqueue_def split: option.splits)

lemma enqueue_queue:
  "st_queue (fst (enqueue w s)) = st_queue s @ (if room QUEUE_SIZE (st_queue s) then [w] else [])"
  using wq.offer_items [of w s "fst (enqueue w s)" "snd (enqueue w s)"] by (auto split: if_splits)

lemma write_round_simps [simp]:
  "st_queue (write_round now s) = drop WRITE_BATCH (st_queue s)"
  "st_tables (write_round now s) = execute_batch now (take WRITE_BATCH (st_queue s)) (st_tables s)"
  "st_shared (write_round now s) = st_shared s"
  by (simp_all add: write_round_def take_batch_def drain_eq Let_def)

subsection \<open>Well-formed tables\<close>

text \<open>Primary keys are unique.\<close>

definition wf_tables :: "tables \<Rightarrow> bool" where
  "wf_tables t \<longleftrightarrow>
     distinct (map fst (t_signatures t)) \<and> distinct (map fst (t_ips t)) \<and>
     distinct (map fst (t_hashes t)) \<and> distinct (map fst (t_config t)) \<and>
     distinct (map fst (t_events t))"

lemma distinct_map_filter_fst: "distinct (map fst xs) \<Longrightarrow> distinct (map fst (filter P xs))"
  by (induction xs) auto

lemma wf_execute: "execute now w t = Inr t' \<Longrightarrow> wf_tables t \<Longrightarrow> wf_tables t'"
  by (cases w) (auto simp: wf_tables_def distinct_update distinct_map_filter_fst comp_def
      map_of_eq_None_iff case_prod_unfold split: if_splits)

lemma wf_execute_batch: "wf_tables t \<Longrightarrow> wf_tables (execute_batch now ws t)"
  by (induction ws arbitrary: t) (auto split: sum.splits dest: wf_execute)

subsection \<open>What a drained queue leaves\<close>

definition event_ids :: "write_op list \<Rightarrow> pystr list" where
  "event_ids ws = List.map_filter (\<lambda>w. case w of InsertEvent uid e \<Rightarrow> Some uid | _ \<Rightarrow> None) ws"

definition hash_writes :: "write_op list \<Rightarrow> (pystr \<times> hash_row) list" where
  "hash_writes ws = List.map_filter (\<lambda>w. case w of StoreHash sha r \<Rightarrow> Some (sha, r) | _ \<Rightarrow> None) ws"

lemma event_ids_simps [simp]:
  "event_ids [] = []"
  "event_ids (w # ws) = (case w of InsertEvent uid e \<Rightarrow> [uid] | _ \<Rightarrow> []) @ event_ids ws"
  by (auto simp: event_ids_def List.map_filter_def split: write_op.splits)

lemma hash_writes_simps [simp]:
  "hash_writes [] = []"
  "hash_writes (w # ws) = (case w of StoreHash sha r \<Rightarrow> [(sha, r)] | _ \<Rightarrow> []) @ hash_writes ws"
  by (auto simp: hash_writes_def List.map_filter_def split: write_op.splits)

lemma hash_writes_append: "hash_writes (xs @ ys) = hash_writes xs @ hash_writes ys"
  by (induction xs) auto

lemma event_ids_append: "event_ids (xs @ ys) = event_ids xs @ event_ids ys"
  by (induction xs) auto

definition fresh_ids :: "write_op list \<Rightarrow> tables \<Rightarrow> bool" where
  "fresh_ids ws t \<longleftrightarrow> distinct (event_ids ws) \<and> set (event_ids ws) \<inter> fst ` set (t_events t) = {}"

lemma execute_fresh:
  assumes "fresh_ids (w # ws) t"
  obtains t' where "execute now w t = Inr t'" "fresh_ids ws t'"
    "map_of (t_hashes t') = map_of (t_hashes t) ++ map_of (rev (hash_writes [w]))"
  using assms
  by (cases w) (auto simp: fresh_ids_def map_of_eq_None_iff update_conv')

lemma execute_batch_hashes:
  "fresh_ids ws t \<Longrightarrow>
     map_of (t_hashes (execute_batch now ws t)) = map_of (t_hashes t) ++ map_of (rev (hash_writes ws))"
proof (induction ws arbitrary: t)
  case (Cons w ws)
  obtain t' where t': "execute now w t = Inr t'" "fresh_ids ws t'"
    "map_of (t_hashes t') = map_of (t_hashes t) ++ map_of (rev (hash_writes [w]))"
    using Cons.prems by (rule execute_fresh)
  with Cons.IH [OF t'(2)] show ?case
    by (simp add: map_add_assoc del: map_add_assoc [symmetric])
qed simp

lemma execute_batch_append:
  "fresh_ids (ws @ vs) t \<Longrightarrow>
     execute_batch now (ws @ vs) t = execute_batch now vs (execute_batch now ws t) \<and>
     fresh_ids vs (execute_batch now ws t)"
proof (induction ws arbitrary: t)
  case (Cons w ws)
  obtain t' where t': "execute now w t = Inr t'" "fresh_ids (ws @ vs) t'"
    using Cons.prems by (auto elim: execute_fresh)
  with Cons.IH [OF t'(2)] show ?case by simp
qed simp

lemma write_rounds:
  "fresh_ids (st_queue s) (st_tables s) \<Longrightarrow> length (st_queue s) \<le> WRITE_BATCH * n \<Longrightarrow>
     st_queue ((write_round now ^^ n) s) = [] \<and>
     st_tables ((write_round now ^^ n) s) = execute_batch now (st_queue s) (st_tables s) \<and>
     st_shared ((write_round now ^^ n) s) = st_shared s"
proof (induction n arbitrary: s)
  case (Suc n)
  let ?q = "st_queue s"
  have split: "take WRITE_BATCH ?q @ drop WRITE_BATCH ?q = ?q" by simp
  from execute_batch_append [of "take WRITE_BATCH ?q" "drop WRITE_BATCH ?q" "st_tables s" now]
    Suc.prems(1) have
    "execute_batch now ?q (st_tables s) =
       execute_batch now (drop WRITE_BATCH ?q) (st_tables (write_round now s))"
    "fresh_ids (st_queue (write_round now s)) (st_tables (write_round now s))"
    by (simp_all add: split)
  moreover have "length (st_queue (write_round now s)) \<le> WRITE_BATCH * n"
    using Suc.prems(2) by simp
  ultimately show ?case
    using Suc.IH [of "write_round now s"] by (simp add: funpow_swap1)
qed simp

lemma funpow_write_round_split:
  assumes "fresh_ids (st_queue s) (st_tables s)" "length (st_queue s) \<le> WRITE_BATCH * n" "st_shared s"
  shows "get_file_hash sha ((write_round now ^^ n) s) =
    Inr ((map_of (t_hashes (st_tables s)) ++ map_of (rev (hash_writes (st_queue s)))) sha)"
  using write_rounds [OF assms(1,2), of now] execute_batch_hashes [OF assms(1)] assms(3)
  by (simp add: get_file_hash_def read_tables_def)

lemma map_of_filter_snd:
  "distinct (map fst xs) \<Longrightarrow>
     map_of (filter (\<lambda>r. P (snd r)) xs) k = (case map_of xs k of None \<Rightarrow> None | Some v \<Rightarrow> if P v then Some v else None)"
  by (induction xs) (auto split: option.splits simp: map_of_eq_None_iff)

subsection \<open>Properties\<close>

text \<open>
  C32: The file-hash cache is write-behind and coherent: after a verdict was stored while the queue
  had room, and the writer ran often enough to empty the queue (200 statements a round), a lookup
  returns that verdict for the hash, and for every other hash the last verdict queued for it, or
  else the one the table held before. Event statements in the queue must have fresh ids; a
  duplicate id makes the writer abandon the rest of its batch.
\<close>

theorem store_hash_cache_coherent:
  assumes "st_shared s" "room QUEUE_SIZE (st_queue s)" "fresh_ids (st_queue s) (st_tables s)"
    "length (st_queue s) < WRITE_BATCH * n"
  shows "get_file_hash key ((write_round now ^^ n) (store_file_hash sha verdict threat s)) =
    Inr (if key = sha then Some \<lparr>h_verdict = verdict, h_threat = threat\<rparr>
         else (map_of (t_hashes (st_tables s)) ++ map_of (rev (hash_writes (st_queue s)))) key)"
proof -
  let ?w = "StoreHash sha \<lparr>h_verdict = verdict, h_threat = threat\<rparr>"
  let ?s = "store_file_hash sha verdict threat s"
  have q: "st_queue ?s = st_queue s @ [?w]" "st_tables ?s = st_tables s" "st_shared ?s"
    using assms(1,2) by (simp_all add: store_file_hash_def enqueue_queue)
  moreover have "fresh_ids (st_queue s @ [?w]) (st_tables s)"
    using assms(3) by (simp add: fresh_ids_def event_ids_append)
  ultimately show ?thesis
    using assms(4) funpow_write_round_split [of ?s n key now] by (simp add: hash_writes_append)
qed

theorem store_hash_cache_coherent_witness:
  "get_file_hash [2] ((write_round 5 ^^ 1) (store_file_hash [1] (lit ''CLEAN'') None
     (open_store (lit ''/var/lib/aiss/aiss.duckdb'') empty_tables))) = Inr None"
proof -
  let ?s = "open_store (lit ''/var/lib/aiss/aiss.duckdb'') empty_tables"
  have "st_shared ?s" "st_queue ?s = []" "st_tables ?s = empty_tables"
    by (simp_all add: open_store_def lit_def)
  then show ?thesis
    by (subst store_hash_cache_coherent)
      (simp_all add: room_def QUEUE_SIZE_def fresh_ids_def WRITE_BATCH_def empty_tables_def)
qed

text \<open>The states the store can reach from a database whose keys are unique.\<close>

inductive store_reach :: "duckdb \<Rightarrow> bool" where
  reach_open: "wf_tables existing \<Longrightarrow> store_reach (open_store path existing)"
| reach_enqueue: "store_reach s \<Longrightarrow> store_reach (fst (enqueue w s))"
| reach_round: "store_reach s \<Longrightarrow> store_reach (write_round now s)"

text \<open>
  Whatever is enqueued and whenever the writer runs, the write queue never exceeds 10000
  statements and every table keeps its primary keys unique.
\<close>

theorem store_reachable_invariant:
  assumes "store_reach s"
  shows "wf_tables (st_tables s) \<and> length (st_queue s) \<le> QUEUE_SIZE"
  using assms
proof induction
  case (reach_open existing path)
  then show ?case by (simp add: open_store_def wf_tables_def empty_tables_def)
next
  case (reach_enqueue s w)
  then show ?case by (auto simp: enqueue_queue room_def QUEUE_SIZE_def)
next
  case (reach_round s now)
  then show ?case by (auto intro: wf_execute_batch)
qed

theorem store_reachable_invariant_witness:
  "length (st_queue (write_round 7 (fst (enqueue DeleteExpired (open_store (lit ''db'') empty_tables))))) \<le>
     QUEUE_SIZE"
proof -
  have "wf_tables empty_tables" by (simp add: wf_tables_def empty_tables_def)
  then have "store_reach (write_round 7 (fst (enqueue DeleteExpired (open_store (lit ''db'') empty_tables))))"
    by (intro reach_round reach_enqueue reach_open)
  from store_reachable_invariant [OF this] show ?thesis by simp
qed

text \<open>
  An expired IP verdict is never returned, and cleaning up expired rows is invisible to every
  later lookup.
\<close>

theorem store_ip_expiry:
  assumes "st_shared s" "wf_tables (st_tables s)" "st_queue s = []" "now \<le> later"
  shows "get_ip_verdict later ip (write_round now (cleanup_expired_ips s)) = get_ip_verdict later ip s \<and>
    (\<forall>r. get_ip_verdict later ip s = Inr (Some r) \<longrightarrow> later < ip_expires r)"
proof -
  have "st_queue (cleanup_expired_ips s) = [DeleteExpired]"
    using assms(3) by (simp add: cleanup_expired_ips_def enqueue_queue room_def QUEUE_SIZE_def)
  moreover have "take WRITE_BATCH [DeleteExpired] = [DeleteExpired]" by (simp add: WRITE_BATCH_def)
  moreover have "st_tables (cleanup_expired_ips s) = st_tables s" "st_shared (cleanup_expired_ips s)"
    using assms(1) by (simp_all add: cleanup_expired_ips_def)
  moreover have "map_of (filter (\<lambda>r. now < ip_expires (snd r)) (t_ips (st_tables s))) ip =
      (case map_of (t_ips (st_tables s)) ip of
         None \<Rightarrow> None | Some v \<Rightarrow> if now < ip_expires v then Some v else None)"
    using assms(2) by (intro map_of_filter_snd) (simp add: wf_tables_def)
  ultimately show ?thesis
    using assms(1,4)
    by (cases "map_of (t_ips (st_tables s)) ip") (auto simp: get_ip_verdict_def read_tables_def)
qed

theorem store_ip_expiry_witness:
  "get_ip_verdict 9 [1] (write_round 5 (cleanup_expired_ips (open_store (lit ''db'') empty_tables))) =
     get_ip_verdict 9 [1] (open_store (lit ''db'') empty_tables)"
  by (rule conjunct1 [OF store_ip_expiry])
    (simp_all add: open_store_def lit_def wf_tables_def empty_tables_def)

text \<open>With the default path the reading connection never sees the schema.\<close>

lemma memory_store_unreadable:
  "get_file_hash sha ((write_round now ^^ n) (store_file_hash k v t (open_store (lit '':memory:'') x))) =
     Inl OtherException"
proof -
  have "st_shared ((write_round now ^^ n) s) = st_shared s" for s by (induction n) auto
  then show ?thesis
    by (simp add: get_file_hash_def read_tables_def store_file_hash_def open_store_def)
qed

end
