(* ===== verification/Telemetry.thy ===== *)
theory Telemetry
  imports Store
begin

text \<open>
  The telemetry buffer, \<open>agent/telemetry/buffer.py\<close>: the pipeline sends events without waiting, a
  background thread drains them in batches into the local store and to the server. The server call
  is a parameter that says whether it returned; how many items a drain gets before its deadline is
  the parameter \<open>k\<close>.
\<close>

record tcfg =
  tc_capacity :: nat
  tc_batch_size :: nat
  tc_has_db :: bool
  tc_flush_fn :: "(event list \<Rightarrow> bool) option"

record telemetry =
  tl_queue :: "event list"
  tl_dropped :: nat
  tl_flushed :: nat
  tl_shutdown :: bool
  tl_stored :: "event list"        \<comment> \<open>the events passed to \<open>store_event\<close>, in order\<close>
  tl_sent :: "event list list"     \<comment> \<open>the batches the server took\<close>

definition start_telemetry :: telemetry where
  "start_telemetry =
     \<lparr>tl_queue = [], tl_dropped = 0, tl_flushed = 0, tl_shutdown = False, tl_stored = [], tl_sent = []\<rparr>"

definition send :: "tcfg \<Rightarrow> event \<Rightarrow> telemetry \<Rightarrow> telemetry \<times> bool" where
  "send cfg e s =
     (case put_nowait (tc_capacity cfg) e (tl_queue s) of
        Some q \<Rightarrow> (s\<lparr>tl_queue := q\<rparr>, True)
      | None \<Rightarrow> (s\<lparr>tl_dropped := Suc (tl_dropped s)\<rparr>, False))"

definition drain_batch :: "tcfg \<Rightarrow> nat \<Rightarrow> telemetry \<Rightarrow> event list \<times> telemetry" where
  "drain_batch cfg k s =
     (let (b, q) = drain (min (tc_batch_size cfg) k) (tl_queue s) in (b, s\<lparr>tl_queue := q\<rparr>))"

definition flush :: "tcfg \<Rightarrow> event list \<Rightarrow> telemetry \<Rightarrow> telemetry" where
  "flush cfg batch s =
     (let s1 = (if tc_has_db cfg then s\<lparr>tl_stored := tl_stored s @ batch\<rparr> else s)
      in case tc_flush_fn cfg of
           None \<Rightarrow> s1
         | Some f \<Rightarrow>
             (if f batch then
                s1\<lparr>tl_sent := tl_sent s1 @ [batch], tl_flushed := tl_flushed s1 + length batch\<rparr>
              else s1))"

text \<open>One round of the thread; \<open>None\<close> once it has seen the shutdown flag.\<close>

definition flush_round :: "tcfg \<Rightarrow> nat \<Rightarrow> telemetry \<Rightarrow> telemetry option" where
  "flush_round cfg k s =
     (if tl_shutdown s then None
      else let (b, s') = drain_batch cfg k s in Some (if b = [] then s' else flush cfg b s'))"

definition stop :: "tcfg \<Rightarrow> nat \<Rightarrow> telemetry \<Rightarrow> telemetry" where
  "stop cfg k s =
     (let (b, s') = drain_batch cfg k (s\<lparr>tl_shutdown := True\<rparr>)
      in if b = [] then s' else flush cfg b s')"

definition telemetry_stats :: "telemetry \<Rightarrow> nat \<times> nat \<times> nat" where
  "telemetry_stats s = (length (tl_queue s), tl_flushed s, tl_dropped s)"

interpretation tq: bounded_buffer "tc_capacity cfg" tl_queue "send cfg" "drain_batch cfg" for cfg
  by unfold_locales
    (auto simp: send_def drain_batch_def put_nowait_def drain_eq split: if_splits)

subsection \<open>Runs\<close>

text \<open>
  A run from the start: the events accepted so far, the number refused, and the state. The
  producer, the thread and the shutdown interleave in any order.
\<close>

inductive trun :: "tcfg \<Rightarrow> event list \<Rightarrow> nat \<Rightarrow> telemetry \<Rightarrow> bool" for cfg where
  trun_start: "trun cfg [] 0 start_telemetry"
| trun_send: "trun cfg acc rej s \<Longrightarrow> send cfg e s = (s', ok) \<Longrightarrow>
    trun cfg (if ok then acc @ [e] else acc) (if ok then rej else Suc rej) s'"
| trun_round: "trun cfg acc rej s \<Longrightarrow> flush_round cfg k s = Some s' \<Longrightarrow> trun cfg acc rej s'"
| trun_stop: "trun cfg acc rej s \<Longrightarrow> trun cfg acc rej (stop cfg k s)"

text \<open>What a round does to the state: a front part of the queue is flushed.\<close>

lemma flush_simps [simp]:
  "tl_queue (flush cfg b s) = tl_queue s" "tl_dropped (flush cfg b s) = tl_dropped s"
  "tl_stored (flush cfg b s) = tl_stored s @ (if tc_has_db cfg then b else [])"
  "tl_shutdown (flush cfg b s) = tl_shutdown s"
  by (simp_all add: flush_def Let_def split: option.splits)

lemma flush_counts:
  "tl_flushed s = sum_list (map length (tl_sent s)) \<Longrightarrow>
     tl_flushed (flush cfg b s) = sum_list (map length (tl_sent (flush cfg b s)))"
  by (simp add: flush_def Let_def split: option.splits)

definition consistent :: "tcfg \<Rightarrow> event list \<Rightarrow> nat \<Rightarrow> telemetry \<Rightarrow> bool" where
  "consistent cfg acc rej s \<longleftrightarrow>
     (tc_has_db cfg \<longrightarrow> tl_stored s @ tl_queue s = acc) \<and> tl_dropped s = rej \<and>
     tl_flushed s = sum_list (map length (tl_sent s)) \<and>
     (0 < tc_capacity cfg \<longrightarrow> length (tl_queue s) \<le> tc_capacity cfg)"

lemma consistent_drain:
  assumes "consistent cfg acc rej s" "drain_batch cfg k s = (b, s')"
  shows "consistent cfg acc rej (if b = [] then s' else flush cfg b s')"
proof -
  have "tl_queue s = b @ tl_queue s'" using assms(2) by (rule tq.drain_front)
  moreover have "s' = s\<lparr>tl_queue := tl_queue s'\<rparr>"
    using assms(2) by (auto simp: drain_batch_def drain_eq)
  then have "tl_stored s' = tl_stored s" "tl_dropped s' = tl_dropped s" "tl_flushed s' = tl_flushed s"
    "tl_sent s' = tl_sent s" by (metis telemetry.ext_inject telemetry.surjective telemetry.update_convs(1))+
  ultimately show ?thesis
    using assms(1) flush_counts [of s' cfg b] by (auto simp: consistent_def)
qed

lemma consistent_shutdown: "consistent cfg acc rej (s\<lparr>tl_shutdown := True\<rparr>) = consistent cfg acc rej s"
  by (simp add: consistent_def)

lemma consistent_send:
  assumes "consistent cfg acc rej s" "send cfg e s = (s', ok)"
  shows "consistent cfg (if ok then acc @ [e] else acc) (if ok then rej else Suc rej) s'"
  using assms
  by (auto simp: consistent_def send_def put_nowait_def room_def split: if_splits option.splits)

lemma trun_consistent: "trun cfg acc rej s \<Longrightarrow> consistent cfg acc rej s"
proof (induction rule: trun.induct)
  case trun_start
  then show ?case by (simp add: consistent_def start_telemetry_def)
next
  case (trun_send acc rej s e s' ok)
  then show ?case by (blast intro: consistent_send)
next
  case (trun_round acc rej s k s')
  then show ?case
    by (cases "drain_batch cfg k s") (auto simp: flush_round_def split: if_splits dest: consistent_drain)
next
  case (trun_stop acc rej s k)
  then have "consistent cfg acc rej (s\<lparr>tl_shutdown := True\<rparr>)" by (simp add: consistent_shutdown)
  then show ?case
    by (cases "drain_batch cfg k (s\<lparr>tl_shutdown := True\<rparr>)") (auto simp: stop_def dest: consistent_drain)
qed

subsection \<open>Properties\<close>


definition demo_event :: event where
  "demo_event =
     \<lparr>ev_request_id = [1], ev_client_ip = [2], ev_method = lit ''GET'', ev_uri = lit ''/'',
      ev_action = lit ''PERMIT'', ev_tier = 0, ev_cve_id = None, ev_rule_name = None, ev_reason = [],
      ev_ml_score = 0, ev_latency = 0\<rparr>"

definition demo_tcfg :: tcfg where
  "demo_tcfg = \<lparr>tc_capacity = 1, tc_batch_size = 1, tc_has_db = True, tc_flush_fn = None\<rparr>"

definition one_queued :: telemetry where
  "one_queued = start_telemetry\<lparr>tl_queue := [demo_event]\<rparr>"

lemma one_queued_run: "trun demo_tcfg [demo_event] 0 one_queued"
proof -
  have "send demo_tcfg demo_event start_telemetry = (one_queued, True)"
    by (simp add: send_def put_nowait_def room_def demo_tcfg_def start_telemetry_def one_queued_def)
  from trun_send [OF trun_start this] show ?thesis by simp
qed


text \<open>
  Shutdown flushes one batch only. When more than a batch is queued, \<open>stop\<close> leaves the rest in
  the queue, and the thread, which checks the flag before it drains, flushes nothing more.
\<close>

theorem telemetry_stop_leaves_events:
  assumes "tc_batch_size cfg < length (tl_queue s)"
  shows "tl_queue (stop cfg k s) \<noteq> [] \<and> flush_round cfg j (stop cfg k s) = None"
  using assms by (auto simp: stop_def drain_batch_def drain_eq flush_round_def Let_def)

theorem telemetry_stop_leaves_events_witness:
  "tl_queue (stop demo_tcfg 5 (start_telemetry\<lparr>tl_queue := [demo_event, demo_event]\<rparr>)) \<noteq> []"
  by (rule conjunct1 [OF telemetry_stop_leaves_events]) (simp add: demo_tcfg_def)

end
