(* ===== verification/Pipeline.thy ===== *)
theory Pipeline
  imports Tier1 Tier2 Tier3 Content Telemetry
begin

text \<open>
  The agent's orchestrator, \<open>agent/security/pipeline.py\<close>: static skip, Tier 1, Tier 2, content
  inspection, Tier 3, verdict and telemetry. What the code reads from its environment is in the
  configuration: the SHA-256 function, the text of the ML reason (it formats floats), whether the
  YARA library is installed, and how far the store's writer thread gets before the n-th cache
  lookup of a request.
\<close>

subsection \<open>Verdicts, configuration, state\<close>

datatype action = PERMIT | BLOCK

record verdict =
  v_action :: action
  v_tier :: nat
  v_cve_id :: "pystr option"
  v_rule_name :: "pystr option"
  v_reason :: pystr
  v_ml_score :: dbl
  v_latency :: int
  v_sha256 :: "pystr option"

record pcfg =
  pc_mode :: pystr
  pc_threshold :: dbl
  pc_ml_text :: "ml_result \<Rightarrow> pystr"
  pc_sha256 :: "bytes \<Rightarrow> pystr"
  pc_yara_available :: bool
  pc_writer :: "nat \<Rightarrow> duckdb \<Rightarrow> duckdb"
  pc_telemetry :: tcfg

record pstate =
  ps_patterns :: "cve_pattern list"
  ps_yara :: "yara_rules option"
  ps_db :: "duckdb option"
  ps_telemetry :: "telemetry option"

definition FULL_SCAN_LIMIT :: nat where
  "FULL_SCAN_LIMIT = 10 * 1024"

definition SAMPLE_SCAN_LIMIT :: nat where
  "SAMPLE_SCAN_LIMIT = 1 * 1024 * 1024"

subsection \<open>Helpers\<close>

definition STATIC_EXTENSIONS :: "pystr list" where
  "STATIC_EXTENSIONS =
     map lit [''.jpg'', ''.jpeg'', ''.png'', ''.gif'', ''.webp'', ''.svg'', ''.ico'', ''.css'', ''.js'', ''.mjs'',
              ''.woff'', ''.woff2'', ''.ttf'', ''.eot'', ''.mp4'', ''.mp3'', ''.wav'', ''.ogg'', ''.webm'',
              ''.pdf'', ''.zip'']"

definition is_static_file :: "pystr \<Rightarrow> bool" where
  "is_static_file uri =
     (uri \<noteq> [] \<and> list_ex (endswith (py_lower (before_first 63 uri))) STATIC_EXTENSIONS)"

definition inspect_types :: "pystr list" where
  "inspect_types =
     map lit [''application/x-www-form-urlencoded'', ''application/json'', ''application/xml'', ''text/xml'',
              ''text/plain'', ''application/octet-stream'', ''multipart/form-data'']"

definition should_inspect_content :: "pystr \<Rightarrow> bool" where
  "should_inspect_content ct = list_ex (\<lambda>t. contains t (py_lower ct)) inspect_types"

definition build_scan_data :: "request \<Rightarrow> pystr" where
  "build_scan_data r =
     join_nonempty
       ([uri_of r, query_of r, header_of r (lit ''user-agent''), header_of r (lit ''referer''),
         header_of r (lit ''cookie'')] @ [take 2048 (body_text r)])"

definition em_dash :: pystr where
  "em_dash = [32, 8212, 32]"

text \<open>\<open>_make_verdict\<close>: shadow mode permits and marks the reason.\<close>

definition make_verdict ::
  "pcfg \<Rightarrow> int \<Rightarrow> action \<Rightarrow> nat \<Rightarrow> pystr option \<Rightarrow> pystr option \<Rightarrow> pystr \<Rightarrow> dbl \<Rightarrow> pystr option \<Rightarrow> verdict" where
  "make_verdict cfg lat act tier cve rule reason score sha =
     \<lparr>v_action = (if pc_mode cfg = lit ''shadow'' then PERMIT else act),
      v_tier = tier, v_cve_id = cve, v_rule_name = rule,
      v_reason = (if pc_mode cfg = lit ''shadow'' \<and> act = BLOCK
                  then lit ''[SHADOW] Would block: '' @ reason else reason),
      v_ml_score = score, v_latency = lat, v_sha256 = sha\<rparr>"

definition prepare_full_scan :: "bytes \<Rightarrow> pystr \<Rightarrow> bytes list" where
  "prepare_full_scan body ct =
     [body] @
     (case decode_body_if_base64 body ct of Some (c # cs) \<Rightarrow> [c # cs] | _ \<Rightarrow> []) @
     extract_b64_candidates body"

text \<open>\<open>body[:4096]\<close>, \<open>body[max(0, mid - 2048):mid + 2048]\<close>, \<open>body[-4096:]\<close>.\<close>

definition prepare_sampled_scan :: "bytes \<Rightarrow> bytes list" where
  "prepare_sampled_scan body =
     (let size = length body; mid = size div 2
      in [take 4096 body,
          take (mid + 2048 - (mid - 2048)) (drop (mid - 2048) body),
          drop (size - 4096) body])"

subsection \<open>Content inspection\<close>

definition cache_lookup :: "pystr \<Rightarrow> duckdb option \<Rightarrow> hash_row option result" where
  "cache_lookup sha db = (case db of None \<Rightarrow> Inr None | Some s \<Rightarrow> get_file_hash sha s)"

definition cache_store :: "pystr \<Rightarrow> pystr \<Rightarrow> pystr option \<Rightarrow> duckdb option \<Rightarrow> duckdb option" where
  "cache_store sha verdict threat db = map_option (store_file_hash sha verdict threat) db"

text \<open>
  The checks on one target that is not in the cache: the blocking verdict, if any, and the cache
  entry it leaves. The entropy verdict is only logged.
\<close>

definition scan_target ::
  "pcfg \<Rightarrow> yara_rules option \<Rightarrow> int \<Rightarrow> pystr \<Rightarrow> bytes \<Rightarrow> pystr \<Rightarrow> duckdb option \<Rightarrow>
     verdict option \<times> duckdb option" where
  "scan_target cfg yara lat ct target sha db =
     (let magic = validate_content_type target ct
      in if mv_should_block magic then
           (Some (make_verdict cfg lat BLOCK 4 None None (mv_reason magic) 0 (Some sha)),
            cache_store sha (lit ''MALICIOUS'') (Some (mv_reason magic)) db)
         else case (if yara_is_ready (pc_yara_available cfg) yara
                    then yara_scan (pc_yara_available cfg) yara target else None) of
                Some m \<Rightarrow>
                  (Some (make_verdict cfg lat BLOCK 4 None (Some (y_rule m))
                     (lit ''YARA rule matched: '' @ y_rule m @ em_dash @ get_or [] (y_description m))
                     0 (Some sha)),
                   cache_store sha (lit ''MALICIOUS'') (Some (y_rule m)) db)
              | None \<Rightarrow> (None, cache_store sha (lit ''CLEAN'') None db))"

text \<open>The loop over the targets; \<open>i\<close> counts them for the writer's progress.\<close>

fun inspect_targets ::
  "pcfg \<Rightarrow> yara_rules option \<Rightarrow> int \<Rightarrow> pystr \<Rightarrow> nat \<Rightarrow> bytes list \<Rightarrow> duckdb option \<Rightarrow>
     verdict option result \<times> duckdb option" where
  "inspect_targets cfg yara lat ct i [] db = (Inr None, db)"
| "inspect_targets cfg yara lat ct i (target # ts) db =
     (if target = [] then inspect_targets cfg yara lat ct (Suc i) ts db
      else
        let sha = pc_sha256 cfg target;
            db1 = map_option (pc_writer cfg i) db
        in case cache_lookup sha db1 of
             Inl e \<Rightarrow> (Inl e, db1)
           | Inr (Some row) \<Rightarrow>
               (Inr (if h_verdict row = lit ''MALICIOUS'' then
                       Some (make_verdict cfg lat BLOCK 4 None (h_threat row)
                         (lit ''Known malicious file hash (SHA-256: '' @ take 16 sha @ lit ''...)'')
                         0 (Some sha))
                     else None), db1)
           | Inr None \<Rightarrow>
               (case scan_target cfg yara lat ct target sha db1 of
                  (Some v, db2) \<Rightarrow> (Inr (Some v), db2)
                | (None, db2) \<Rightarrow> inspect_targets cfg yara lat ct (Suc i) ts db2))"

definition inspect_content ::
  "pcfg \<Rightarrow> yara_rules option \<Rightarrow> int \<Rightarrow> bytes \<Rightarrow> pystr \<Rightarrow> duckdb option \<Rightarrow>
     verdict option result \<times> duckdb option" where
  "inspect_content cfg yara lat body ct db =
     (if length body \<le> FULL_SCAN_LIMIT then
        inspect_targets cfg yara lat ct 0 (prepare_full_scan body ct) db
      else if length body \<le> SAMPLE_SCAN_LIMIT then
        inspect_targets cfg yara lat ct 0 (prepare_sampled_scan body) db
      else (Inr None, db))"

subsection \<open>The check\<close>

definition body_bytes :: "request \<Rightarrow> bytes result" where
  "body_bytes r =
     (case rq_body r of
        None \<Rightarrow> Inr []
      | Some (BBytes b) \<Rightarrow> Inr b
      | Some (BStr s) \<Rightarrow> encode_utf8 s)"

text \<open>Tiers 1 and 2, on the request alone.\<close>

definition early_tiers :: "pcfg \<Rightarrow> cve_pattern list \<Rightarrow> int \<Rightarrow> request \<Rightarrow> verdict option" where
  "early_tiers cfg ps lat r =
     (case scan ps (build_scan_data r) of
        Some p \<Rightarrow>
          Some (make_verdict cfg lat BLOCK 1 (Some (p_cve_id p)) None
            (lit ''CVE pattern match: '' @ p_name p @ em_dash @ p_description p) 0 None)
      | None \<Rightarrow>
          (case check_sqli (extract_inputs r) of
             Some d \<Rightarrow> Some (make_verdict cfg lat BLOCK 2 (Some (lit ''GENERIC-SQLI'')) None (d_detail d) 0 None)
           | None \<Rightarrow>
               (case check_xss (extract_inputs r) of
                  Some d \<Rightarrow>
                    Some (make_verdict cfg lat BLOCK 2 (Some (lit ''GENERIC-XSS'')) None (d_detail d) 0 None)
                | None \<Rightarrow> None)))"

definition content_tier ::
  "pcfg \<Rightarrow> yara_rules option \<Rightarrow> int \<Rightarrow> request \<Rightarrow> duckdb option \<Rightarrow>
     verdict option result \<times> duckdb option" where
  "content_tier cfg yara lat r db =
     (case body_bytes r of
        Inl e \<Rightarrow> (Inl e, db)
      | Inr body \<Rightarrow>
          (if body \<noteq> [] \<and> should_inspect_content (ctype_of r)
           then inspect_content cfg yara lat body (ctype_of r) db
           else (Inr None, db)))"

definition final_tier :: "pcfg \<Rightarrow> int \<Rightarrow> request \<Rightarrow> verdict" where
  "final_tier cfg lat r =
     (let ml = ml_score (pc_threshold cfg) r
      in if m_action ml = ML_BLOCK then
           make_verdict cfg lat BLOCK 3 None None (pc_ml_text cfg ml) (m_score ml) None
         else
           \<lparr>v_action = PERMIT, v_tier = 0, v_cve_id = None, v_rule_name = None,
            v_reason = lit ''All security checks passed'', v_ml_score = m_score ml, v_latency = lat,
            v_sha256 = None\<rparr>)"

definition action_text :: "action \<Rightarrow> pystr" where
  "action_text a = (case a of PERMIT \<Rightarrow> lit ''PERMIT'' | BLOCK \<Rightarrow> lit ''BLOCK'')"

definition make_event :: "request \<Rightarrow> verdict \<Rightarrow> event" where
  "make_event r v =
     \<lparr>ev_request_id = get_or [] (rq_request_id r), ev_client_ip = get_or [] (rq_client_ip r),
      ev_method = get_or [] (rq_method r), ev_uri = uri_of r, ev_action = action_text (v_action v),
      ev_tier = v_tier v, ev_cve_id = v_cve_id v, ev_rule_name = v_rule_name v,
      ev_reason = v_reason v, ev_ml_score = v_ml_score v, ev_latency = v_latency v\<rparr>"

definition emit :: "pcfg \<Rightarrow> request \<Rightarrow> verdict \<Rightarrow> telemetry option \<Rightarrow> telemetry option" where
  "emit cfg r v t = map_option (\<lambda>s. fst (send (pc_telemetry cfg) (make_event r v) s)) t"

definition static_verdict :: "int \<Rightarrow> verdict" where
  "static_verdict lat =
     \<lparr>v_action = PERMIT, v_tier = 0, v_cve_id = None, v_rule_name = None,
      v_reason = lit ''Static file'' @ em_dash @ lit ''skipped inspection'', v_ml_score = 0,
      v_latency = lat, v_sha256 = None\<rparr>"

text \<open>The verdict of a request that is not skipped, before it is emitted.\<close>

definition decide :: "pcfg \<Rightarrow> int \<Rightarrow> request \<Rightarrow> pstate \<Rightarrow> verdict result \<times> duckdb option" where
  "decide cfg lat r s =
     (case early_tiers cfg (ps_patterns s) lat r of
        Some v \<Rightarrow> (Inr v, ps_db s)
      | None \<Rightarrow>
          (case content_tier cfg (ps_yara s) lat r (ps_db s) of
             (Inl e, db) \<Rightarrow> (Inl e, db)
           | (Inr (Some v), db) \<Rightarrow> (Inr v, db)
           | (Inr None, db) \<Rightarrow> (Inr (final_tier cfg lat r), db)))"

definition check :: "pcfg \<Rightarrow> int \<Rightarrow> request \<Rightarrow> pstate \<Rightarrow> verdict result \<times> pstate" where
  "check cfg lat r s =
     (if is_static_file (uri_of r) then (Inr (static_verdict lat), s)
      else case decide cfg lat r s of
             (Inl e, db) \<Rightarrow> (Inl e, s\<lparr>ps_db := db\<rparr>)
           | (Inr v, db) \<Rightarrow>
               (Inr v, s\<lparr>ps_db := db, ps_telemetry := emit cfg r v (ps_telemetry s)\<rparr>))"

definition reload_rules ::
  "compiler \<Rightarrow> (pystr list \<Rightarrow> yara_rules result) \<Rightarrow> pcfg \<Rightarrow> pattern_file \<Rightarrow> rules_dir \<Rightarrow> pstate \<Rightarrow> pstate" where
  "reload_rules rcompile ycompile cfg patterns dir s =
     s\<lparr>ps_patterns := load_patterns rcompile patterns (ps_patterns s),
       ps_yara := load_rules (pc_yara_available cfg) ycompile dir (ps_yara s)\<rparr>"

subsection \<open>Lemmas\<close>

lemma make_verdict_action [simp]:
  "v_action (make_verdict cfg lat act tier cve rule reason score sha) =
     (if pc_mode cfg = lit ''shadow'' then PERMIT else act)"
  "v_tier (make_verdict cfg lat act tier cve rule reason score sha) = tier"
  by (simp_all add: make_verdict_def)

lemma early_tiers_None_iff:
  "early_tiers cfg ps lat r = None \<longleftrightarrow>
     scan ps (build_scan_data r) = None \<and> check_sqli (extract_inputs r) = None \<and>
     check_xss (extract_inputs r) = None"
  by (auto simp: early_tiers_def split: option.splits)

lemma early_tiers_action:
  "early_tiers cfg ps lat r = Some v \<Longrightarrow>
     v_action v = (if pc_mode cfg = lit ''shadow'' then PERMIT else BLOCK) \<and> v_tier v \<in> {1, 2}"
  by (auto simp: early_tiers_def split: option.splits)

lemma scan_target_action:
  "scan_target cfg yara lat ct target sha db = (Some v, db') \<Longrightarrow>
     v_action v = (if pc_mode cfg = lit ''shadow'' then PERMIT else BLOCK) \<and> v_tier v = 4"
  by (auto simp: scan_target_def Let_def split: if_splits option.splits)

lemma inspect_targets_action:
  "inspect_targets cfg yara lat ct i ts db = (Inr (Some v), db') \<Longrightarrow>
     v_action v = (if pc_mode cfg = lit ''shadow'' then PERMIT else BLOCK) \<and> v_tier v = 4"
proof (induction cfg yara lat ct i ts db rule: inspect_targets.induct)
  case (2 cfg yara lat ct i target ts db)
  then show ?case
    by (auto simp: Let_def split: if_splits sum.splits option.splits prod.splits dest: scan_target_action)
qed simp

lemma inspect_content_action:
  "inspect_content cfg yara lat body ct db = (Inr (Some v), db') \<Longrightarrow>
     v_action v = (if pc_mode cfg = lit ''shadow'' then PERMIT else BLOCK) \<and> v_tier v = 4"
  by (auto simp: inspect_content_def split: if_splits dest: inspect_targets_action)

lemma content_tier_action:
  "content_tier cfg yara lat r db = (Inr (Some v), db') \<Longrightarrow>
     v_action v = (if pc_mode cfg = lit ''shadow'' then PERMIT else BLOCK) \<and> v_tier v = 4"
  by (auto simp: content_tier_def split: sum.splits if_splits dest: inspect_content_action)

lemmas tier_actions = early_tiers_action content_tier_action

text \<open>A verdict of \<open>decide\<close> comes from the first tier that speaks.\<close>

lemma decide_cases:
  assumes "decide cfg lat r s = (Inr v, db)"
  obtains (early) "early_tiers cfg (ps_patterns s) lat r = Some v" "db = ps_db s"
  | (content) "early_tiers cfg (ps_patterns s) lat r = None"
      "content_tier cfg (ps_yara s) lat r (ps_db s) = (Inr (Some v), db)"
  | (final) "early_tiers cfg (ps_patterns s) lat r = None"
      "content_tier cfg (ps_yara s) lat r (ps_db s) = (Inr None, db)" "v = final_tier cfg lat r"
  using assms by (auto simp: decide_def split: option.splits prod.splits sum.splits)

lemma final_tier_action:
  "v_action (final_tier cfg lat r) =
     (if pc_mode cfg = lit ''shadow'' then PERMIT
      else if m_action (ml_score (pc_threshold cfg) r) = ML_BLOCK then BLOCK else PERMIT)"
  "v_tier (final_tier cfg lat r) = (if m_action (ml_score (pc_threshold cfg) r) = ML_BLOCK then 3 else 0)"
  by (simp_all add: final_tier_def Let_def)

lemma check_dynamic:
  "\<not> is_static_file (uri_of r) \<Longrightarrow> fst (check cfg lat r s) = fst (decide cfg lat r s)"
  by (auto simp: check_def split: prod.splits sum.splits)

lemma early_block:
  assumes "\<not> is_static_file (uri_of r)" "pc_mode cfg \<noteq> lit ''shadow''"
    "early_tiers cfg (ps_patterns s) lat r \<noteq> None"
  shows "\<exists>v. fst (check cfg lat r s) = Inr v \<and> v_action v = BLOCK \<and> v_tier v \<in> {1, 2}"
  using assms early_tiers_action [of cfg "ps_patterns s" lat r]
  by (auto simp: check_dynamic decide_def)

subsection \<open>Properties of the verdict\<close>

text \<open>
  Shadow mode never blocks: whatever the request and the state, if the check returns a verdict
  it permits.
\<close>

theorem pipeline_shadow_never_blocks:
  assumes "pc_mode cfg = lit ''shadow''" "fst (check cfg lat r s) = Inr v"
  shows "v_action v = PERMIT"
proof (cases "is_static_file (uri_of r)")
  case True
  then show ?thesis using assms(2) by (auto simp: check_def static_verdict_def)
next
  case False
  then obtain db where "decide cfg lat r s = (Inr v, db)"
    using assms(2) by (metis check_dynamic prod.collapse)
  then show ?thesis
    using assms(1) by (cases rule: decide_cases) (auto dest: tier_actions simp: final_tier_action)
qed

text \<open>
  C3: In enforce mode a verdict says exactly what the tiers found, in their order: a blocked request
  was flagged by the tier it names and by no earlier one, and a request that is permitted was
  matched by no CVE pattern, no injection check, no content check and scored below the threshold.
  A tier after the one that blocks is not consulted.
\<close>

theorem pipeline_verdict_sound:
  assumes "pc_mode cfg \<noteq> lit ''shadow''" "\<not> is_static_file (uri_of r)"
    "fst (check cfg lat r s) = Inr v"
  shows "case v_action v of
      BLOCK \<Rightarrow>
        v_tier v = 1 \<and> scan (ps_patterns s) (build_scan_data r) \<noteq> None \<or>
        scan (ps_patterns s) (build_scan_data r) = None \<and>
          (v_tier v = 2 \<and> (check_sqli (extract_inputs r) \<noteq> None \<or> check_xss (extract_inputs r) \<noteq> None) \<or>
           check_sqli (extract_inputs r) = None \<and> check_xss (extract_inputs r) = None \<and>
             (v_tier v = 4 \<and> fst (content_tier cfg (ps_yara s) lat r (ps_db s)) = Inr (Some v) \<or>
              v_tier v = 3 \<and> fst (content_tier cfg (ps_yara s) lat r (ps_db s)) = Inr None \<and>
                m_action (ml_score (pc_threshold cfg) r) = ML_BLOCK))
    | PERMIT \<Rightarrow>
        scan (ps_patterns s) (build_scan_data r) = None \<and> check_sqli (extract_inputs r) = None \<and>
        check_xss (extract_inputs r) = None \<and>
        fst (content_tier cfg (ps_yara s) lat r (ps_db s)) = Inr None \<and>
        m_action (ml_score (pc_threshold cfg) r) \<noteq> ML_BLOCK"
proof -
  obtain db where "decide cfg lat r s = (Inr v, db)"
    using assms(2,3) by (metis check_dynamic prod.collapse)
  then show ?thesis
  proof (cases rule: decide_cases)
    case early
    then show ?thesis
      using assms(1) by (auto simp: early_tiers_def split: option.splits)
  next
    case content
    then show ?thesis
      using assms(1) content_tier_action [OF content(2)] by (auto simp: early_tiers_None_iff)
  next
    case final
    then show ?thesis
      using assms(1) by (auto simp: early_tiers_None_iff final_tier_action split: if_splits)
  qed
qed

text \<open>
  C5: An injection in a query parameter is blocked end to end. In enforce mode, for a request whose
  path is not a static file, if some query parameter percent-decodes to a text that contains,
  between any prefix and any suffix, a match of one of the seven structural SQL patterns without a
  trailing-comment anchor (UNION SELECT, quoted tautology, stacked DDL, xp_cmdshell, schema
  enumeration, SLEEP, BENCHMARK), the check returns BLOCK from Tier 1 or 2, whatever the other
  parameters, headers, body, rules, cache and writer are.
\<close>

theorem pipeline_parameter_injection_blocked:
  assumes "pc_mode cfg \<noteq> lit ''shadow''" "\<not> is_static_file (uri_of r)"
    and "rq_query r = Some (x @ k @ [61] @ w @ y)"
    and "x = [] \<or> last x = 38" "y = [] \<or> hd y = 38"
    and "38 \<notin> set k" "61 \<notin> set k" "38 \<notin> set w"
    and "unquote_plus w = a @ t @ b" "p \<in> set padding_proof" "found True p t"
  shows "\<exists>v. fst (check cfg lat r s) = Inr v \<and> v_action v = BLOCK \<and> v_tier v \<in> {1, 2}"
proof -
  have "check_sqli (extract_inputs r) \<noteq> None"
    using assms(3-11) by (rule parameter_injection_detected)
  then have "early_tiers cfg (ps_patterns s) lat r \<noteq> None"
    by (simp add: early_tiers_None_iff)
  with assms(1,2) show ?thesis by (intro early_block)
qed

definition demo_cfg :: "pystr \<Rightarrow> pcfg" where
  "demo_cfg mode =
     \<lparr>pc_mode = mode, pc_threshold = BLOCK_THRESHOLD, pc_ml_text = (\<lambda>m. []), pc_sha256 = (\<lambda>b. b),
      pc_yara_available = False, pc_writer = (\<lambda>i s. s), pc_telemetry = demo_tcfg\<rparr>"

definition demo_state :: pstate where
  "demo_state = \<lparr>ps_patterns = [], ps_yara = None, ps_db = None, ps_telemetry = Some start_telemetry\<rparr>"

definition demo_sqli :: request where
  "demo_sqli = empty_request
     \<lparr>rq_uri := Some (lit ''/a''), rq_query := Some (lit ''a=1&q=zz%20UNION%0aAll+SELECT+pw&b=2'')\<rparr>"

theorem pipeline_parameter_injection_blocked_witness:
  "\<exists>v. fst (check (demo_cfg (lit ''enforce'')) 0 demo_sqli demo_state) = Inr v \<and> v_action v = BLOCK \<and>
     v_tier v \<in> {1, 2}"
proof -
  let ?p = "seqs [word ''union'', Plus SP, Opt (seqs [word ''all'', Plus SP]), word ''select'']"
  let ?v = "lit ''zz%20UNION%0aAll+SELECT+pw''"
  have q: "rq_query demo_sqli = Some (lit ''a=1&'' @ lit ''q'' @ [61] @ ?v @ lit ''&b=2'')"
    by code_simp
  have u: "unquote_plus ?v = lit ''zz '' @ (lit ''UNION'' @ 10 # lit ''All SELECT'') @ lit '' pw''"
    by code_simp
  have "list_ex ((=) ?p) padding_proof" by code_simp
  then have p: "?p \<in> set padding_proof" by (simp add: list_ex_iff)
  have f: "found True ?p (lit ''UNION'' @ 10 # lit ''All SELECT'')" by code_simp
  show ?thesis
    by (rule pipeline_parameter_injection_blocked [OF _ _ q _ _ _ _ _ u p f]) code_simp+
qed

lemma demo_sqli_flagged: "early_tiers cfg ps lat demo_sqli \<noteq> None"
proof -
  have "check_sqli (extract_inputs demo_sqli) \<noteq> None" by code_simp
  then show ?thesis by (simp add: early_tiers_None_iff)
qed

lemma demo_sqli_verdict: "\<exists>v. fst (check cfg lat demo_sqli s) = Inr v"
proof -
  have "\<not> is_static_file (uri_of demo_sqli)" by code_simp
  then show ?thesis
    using demo_sqli_flagged [of cfg "ps_patterns s" lat] by (auto simp: check_dynamic decide_def)
qed

theorem pipeline_shadow_never_blocks_witness:
  "\<exists>v. fst (check (demo_cfg (lit ''shadow'')) 0 demo_sqli demo_state) = Inr v \<and> v_action v = PERMIT"
proof -
  obtain v where v: "fst (check (demo_cfg (lit ''shadow'')) 0 demo_sqli demo_state) = Inr v"
    using demo_sqli_verdict by blast
  have "pc_mode (demo_cfg (lit ''shadow'')) = lit ''shadow''" by (simp add: demo_cfg_def)
  from pipeline_shadow_never_blocks [OF this v] v show ?thesis by blast
qed

theorem pipeline_verdict_sound_witness:
  "\<exists>v. fst (check (demo_cfg (lit ''enforce'')) 0 demo_sqli demo_state) = Inr v \<and> v_action v = BLOCK \<and>
     v_tier v = 2"
proof -
  obtain v where v: "fst (check (demo_cfg (lit ''enforce'')) 0 demo_sqli demo_state) = Inr v"
    using demo_sqli_verdict by blast
  have "pc_mode (demo_cfg (lit ''enforce'')) \<noteq> lit ''shadow''" "\<not> is_static_file (uri_of demo_sqli)"
    by code_simp+
  note s = pipeline_verdict_sound [OF this v]
  have "check_sqli (extract_inputs demo_sqli) \<noteq> None" by code_simp
  moreover have "scan (ps_patterns demo_state) (build_scan_data demo_sqli) = None"
    by (simp add: scan_None_iff demo_state_def)
  ultimately show ?thesis using s v by (cases "v_action v") auto
qed

subsection \<open>Content inspection\<close>

lemma inspect_targets_blocks:
  "t \<in> set ts \<Longrightarrow> t \<noteq> [] \<Longrightarrow> mv_should_block (validate_content_type t ct) \<Longrightarrow>
     \<exists>v. inspect_targets cfg yara lat ct i ts None = (Inr (Some v), None)"
proof (induction ts arbitrary: i)
  case (Cons u ts)
  show ?case
  proof (cases "u = []")
    case True
    with Cons show ?thesis by auto
  next
    case False
    show ?thesis
    proof (cases "fst (scan_target cfg yara lat ct u (pc_sha256 cfg u) None)")
      case None
      then have "\<not> mv_should_block (validate_content_type u ct)"
        by (auto simp: scan_target_def Let_def split: if_splits option.splits)
      then have "t \<in> set ts" using Cons.prems by auto
      moreover have "snd (scan_target cfg yara lat ct u (pc_sha256 cfg u) None) = None"
        by (auto simp: scan_target_def Let_def cache_store_def split: option.splits)
      ultimately show ?thesis
        using Cons.IH Cons.prems(2,3) None False
        by (auto simp: cache_lookup_def Let_def split: prod.splits)
    next
      case (Some v)
      moreover have "snd (scan_target cfg yara lat ct u (pc_sha256 cfg u) None) = None"
        by (auto simp: scan_target_def Let_def cache_store_def split: option.splits)
      ultimately show ?thesis
        using False by (auto simp: cache_lookup_def Let_def split: prod.splits)
    qed
  qed
qed simp

lemma prepare_full_scan_candidates:
  "c \<in> set (extract_b64_candidates body) \<Longrightarrow> c \<in> set (prepare_full_scan body ct)"
  by (simp add: prepare_full_scan_def)

text \<open>
  C26: A dangerous file cannot be smuggled past a fresh agent inside a text body. In enforce mode and
  without a cache, for a request whose content type is inspected and whose body of at most 10 KB
  carries the file (executable, PHP, script or Java class, of at least 34 bytes) as Base64 between
  characters outside the Base64 alphabet, the check returns BLOCK.
\<close>

theorem pipeline_hidden_file_blocked:
  assumes "pc_mode cfg \<noteq> lit ''shadow''" "\<not> is_static_file (uri_of r)" "ps_db s = None"
    and "rq_body r = Some (BStr t)" "encode_utf8 t = Inr body" "is_text t"
    and "should_inspect_content (ctype_of r)" "length body \<le> FULL_SCAN_LIMIT"
    and "t = a @ b64encode payload @ b" "is_bytes payload" "34 \<le> length payload"
    and "a = [] \<or> \<not> is_b64_char (last a)" "b = [] \<or> \<not> is_b64_char (hd b)"
    and "p \<in> set dangerous_prefixes" "startswith payload p"
  shows "\<exists>v. fst (check cfg lat r s) = Inr v \<and> v_action v = BLOCK"
proof (cases "early_tiers cfg (ps_patterns s) lat r")
  case (Some v)
  then show ?thesis using early_block [OF assms(2,1), of s lat] by auto
next
  case None
  have "decode_replace body = t"
    using utf8_roundtrip [OF assms(6)] assms(5) by auto
  then have "payload \<in> set (extract_b64_candidates body)"
    using assms(9-13) by (intro extract_finds) auto
  then have "payload \<in> set (prepare_full_scan body (ctype_of r))"
    by (rule prepare_full_scan_candidates)
  moreover have "payload \<noteq> []" using assms(11) by auto
  moreover have "mv_should_block (validate_content_type payload (ctype_of r))"
    using assms(14,15) by (rule validate_blocks_dangerous)
  ultimately obtain v where v: "inspect_targets cfg (ps_yara s) lat (ctype_of r) 0
      (prepare_full_scan body (ctype_of r)) None = (Inr (Some v), None)"
    using inspect_targets_blocks by blast
  have "body \<noteq> []"
  proof
    assume "body = []"
    then have "t = []" using \<open>decode_replace body = t\<close> by (simp add: decode_replace_def)
    then have "b64encode payload = []" using assms(9) by simp
    then show False using \<open>payload \<noteq> []\<close> by (cases payload rule: b64encode.cases) auto
  qed
  with v have "content_tier cfg (ps_yara s) lat r (ps_db s) = (Inr (Some v), None)"
    using assms(3-5,7,8) by (simp add: content_tier_def body_bytes_def inspect_content_def)
  with None have "fst (check cfg lat r s) = Inr v"
    using assms(2) by (simp add: check_dynamic decide_def)
  moreover have "v_action v = BLOCK" using inspect_targets_action [OF v] assms(1) by simp
  ultimately show ?thesis by blast
qed

definition demo_upload :: request where
  "demo_upload = empty_request
     \<lparr>rq_uri := Some (lit ''/api''), rq_content_type := Some (lit ''application/json''),
      rq_body := Some (BStr demo_json_body)\<rparr>"

theorem pipeline_hidden_file_blocked_witness:
  "\<exists>v. fst (check (demo_cfg (lit ''enforce'')) 0 demo_upload demo_state) = Inr v \<and> v_action v = BLOCK"
proof (rule pipeline_hidden_file_blocked)
  show "rq_body demo_upload = Some (BStr demo_json_body)" by (simp add: demo_upload_def)
  show "ps_db demo_state = None" by (simp add: demo_state_def)
  show "encode_utf8 demo_json_body = Inr demo_json_body" by code_simp
  show "demo_json_body =
      (lit ''{'' @ [34] @ lit ''f'' @ [34] @ lit '':'' @ [34]) @ b64encode demo_payload @ ([34] @ lit ''}'')"
    by code_simp
  show "startswith demo_payload [60, 63]" by code_simp
  show "[60, 63] \<in> set dangerous_prefixes" by (simp add: dangerous_prefixes_def)
qed (code_simp+)

lemma nth_in_take: "j < n \<Longrightarrow> j < length xs \<Longrightarrow> xs ! j \<in> set (take n xs)"
  using nth_mem [of j "take n xs"] by simp

lemma nth_in_drop: "n \<le> j \<Longrightarrow> j < length xs \<Longrightarrow> xs ! j \<in> set (drop n xs)"
  using nth_mem [of "j - n" "drop n xs"] by simp

lemma nth_in_window: "m \<le> j \<Longrightarrow> j < m + n \<Longrightarrow> j < length xs \<Longrightarrow> xs ! j \<in> set (take n (drop m xs))"
  using nth_in_take [of "j - m" n "drop m xs"] by simp

lemma sampled_windows_cover:
  assumes "8192 \<le> length body" "length body \<le> 12288"
  shows "set body \<subseteq> (\<Union>w \<in> set (prepare_sampled_scan body). set w)"
proof
  fix x assume "x \<in> set body"
  then obtain j where j: "j < length body" "x = body ! j" by (metis in_set_conv_nth)
  let ?m = "length body div 2"
  have m: "?m \<le> 6144" "4096 \<le> ?m" "length body - 4096 \<le> ?m + 2048" using assms by auto
  consider "j < 4096" | "?m - 2048 \<le> j" "j < ?m - 2048 + 4096" | "length body - 4096 \<le> j"
    using m by linarith
  then show "x \<in> (\<Union>w \<in> set (prepare_sampled_scan body). set w)"
  proof cases
    case 1
    then show ?thesis
      using j nth_in_take [of j 4096 body] by (simp add: prepare_sampled_scan_def Let_def)
  next
    case 2
    moreover have "?m + 2048 - (?m - 2048) = 4096" using m by simp
    ultimately show ?thesis
      using j nth_in_window [of "?m - 2048" j 4096 body] by (simp add: prepare_sampled_scan_def Let_def)
  next
    case 3
    then show ?thesis
      using j nth_in_drop [of "length body - 4096" j body] by (simp add: prepare_sampled_scan_def Let_def)
  qed
qed

lemma sampled_windows_miss:
  assumes "12288 < n"
  shows "\<exists>body. length body = n \<and> 1 \<in> set body \<and> (\<forall>w \<in> set (prepare_sampled_scan body). 1 \<notin> set w)"
proof -
  let ?m = "n div 2" and ?z = "replicate n (0::int)"
  let ?i = "?m + 2048"
  let ?b = "?z[?i := 1]"
  have i: "?i < n" "?i < n - 4096" "2048 \<le> ?m" using assms by linarith+
  have "1 \<in> set ?b" using i(1) by (intro set_update_memI) simp
  moreover have "take 4096 ?b = take 4096 ?z" using i by (intro take_update_cancel) simp
  moreover have "drop (n - 4096) ?b = drop (n - 4096) ?z" using i(2) by (rule drop_update_cancel)
  moreover have "take 4096 (drop (?m - 2048) ?b) = take 4096 (drop (?m - 2048) ?z)"
    using i(3) by (subst drop_update_swap) (simp_all add: take_update_cancel)
  moreover have "?m + 2048 - (?m - 2048) = 4096" using i(3) by simp
  ultimately show ?thesis
    by (intro exI [of _ ?b]) (simp add: prepare_sampled_scan_def Let_def)
qed

text \<open>
  The sampled scan of a larger body is complete only up to 12 KB: the three 4 KB windows contain
  every byte of every body of a given size (over 10 KB) exactly when the size is at most 12288; in
  any larger body there is a place the scan never looks at.
\<close>

theorem pipeline_sampled_scan_coverage:
  assumes "FULL_SCAN_LIMIT < n"
  shows "(\<forall>body. length body = n \<longrightarrow> set body \<subseteq> (\<Union>w \<in> set (prepare_sampled_scan body). set w)) \<longleftrightarrow>
    n \<le> 12288"
proof
  assume all: "\<forall>body. length body = n \<longrightarrow> set body \<subseteq> (\<Union>w \<in> set (prepare_sampled_scan body). set w)"
  show "n \<le> 12288"
  proof (rule ccontr)
    assume "\<not> n \<le> 12288"
    then obtain body where "length body = n" "1 \<in> set body"
      "\<forall>w \<in> set (prepare_sampled_scan body). 1 \<notin> set w"
      using sampled_windows_miss [of n] by auto
    with all show False by blast
  qed
next
  assume "n \<le> 12288"
  then show "\<forall>body. length body = n \<longrightarrow> set body \<subseteq> (\<Union>w \<in> set (prepare_sampled_scan body). set w)"
    using assms by (auto simp: FULL_SCAN_LIMIT_def dest!: sampled_windows_cover [THEN subsetD, rotated 2])
qed

theorem pipeline_sampled_scan_coverage_witness:
  "\<not> (\<forall>body. length body = 20000 \<longrightarrow> set body \<subseteq> (\<Union>w \<in> set (prepare_sampled_scan body). set w))"
  by (subst pipeline_sampled_scan_coverage) (simp_all add: FULL_SCAN_LIMIT_def)

text \<open>The cold cache: what one inspection queues.\<close>

lemma scan_target_cold:
  assumes "scan_target cfg None lat ct u sha (Some d) = (vo, db)"
  shows "\<exists>d' row. db = Some d' \<and> st_tables d' = st_tables d \<and> st_shared d' = st_shared d \<and>
    st_queue d' = st_queue d @ (if room QUEUE_SIZE (st_queue d) then [StoreHash sha row] else []) \<and>
    (vo = None \<longleftrightarrow> \<not> mv_should_block (validate_content_type u ct)) \<and>
    (vo = None \<longrightarrow> row = \<lparr>h_verdict = lit ''CLEAN'', h_threat = None\<rparr>)"
  using assms
  by (auto simp: scan_target_def Let_def yara_is_ready_def cache_store_def store_file_hash_def
      enqueue_queue split: if_splits)

definition only_hashes :: "pcfg \<Rightarrow> bytes list \<Rightarrow> write_op list \<Rightarrow> bool" where
  "only_hashes cfg ts ws \<longleftrightarrow>
     length ws \<le> length ts \<and> (\<forall>w \<in> set ws. \<exists>t \<in> set ts. \<exists>row. w = StoreHash (pc_sha256 cfg t) row)"

lemma inspect_targets_cold:
  assumes "pc_writer cfg = (\<lambda>i d. d)" "st_shared d" "t_hashes (st_tables d) = []"
  shows "\<exists>res d' ws. inspect_targets cfg None lat ct i ts (Some d) = (Inr res, Some d') \<and>
    st_tables d' = st_tables d \<and> st_shared d' \<and> st_queue d' = st_queue d @ ws \<and> only_hashes cfg ts ws \<and>
    ((\<exists>t \<in> set ts. t \<noteq> [] \<and> mv_should_block (validate_content_type t ct)) \<longrightarrow> res \<noteq> None)"
  using assms(2,3)
proof (induction ts arbitrary: i d)
  case Nil
  then show ?case by (auto simp: only_hashes_def)
next
  case (Cons u ts)
  show ?case
  proof (cases "u = []")
    case True
    with Cons.IH [OF Cons.prems, of "Suc i"] show ?thesis
      by (fastforce simp: only_hashes_def)
  next
    case False
    have look: "cache_lookup (pc_sha256 cfg u) (Some d) = Inr None"
      using Cons.prems by (simp add: cache_lookup_def get_file_hash_def read_tables_def)
    obtain vo db where st: "scan_target cfg None lat ct u (pc_sha256 cfg u) (Some d) = (vo, db)"
      by (cases "scan_target cfg None lat ct u (pc_sha256 cfg u) (Some d)") auto
    from scan_target_cold [OF st] obtain d1 row where d1: "db = Some d1" "st_tables d1 = st_tables d"
      "st_shared d1 = st_shared d"
      "st_queue d1 = st_queue d @ (if room QUEUE_SIZE (st_queue d) then [StoreHash (pc_sha256 cfg u) row] else [])"
      "vo = None \<longleftrightarrow> \<not> mv_should_block (validate_content_type u ct)" by auto
    show ?thesis
    proof (cases vo)
      case None
      from d1 Cons.prems obtain res d' ws where r:
        "inspect_targets cfg None lat ct (Suc i) ts (Some d1) = (Inr res, Some d')"
        "st_tables d' = st_tables d1" "st_shared d'" "st_queue d' = st_queue d1 @ ws"
        "only_hashes cfg ts ws"
        "(\<exists>t \<in> set ts. t \<noteq> [] \<and> mv_should_block (validate_content_type t ct)) \<longrightarrow> res \<noteq> None"
        using Cons.IH [of d1 "Suc i"] by auto
      let ?ws = "(if room QUEUE_SIZE (st_queue d) then [StoreHash (pc_sha256 cfg u) row] else []) @ ws"
      have "inspect_targets cfg None lat ct i (u # ts) (Some d) = (Inr res, Some d')"
        using False look st None d1(1) r(1) by (simp add: assms(1) Let_def)
      moreover have "only_hashes cfg (u # ts) ?ws"
        using r(5) by (auto simp: only_hashes_def)
      moreover have "(\<exists>t \<in> set (u # ts). t \<noteq> [] \<and> mv_should_block (validate_content_type t ct)) \<longrightarrow> res \<noteq> None"
        using r(6) d1(5) None by auto
      ultimately show ?thesis using r(2-4) d1(2,4) by (intro exI [of _ res] exI [of _ d'] exI [of _ ?ws]) simp
    next
      case (Some v)
      let ?ws = "if room QUEUE_SIZE (st_queue d) then [StoreHash (pc_sha256 cfg u) row] else []"
      have "inspect_targets cfg None lat ct i (u # ts) (Some d) = (Inr (Some v), Some d1)"
        using False look st Some d1(1) by (simp add: assms(1) Let_def)
      moreover have "only_hashes cfg (u # ts) ?ws" by (auto simp: only_hashes_def)
      ultimately show ?thesis
        using d1(2-4) Cons.prems by (intro exI [of _ "Some v"] exI [of _ d1] exI [of _ ?ws]) simp
    qed
  qed
qed

lemma hashes_no_events: "(\<And>w. w \<in> set ws \<Longrightarrow> \<exists>k row. w = StoreHash k row) \<Longrightarrow> event_ids ws = []"
proof (induction ws)
  case (Cons w ws)
  obtain k row where "w = StoreHash k row" using Cons.prems [of w] by auto
  with Cons show ?case by auto
qed simp

lemma only_hashes_event_ids: "only_hashes cfg ts ws \<Longrightarrow> event_ids ws = []"
  by (rule hashes_no_events) (auto simp: only_hashes_def)

lemma hash_writes_mem: "(k, row) \<in> set (hash_writes ws) \<Longrightarrow> StoreHash k row \<in> set ws"
proof (induction ws)
  case (Cons w ws)
  then show ?case by (cases w) auto
qed simp

lemma only_hashes_other:
  assumes "only_hashes cfg ts ws" "\<forall>t \<in> set ts. pc_sha256 cfg t \<noteq> k"
  shows "map_of (rev (hash_writes ws)) k = None"
  using assms hash_writes_mem unfolding only_hashes_def map_of_eq_None_iff
  by (fastforce simp: image_iff)

text \<open>A cached CLEAN verdict for the raw body ends the inspection.\<close>

lemma cached_clean_ends:
  assumes "pc_writer cfg = (\<lambda>i d. d)" "body \<noteq> []" "length body \<le> SAMPLE_SCAN_LIMIT"
    "length body \<le> FULL_SCAN_LIMIT"
    "get_file_hash (pc_sha256 cfg body) d = Inr (Some row)" "h_verdict row \<noteq> lit ''MALICIOUS''"
  shows "inspect_content cfg yara lat body ct (Some d) = (Inr None, Some d)"
  using assms by (simp add: inspect_content_def prepare_full_scan_def cache_lookup_def Let_def)

text \<open>
  C27: A blocked upload passes when it is sent again. Take a text body that is harmless as a whole but
  carries a dangerous file as a Base64 candidate. With an empty cache the first inspection blocks
  it, but it has already queued CLEAN for the hash of the whole body; once the writer has stored
  that, the second inspection of the same body finds it and reports it clean without looking at the
  candidate.
\<close>

theorem pipeline_replay_passes:
  assumes "pc_writer cfg = (\<lambda>i d. d)" "pc_mode cfg \<noteq> lit ''shadow''"
    and "st_shared d" "st_queue d = []" "t_hashes (st_tables d) = []"
    and "body \<noteq> []" "length body \<le> FULL_SCAN_LIMIT" "decode_body_if_base64 body ct = None"
    and "\<not> mv_should_block (validate_content_type body ct)"
    and "c \<in> set (extract_b64_candidates body)" "p \<in> set dangerous_prefixes" "startswith c p"
    and "\<forall>c \<in> set (extract_b64_candidates body). pc_sha256 cfg c \<noteq> pc_sha256 cfg body"
    and "length (extract_b64_candidates body) < WRITE_BATCH * n"
  shows "\<exists>v d1 d2. inspect_content cfg None lat body ct (Some d) = (Inr (Some v), Some d1) \<and>
    v_action v = BLOCK \<and> d2 = (write_round now ^^ n) d1 \<and>
    inspect_content cfg None lat' body ct (Some d2) = (Inr None, Some d2)"
proof -
  let ?clean = "\<lparr>h_verdict = lit ''CLEAN'', h_threat = None\<rparr>" and ?cs = "extract_b64_candidates body"
  let ?k = "pc_sha256 cfg body"
  have targets: "prepare_full_scan body ct = body # ?cs"
    using assms(8) by (simp add: prepare_full_scan_def)
  have "c \<noteq> []" using assms(11,12) by (auto simp: dangerous_prefixes_def startswith_def)
  then have bad: "\<exists>t \<in> set ?cs. t \<noteq> [] \<and> mv_should_block (validate_content_type t ct)"
    using assms(10-12) validate_blocks_dangerous by blast
  obtain vo db where st: "scan_target cfg None lat ct body ?k (Some d) = (vo, db)"
    by (cases "scan_target cfg None lat ct body ?k (Some d)") auto
  from scan_target_cold [OF st] assms(4,9) obtain d0 where d0: "vo = None" "db = Some d0"
    "st_tables d0 = st_tables d" "st_shared d0 = st_shared d" "st_queue d0 = [StoreHash ?k ?clean]"
    by (auto simp: room_def QUEUE_SIZE_def)
  from inspect_targets_cold [OF assms(1), of d0 lat ct "Suc 0" ?cs] d0 assms(3,5) bad
  obtain v d1 ws where r: "inspect_targets cfg None lat ct (Suc 0) ?cs (Some d0) = (Inr (Some v), Some d1)"
    "st_tables d1 = st_tables d" "st_shared d1" "st_queue d1 = StoreHash ?k ?clean # ws"
    "only_hashes cfg ?cs ws" by auto
  have first: "inspect_content cfg None lat body ct (Some d) = (Inr (Some v), Some d1)"
    using assms(1,3,5,6,7) targets st d0(1,2) r(1)
    by (simp add: inspect_content_def cache_lookup_def get_file_hash_def read_tables_def Let_def)
  have "v_action v = BLOCK" using inspect_content_action [OF first] assms(2) by simp
  moreover have "get_file_hash ?k ((write_round now ^^ n) d1) = Inr (Some ?clean)"
  proof -
    have "fresh_ids (st_queue d1) (st_tables d1)"
      using r(4) only_hashes_event_ids [OF r(5)] by (simp add: fresh_ids_def)
    moreover have "length (st_queue d1) \<le> WRITE_BATCH * n"
      using r(4,5) assms(14) by (auto simp: only_hashes_def)
    moreover have "map_of (rev (hash_writes ws)) ?k = None"
      using r(5) assms(13) by (rule only_hashes_other)
    ultimately show ?thesis
      using r(2-4) assms(5) by (subst funpow_write_round_split) (auto simp: map_add_def)
  qed
  then have "inspect_content cfg None lat' body ct (Some ((write_round now ^^ n) d1)) =
      (Inr None, Some ((write_round now ^^ n) d1))"
    using assms(1,6,7) by (intro cached_clean_ends) (auto simp: FULL_SCAN_LIMIT_def SAMPLE_SCAN_LIMIT_def lit_def)
  ultimately show ?thesis using first by blast
qed

definition demo_store :: duckdb where
  "demo_store = open_store (lit ''/var/lib/aiss/aiss.duckdb'') empty_tables"

lemma demo_json_candidates: "extract_b64_candidates demo_json_body = [demo_payload]"
  by code_simp

theorem pipeline_replay_passes_witness:
  "\<exists>v d1 d2. inspect_content (demo_cfg (lit ''enforce'')) None 0 demo_json_body (lit ''application/json'')
      (Some demo_store) = (Inr (Some v), Some d1) \<and> v_action v = BLOCK \<and> d2 = (write_round 5 ^^ 1) d1 \<and>
    inspect_content (demo_cfg (lit ''enforce'')) None 1 demo_json_body (lit ''application/json'') (Some d2) =
      (Inr None, Some d2)"
proof (rule pipeline_replay_passes)
  show "pc_writer (demo_cfg (lit ''enforce'')) = (\<lambda>i d. d)" by (simp add: demo_cfg_def)
  show "demo_payload \<in> set (extract_b64_candidates demo_json_body)" by (simp add: demo_json_candidates)
  show "startswith demo_payload [60, 63]" by code_simp
  show "[60, 63] \<in> set dangerous_prefixes" by (simp add: dangerous_prefixes_def)
  show "\<forall>c \<in> set (extract_b64_candidates demo_json_body).
      pc_sha256 (demo_cfg (lit ''enforce'')) c \<noteq> pc_sha256 (demo_cfg (lit ''enforce'')) demo_json_body"
    unfolding demo_json_candidates by code_simp
  show "length (extract_b64_candidates demo_json_body) < WRITE_BATCH * 1"
    unfolding demo_json_candidates by (simp add: WRITE_BATCH_def)
qed (simp add: demo_store_def open_store_def lit_def empty_tables_def | code_simp)+

subsection \<open>Errors, telemetry, static files\<close>

text \<open>
  A lone surrogate in a text body raises before content inspection and Tier 3, whatever the content
  type, and nothing is emitted.
\<close>

lemma pipeline_surrogate_raises:
  assumes "\<not> is_static_file (uri_of r)" "early_tiers cfg (ps_patterns s) lat r = None"
    "rq_body r = Some (BStr t)" "c \<in> set t" "is_surrogate c"
  shows "check cfg lat r s = (Inl UnicodeEncodeError, s)"
proof -
  have "encode_utf8 t = Inl UnicodeEncodeError" using assms(4,5) by (auto simp: encode_utf8_def)
  then have "decide cfg lat r s = (Inl UnicodeEncodeError, ps_db s)"
    using assms(2,3) by (simp add: decide_def content_tier_def body_bytes_def)
  then show ?thesis using assms(1) by (simp add: check_def)
qed

text \<open>
  Every verdict on a request that is not a static file is reported: when the telemetry queue has
  room, exactly one event, describing the request and the verdict, is appended to it, and the rest
  of the telemetry state is unchanged.
\<close>

theorem pipeline_emits_verdict:
  assumes "\<not> is_static_file (uri_of r)" "fst (check cfg lat r s) = Inr v"
    "ps_telemetry s = Some t" "room (tc_capacity (pc_telemetry cfg)) (tl_queue t)"
  shows "ps_telemetry (snd (check cfg lat r s)) =
    Some (t\<lparr>tl_queue := tl_queue t @ [make_event r v]\<rparr>)"
proof -
  obtain db where "decide cfg lat r s = (Inr v, db)"
    using assms(1,2) by (metis check_dynamic prod.collapse)
  then show ?thesis
    using assms by (simp add: check_def emit_def send_def put_nowait_def)
qed

theorem pipeline_emits_verdict_witness:
  "\<exists>v. ps_telemetry (snd (check (demo_cfg (lit ''enforce'')) 0 demo_sqli demo_state)) =
     Some (start_telemetry\<lparr>tl_queue := tl_queue start_telemetry @ [make_event demo_sqli v]\<rparr>)"
proof -
  obtain v where v: "fst (check (demo_cfg (lit ''enforce'')) 0 demo_sqli demo_state) = Inr v"
    using demo_sqli_verdict by blast
  have "\<not> is_static_file (uri_of demo_sqli)" by code_simp
  from pipeline_emits_verdict [OF this v, of start_telemetry] show ?thesis
    by (auto simp: demo_state_def demo_cfg_def demo_tcfg_def start_telemetry_def room_def)
qed

text \<open>
  The static-file skip looks at the path alone: a request whose path ends in one of the listed
  extensions, in any letter case, is permitted without inspection and without a trace, whatever its
  method, query string, headers and body.
\<close>

theorem pipeline_static_skip:
  assumes "ext \<in> set STATIC_EXTENSIONS" "63 \<notin> set path" "py_lower path = a @ ext"
    "uri_of r = path \<or> uri_of r = path @ [63] @ q"
  shows "check cfg lat r s = (Inr (static_verdict lat), s)"
proof -
  have "before_first 63 (uri_of r) = path"
    using assms(2,4) by (auto simp: before_first_simps)
  moreover have "ext \<noteq> []" using assms(1) by (auto simp: STATIC_EXTENSIONS_def lit_def)
  then have "path \<noteq> []" using assms(3) by (auto simp: py_lower_def)
  then have "uri_of r \<noteq> []" using assms(4) by auto
  ultimately have "is_static_file (uri_of r)"
    using assms(1,3) by (auto simp: is_static_file_def list_ex_iff endswith_iff)
  then show ?thesis by (simp add: check_def)
qed

theorem pipeline_static_skip_witness:
  "check (demo_cfg (lit ''enforce'')) 0
     (empty_request\<lparr>rq_method := Some (lit ''POST''), rq_uri := Some (lit ''/run/x.CSS'' @ [63] @ lit ''q=1'')\<rparr>)
     demo_state = (Inr (static_verdict 0), demo_state)"
proof (rule pipeline_static_skip)
  show "py_lower (lit ''/run/x.CSS'') = lit ''/run/x'' @ lit ''.css''" by code_simp
  show "lit ''.css'' \<in> set STATIC_EXTENSIONS" by (simp add: STATIC_EXTENSIONS_def)
  show "63 \<notin> set (lit ''/run/x.CSS'')" by (simp add: lit_def)
qed simp

text \<open>White space around a text does not change which words without white space it contains.\<close>

lemma lower_space: "is_space c \<Longrightarrow> lower_cp c = [c]"
  by (auto simp: lower_cp_def is_space_def)

lemma py_lower_spaces: "\<forall>c \<in> set s. is_space c \<Longrightarrow> py_lower s = s"
  by (induction s) (auto simp: py_lower_def lower_space)

lemma startswith_word_spaces:
  assumes "\<forall>c \<in> set t. \<not> is_space c" "\<forall>c \<in> set post. is_space c"
  shows "startswith (s @ post) t \<Longrightarrow> startswith s t"
proof -
  assume "startswith (s @ post) t"
  then obtain u where u: "s @ post = t @ u" by (auto simp: startswith_iff)
  then consider us where "s = t @ us" | us where "t = s @ us" "post = us @ u"
    by (auto simp: append_eq_append_conv2)
  then show ?thesis
  proof cases
    case 2
    then have "us = []" using assms by (cases us) auto
    with 2 show ?thesis by (simp add: startswith_def)
  qed (simp add: startswith_append)
qed

lemma contains_word_spaces:
  assumes "t \<noteq> []" "\<forall>c \<in> set t. \<not> is_space c" "\<forall>c \<in> set pre. is_space c" "\<forall>c \<in> set post. is_space c"
    "contains t (pre @ s @ post)"
  shows "contains t s"
proof -
  have post: "contains t post \<Longrightarrow> False" if "\<forall>c \<in> set post. is_space c" for post
    using that assms(1,2) by (cases t) (auto simp: contains_iff)
  have "contains t (s @ post)"
    using assms(3,5)
  proof (induction pre)
    case (Cons c pre)
    have "\<not> startswith (c # pre @ s @ post) t"
      using Cons.prems assms(1,2) by (cases t) (auto simp: startswith_def)
    with Cons show ?case by simp
  qed simp
  then show ?thesis
  proof (induction s)
    case Nil
    then show ?case using post [OF assms(4)] by simp
  next
    case (Cons c s)
    then show ?case
      using startswith_word_spaces [OF assms(2,4), of "c # s"] by auto
  qed
qed

lemma strip_surround:
  "\<exists>pre post. s = pre @ strip s @ post \<and> (\<forall>c \<in> set pre. is_space c) \<and> (\<forall>c \<in> set post. is_space c)"
proof -
  let ?d = "dropWhile is_space s"
  have "s = takeWhile is_space s @ ?d" by simp
  also have "?d = rev (dropWhile is_space (rev ?d)) @ rev (takeWhile is_space (rev ?d))"
    by (metis rev_append rev_rev_ident takeWhile_dropWhile_id)
  finally have "s = takeWhile is_space s @ strip s @ rev (takeWhile is_space (rev ?d))"
    by (simp add: strip_def strip_by_def)
  then show ?thesis by (metis set_rev set_takeWhileD)
qed

lemma declared_type_contains:
  assumes "59 \<notin> set ct" "contains t (py_lower ct)" "t \<noteq> []" "\<forall>c \<in> set t. \<not> is_space c"
  shows "contains t (declared_type ct)"
proof -
  have "before_first 59 ct = ct"
    using assms(1) by (simp add: before_first_simps)
  then have d: "declared_type ct = py_lower (strip ct)" by (simp add: declared_type_def)
  obtain pre post where "ct = pre @ strip ct @ post" "\<forall>c \<in> set pre. is_space c"
    "\<forall>c \<in> set post. is_space c" using strip_surround by blast
  then have "py_lower ct = pre @ py_lower (strip ct) @ post"
    by (metis py_lower_append py_lower_spaces)
  with assms(2-4) show ?thesis
    unfolding d using \<open>\<forall>c \<in> set pre. is_space c\<close> \<open>\<forall>c \<in> set post. is_space c\<close>
    by (metis contains_word_spaces)
qed

text \<open>
  The spoofing check never applies to a plain content type. The pipeline inspects a body only
  under seven textual content types, and none of them declares an image, PDF or archive type; a
  PHP-free file with the wrong declared type is never reported as spoofed unless the header carries
  parameters.
\<close>

theorem pipeline_spoof_check_dead:
  assumes "should_inspect_content ct" "59 \<notin> set ct"
  shows "\<not> mv_spoofed (validate_content_type data ct)"
proof
  assume "mv_spoofed (validate_content_type data ct)"
  then obtain expected where e: "map_of CONTENT_TYPE_MAP (declared_type ct) = Some expected" "expected \<noteq> []"
    by (auto simp: validate_content_type_def Let_def split: option.splits if_splits)
  obtain t where t: "t \<in> set inspect_types" "contains t (py_lower ct)"
    using assms(1) by (auto simp: should_inspect_content_def list_ex_iff)
  have "list_all (\<lambda>t. t \<noteq> [] \<and> list_all (\<lambda>c. \<not> is_space c) t) inspect_types" by code_simp
  then have "t \<noteq> []" "\<forall>c \<in> set t. \<not> is_space c" using t(1) by (auto simp: list_all_iff)
  with assms(2) t(2) have "contains t (declared_type ct)" by (intro declared_type_contains)
  moreover have "list_all (\<lambda>(k, e). e \<noteq> [] \<longrightarrow> list_all (\<lambda>t. \<not> contains t k) inspect_types) CONTENT_TYPE_MAP"
    by code_simp
  then have "\<not> contains t (declared_type ct)"
    using map_of_SomeD [OF e(1)] e(2) t(1) by (auto simp: list_all_iff)
  ultimately show False by simp
qed

theorem pipeline_spoof_check_dead_witness:
  "\<not> mv_spoofed (validate_content_type (lit ''PK'' @ [3, 4]) (lit ''Text/Plain ''))"
  by (rule pipeline_spoof_check_dead) code_simp+

end
