(* ===== verification/SocketServer.thy ===== *)
theory SocketServer
  imports Pipeline
begin

text \<open>
  The agent's socket server, \<open>agent/socket_server.py\<close>: one connection carries one JSON line and
  gets one reply. What the connection delivers is a list of \<open>recv\<close> results; JSON parsing (of the
  standard library) is a parameter that returns the request or the exception; the measured latency
  and the time limit are microseconds.
\<close>

datatype recv_result = Chunk bytes | RecvTimeout | RecvError

text \<open>
  The read loop: until an empty read, a newline or a timeout; another exception leaves the handler.
  A connection with no more results times out.
\<close>

fun recv_loop :: "recv_result list \<Rightarrow> bytes \<Rightarrow> bytes result" where
  "recv_loop [] acc = Inr acc"
| "recv_loop (RecvTimeout # rs) acc = Inr acc"
| "recv_loop (RecvError # rs) acc = Inl OSError"
| "recv_loop (Chunk c # rs) acc =
     (if c = [] then Inr acc
      else if 10 \<in> set (acc @ c) then Inr (acc @ c)
      else recv_loop rs (acc @ c))"

record server_stats =
  s_total :: nat
  s_blocked :: nat
  s_permitted :: nat
  s_errors :: nat
  s_fail_open :: nat

definition zero_stats :: server_stats where
  "zero_stats = \<lparr>s_total = 0, s_blocked = 0, s_permitted = 0, s_errors = 0, s_fail_open = 0\<rparr>"

datatype reply = FailOpen | Answer action nat "pystr option" pystr

definition reply_action :: "reply \<Rightarrow> action" where
  "reply_action p = (case p of FailOpen \<Rightarrow> PERMIT | Answer a _ _ _ \<Rightarrow> a)"

record connection =
  cn_recv :: "recv_result list"
  cn_latency :: int      \<comment> \<open>what the clock measures around the check\<close>
  cn_send_ok :: bool     \<comment> \<open>whether \<open>sendall\<close> of the answer succeeds\<close>

definition read_request :: "(pystr \<Rightarrow> request result) \<Rightarrow> bytes \<Rightarrow> request result" where
  "read_request parse data =
     (case decode_strict data of Inl e \<Rightarrow> Inl e | Inr t \<Rightarrow> parse (strip t))"

text \<open>
  \<open>_handle_connection\<close>: the reply the client gets (\<open>None\<close> if sending failed; the second attempt of
  the exception handler may fail as well and its failure is swallowed) and the new state.
\<close>

definition handle_connection ::
  "pcfg \<Rightarrow> int \<Rightarrow> (pystr \<Rightarrow> request result) \<Rightarrow> connection \<Rightarrow> pstate \<times> server_stats \<Rightarrow>
     reply option \<times> pstate \<times> server_stats" where
  "handle_connection cfg timeout parse c st =
     (let p = fst st;
          n = (snd st)\<lparr>s_total := Suc (s_total (snd st))\<rparr>;
          failed = n\<lparr>s_errors := Suc (s_errors n)\<rparr>
      in case recv_loop (cn_recv c) [] of
           Inl e \<Rightarrow> (Some FailOpen, p, failed)
         | Inr data \<Rightarrow>
             (if data = [] then (Some FailOpen, p, n)
              else case read_request parse data of
                     Inl e \<Rightarrow> (Some FailOpen, p, failed)
                   | Inr r \<Rightarrow>
                       (case check cfg (cn_latency c) r p of
                          (Inl e, p') \<Rightarrow> (Some FailOpen, p', failed)
                        | (Inr v, p') \<Rightarrow>
                            (if timeout < cn_latency c then
                               (Some FailOpen, p', n\<lparr>s_fail_open := Suc (s_fail_open n)\<rparr>)
                             else if \<not> cn_send_ok c then (None, p', failed)
                             else
                               (Some (Answer (v_action v) (v_tier v) (v_cve_id v) (v_reason v)), p',
                                (if v_action v = BLOCK then n\<lparr>s_blocked := Suc (s_blocked n)\<rparr>
                                 else n\<lparr>s_permitted := Suc (s_permitted n)\<rparr>))))))"

lemma handle_cases:
  assumes "handle_connection cfg timeout parse c (p, n0) = (out, p', n')"
  obtains (no_data) "recv_loop (cn_recv c) [] = Inr []" "out = Some FailOpen" "p' = p"
      "n' = n0\<lparr>s_total := Suc (s_total n0)\<rparr>"
  | (failed) "out \<in> {None, Some FailOpen}"
      "n' = n0\<lparr>s_total := Suc (s_total n0), s_errors := Suc (s_errors n0)\<rparr>"
  | (late) "out = Some FailOpen" "timeout < cn_latency c"
      "n' = n0\<lparr>s_total := Suc (s_total n0), s_fail_open := Suc (s_fail_open n0)\<rparr>"
  | (answered) data r v where "recv_loop (cn_recv c) [] = Inr data" "read_request parse data = Inr r"
      "fst (check cfg (cn_latency c) r p) = Inr v" "cn_latency c \<le> timeout"
      "out = Some (Answer (v_action v) (v_tier v) (v_cve_id v) (v_reason v))"
      "n' = (if v_action v = BLOCK
             then n0\<lparr>s_total := Suc (s_total n0), s_blocked := Suc (s_blocked n0)\<rparr>
             else n0\<lparr>s_total := Suc (s_total n0), s_permitted := Suc (s_permitted n0)\<rparr>)"
  using assms
  by (auto simp: handle_connection_def Let_def split: sum.splits if_splits prod.splits)

text \<open>A server's life: any sequence of connections; \<open>m\<close> counts those that sent nothing.\<close>

inductive served ::
  "pcfg \<Rightarrow> int \<Rightarrow> (pystr \<Rightarrow> request result) \<Rightarrow> nat \<Rightarrow> pstate \<times> server_stats \<Rightarrow> bool" for cfg timeout parse where
  served_start: "served cfg timeout parse 0 (p, zero_stats)"
| served_step: "served cfg timeout parse m st \<Longrightarrow>
    handle_connection cfg timeout parse c st = (out, st') \<Longrightarrow>
    served cfg timeout parse (if recv_loop (cn_recv c) [] = Inr [] then Suc m else m) st'"

lemma handle_total:
  assumes "handle_connection cfg timeout parse c (p, n) = (out, p', n')"
    "s_total n = s_blocked n + s_permitted n + s_errors n + s_fail_open n + m"
  shows "s_total n' = s_blocked n' + s_permitted n' + s_errors n' + s_fail_open n' +
    (if recv_loop (cn_recv c) [] = Inr [] then Suc m else m)"
  using assms
  by (auto simp: handle_connection_def Let_def split: sum.splits if_splits prod.splits)

subsection \<open>Properties\<close>

text \<open>
  The server fails open and only open: a client is told BLOCK only if its bytes decoded to a
  request, the pipeline returned BLOCK for that request, and the check stayed within the time limit;
  every error, timeout and late verdict is answered PERMIT.
\<close>

theorem socket_block_only_in_time:
  assumes "handle_connection cfg timeout parse c (p, n) = (Some out, p', n')" "reply_action out = BLOCK"
  shows "cn_latency c \<le> timeout \<and>
    (\<exists>data r v. recv_loop (cn_recv c) [] = Inr data \<and> read_request parse data = Inr r \<and>
       fst (check cfg (cn_latency c) r p) = Inr v \<and> v_action v = BLOCK)"
  using assms(1)
proof (cases rule: handle_cases)
  case (answered data r v)
  then show ?thesis using assms(2) by (auto simp: reply_action_def)
qed (use assms(2) in \<open>auto simp: reply_action_def\<close>)

definition demo_connection :: connection where
  "demo_connection = \<lparr>cn_recv = [Chunk (lit ''x''), Chunk [10]], cn_latency = 0, cn_send_ok = True\<rparr>"

lemma demo_answer:
  "\<exists>out p' n'. handle_connection (demo_cfg (lit ''enforce'')) 10000 (\<lambda>t. Inr demo_sqli) demo_connection
     (demo_state, zero_stats) = (Some out, p', n') \<and> reply_action out = BLOCK"
proof -
  let ?c = "check (demo_cfg (lit ''enforce'')) 0 demo_sqli demo_state"
  have "pc_mode (demo_cfg (lit ''enforce'')) \<noteq> lit ''shadow''" "\<not> is_static_file (uri_of demo_sqli)"
    by code_simp+
  then obtain v where "fst ?c = Inr v" "v_action v = BLOCK"
    using early_block [OF _ _ demo_sqli_flagged] by blast
  moreover have "read_request (\<lambda>t. Inr demo_sqli) (lit ''x'' @ [10]) = Inr demo_sqli"
    "recv_loop (cn_recv demo_connection) [] = Inr (lit ''x'' @ [10])" by code_simp+
  moreover have "cn_latency demo_connection = 0" "cn_send_ok demo_connection"
    by (simp_all add: demo_connection_def)
  ultimately show ?thesis
    by (cases ?c) (simp add: handle_connection_def reply_action_def Let_def)
qed

theorem socket_block_only_in_time_witness:
  "\<exists>v. fst (check (demo_cfg (lit ''enforce'')) 0 demo_sqli demo_state) = Inr v \<and> v_action v = BLOCK"
proof -
  obtain out p' n' where h: "handle_connection (demo_cfg (lit ''enforce'')) 10000 (\<lambda>t. Inr demo_sqli)
      demo_connection (demo_state, zero_stats) = (Some out, p', n')" "reply_action out = BLOCK"
    using demo_answer by blast
  from socket_block_only_in_time [OF h] obtain data r v where
    "recv_loop (cn_recv demo_connection) [] = Inr data" "read_request (\<lambda>t. Inr demo_sqli) data = Inr r"
    "fst (check (demo_cfg (lit ''enforce'')) (cn_latency demo_connection) r demo_state) = Inr v"
    "v_action v = BLOCK" by blast
  then show ?thesis
    by (auto simp: read_request_def demo_connection_def split: sum.splits)
qed

text \<open>
  The server's counters add up: in every reachable state the total is the sum of the blocked,
  permitted, failed and late connections and of those that sent no data, which no counter but the
  total records.
\<close>

theorem socket_stats_balance:
  assumes "served cfg timeout parse m (p, n)"
  shows "s_total n = s_blocked n + s_permitted n + s_errors n + s_fail_open n + m"
  using assms
proof (induction m "(p, n)" arbitrary: p n rule: served.induct)
  case (served_start p)
  then show ?case by (simp add: zero_stats_def)
next
  case (served_step m st c out p n)
  then show ?case by (cases st) (auto dest: handle_total)
qed

theorem socket_stats_balance_witness:
  "\<exists>n :: server_stats. s_total n = s_blocked n + s_permitted n + s_errors n + s_fail_open n + 1 \<and> s_total n = 1"
proof -
  let ?c = "\<lparr>cn_recv = [], cn_latency = 0, cn_send_ok = True\<rparr>"
  let ?n = "zero_stats\<lparr>s_total := 1\<rparr>"
  have "handle_connection (demo_cfg []) 10 (\<lambda>t. Inl ValueError) ?c (demo_state, zero_stats) =
      (Some FailOpen, demo_state, ?n)"
    by (simp add: handle_connection_def zero_stats_def)
  from served_step [OF served_start this] have
    "served (demo_cfg []) 10 (\<lambda>t. Inl ValueError) 1 (demo_state, ?n)" by simp
  from socket_stats_balance [OF this] have
    "s_total ?n = s_blocked ?n + s_permitted ?n + s_errors ?n + s_fail_open ?n + 1" .
  moreover have "s_total ?n = 1" by simp
  ultimately show ?thesis by blast
qed

text \<open>
  A one-character body bypasses the agent. A client whose JSON request is not caught by Tiers 1
  and 2 and has a lone surrogate in its body is always answered PERMIT (fail-open), in enforce mode
  and in time: content inspection and Tier 3 never see it.
\<close>

theorem socket_surrogate_bypass:
  assumes "recv_loop (cn_recv c) [] = Inr data" "data \<noteq> []" "read_request parse data = Inr r"
    "\<not> is_static_file (uri_of r)" "early_tiers cfg (ps_patterns p) (cn_latency c) r = None"
    "rq_body r = Some (BStr t)" "x \<in> set t" "is_surrogate x"
  shows "fst (handle_connection cfg timeout parse c (p, n)) = Some FailOpen"
  using assms(1-3) pipeline_surrogate_raises [OF assms(4-8)]
  by (simp add: handle_connection_def Let_def)

definition surrogate_request :: request where
  "surrogate_request = empty_request\<lparr>rq_uri := Some (lit ''/''), rq_body := Some (BStr [55296])\<rparr>"

theorem socket_surrogate_bypass_witness:
  "fst (handle_connection (demo_cfg (lit ''enforce'')) 10000 (\<lambda>t. Inr surrogate_request) demo_connection
     (demo_state, zero_stats)) = Some FailOpen"
proof (rule socket_surrogate_bypass)
  have "check_sqli (extract_inputs surrogate_request) = None"
    "check_xss (extract_inputs surrogate_request) = None" by code_simp+
  then show "early_tiers (demo_cfg (lit ''enforce'')) (ps_patterns demo_state)
      (cn_latency demo_connection) surrogate_request = None"
    by (simp add: early_tiers_None_iff scan_None_iff demo_state_def)
  show "recv_loop (cn_recv demo_connection) [] = Inr (lit ''x'' @ [10])" by code_simp
  show "read_request (\<lambda>t. Inr surrogate_request) (lit ''x'' @ [10]) = Inr surrogate_request" by code_simp
  show "\<not> is_static_file (uri_of surrogate_request)" by code_simp
  show "is_surrogate 55296" by code_simp
  show "rq_body surrogate_request = Some (BStr [55296])" by (simp add: surrogate_request_def)
  show "(55296::int) \<in> set [55296]" by simp
qed (simp add: lit_def)

end
