(* ===== verification/PyLib.thy ===== *)
theory PyLib
  imports Floats
begin

text \<open>
  Library calls of the server: decimal text, \<open>datetime.isoformat\<close>, \<open>float\<close> of a text, \<open>re.escape\<close>,
  the form of an HMAC-SHA256 hexadecimal digest, and a digest function for the concrete examples.
\<close>

subsection \<open>Decimal text and \<open>isoformat\<close>\<close>

fun digits_of :: "nat \<Rightarrow> int \<Rightarrow> pystr" where
  "digits_of 0 n = []"
| "digits_of (Suc w) n = digits_of w (n div 10) @ [48 + n mod 10]"

function dec_pos :: "int \<Rightarrow> pystr" where
  "dec_pos n = (if n < 10 then [48 + n] else dec_pos (n div 10) @ [48 + n mod 10])"
  by pat_completeness auto

termination by (relation "measure nat") auto

definition dec_int :: "int \<Rightarrow> pystr" where
  "dec_int i = (if i < 0 then 45 # dec_pos (- i) else dec_pos i)"

text \<open>Year, month and day of a day number (days since 1970-01-01) in the proleptic Gregorian calendar.\<close>

definition civil :: "int \<Rightarrow> int \<times> int \<times> int" where
  "civil d =
     (let z = d + 719468;
          era = z div 146097;
          doe = z mod 146097;
          yoe = (doe - doe div 1460 + doe div 36524 - doe div 146096) div 365;
          doy = doe - (365 * yoe + yoe div 4 - yoe div 100);
          mp = (5 * doy + 2) div 153;
          m = (if mp < 10 then mp + 3 else mp - 9)
      in (yoe + era * 400 + (if m \<le> 2 then 1 else 0), m, doy - (153 * mp + 2) div 5 + 1))"

definition iso_utc :: "int \<Rightarrow> pystr" where
  "iso_utc us =
     (let (y, m, d) = civil (us div 86400000000);
          r = us mod 86400000000;
          s = r div 1000000;
          f = r mod 1000000
      in digits_of 4 y @ [45] @ digits_of 2 m @ [45] @ digits_of 2 d @ [84] @
         digits_of 2 (s div 3600) @ [58] @ digits_of 2 (s div 60 mod 60) @ [58] @
         digits_of 2 (s mod 60) @
         (if f = 0 then [] else [46] @ digits_of 6 f) @ lit ''+00:00'')"

declare dec_pos.simps [simp del]

subsection \<open>\<open>float\<close> of a text\<close>

text \<open>
  The grammar of \<open>float(s)\<close> on ASCII text: white space around, underscores between digits, a sign,
  infinities and NaN, decimals with an exponent. Finite values are doubles in the units of theory
  \<open>Floats\<close>; the ranges where a double overflows or is below 2^-67 are outside the model.
\<close>

datatype pyfloat = Fin dbl | NegFin dbl | PosInf | NegInf | NotANumber

definition is_digit :: "int \<Rightarrow> bool" where
  "is_digit c \<longleftrightarrow> in_range 48 57 c"

fun drop_underscores :: "int \<Rightarrow> pystr \<Rightarrow> pystr option" where
  "drop_underscores prev [] = (if prev = 95 then None else Some [])"
| "drop_underscores prev (c # cs) =
     (if c = 95 then (if is_digit prev then drop_underscores c cs else None)
      else if prev = 95 \<and> \<not> is_digit c then None
      else map_option (Cons c) (drop_underscores c cs))"

definition dec_value :: "pystr \<Rightarrow> int" where
  "dec_value ds = foldl (\<lambda>a c. a * 10 + (c - 48)) 0 ds"

text \<open>The exponent after the digits: \<open>None\<close> where the text does not end there.\<close>

definition read_exponent :: "pystr \<Rightarrow> int option" where
  "read_exponent s =
     (case s of
        [] \<Rightarrow> Some 0
      | e # r \<Rightarrow>
          if e \<noteq> 101 \<and> e \<noteq> 69 then None
          else let neg = (r \<noteq> [] \<and> hd r = 45);
                   ds = (if r \<noteq> [] \<and> (hd r = 45 \<or> hd r = 43) then tl r else r)
               in if ds = [] \<or> (\<exists>c \<in> set ds. \<not> is_digit c) then None
                  else Some (if neg then - dec_value ds else dec_value ds))"

definition scaled :: "int \<Rightarrow> int \<Rightarrow> dbl" where
  "scaled m e = (if 0 \<le> e then fl_quot (m * 10 ^ nat e) 1 else fl_quot m (10 ^ nat (- e)))"

definition read_decimal :: "pystr \<Rightarrow> dbl option" where
  "read_decimal s =
     (let ip = takeWhile is_digit s;
          r = dropWhile is_digit s;
          fp = (if r \<noteq> [] \<and> hd r = 46 then takeWhile is_digit (tl r) else []);
          r' = (if r \<noteq> [] \<and> hd r = 46 then dropWhile is_digit (tl r) else r)
      in if ip @ fp = [] then None
         else map_option (\<lambda>e. scaled (dec_value (ip @ fp)) (e - int (length fp))) (read_exponent r'))"

definition py_float :: "pystr \<Rightarrow> pyfloat option" where
  "py_float text =
     (case drop_underscores 0 (strip text) of
        None \<Rightarrow> None
      | Some s \<Rightarrow>
          let neg = (s \<noteq> [] \<and> hd s = 45);
              body = (if s \<noteq> [] \<and> (hd s = 45 \<or> hd s = 43) then tl s else s)
          in if py_lower body \<in> {lit ''inf'', lit ''infinity''} then Some (if neg then NegInf else PosInf)
             else if py_lower body = lit ''nan'' then Some NotANumber
             else map_option (if neg then NegFin else Fin) (read_decimal body))"

text \<open>\<open>int(s)\<close> on ASCII text.\<close>

definition py_int :: "pystr \<Rightarrow> int option" where
  "py_int text =
     (case drop_underscores 0 (strip text) of
        None \<Rightarrow> None
      | Some s \<Rightarrow>
          let neg = (s \<noteq> [] \<and> hd s = 45);
              ds = (if s \<noteq> [] \<and> (hd s = 45 \<or> hd s = 43) then tl s else s)
          in if ds = [] \<or> (\<exists>c \<in> set ds. \<not> is_digit c) then None
             else Some (if neg then - dec_value ds else dec_value ds))"

text \<open>\<open>x >= n\<close> for a whole number \<open>n > 0\<close>.\<close>

definition float_ge :: "pyfloat \<Rightarrow> int \<Rightarrow> bool" where
  "float_ge x n = (case x of Fin d \<Rightarrow> n * 2 ^ 120 \<le> d | PosInf \<Rightarrow> True | _ \<Rightarrow> False)"

subsection \<open>\<open>re.escape\<close> and substrings\<close>

definition re_special :: pystr where
  "re_special = lit ''()[]{}?*+-|^$.&~# '' @ [92, 9, 10, 13, 11, 12]"

definition re_escape :: "pystr \<Rightarrow> pystr" where
  "re_escape s = concat (map (\<lambda>c. if c \<in> set re_special then [92, c] else [c]) s)"

text \<open>The text before and after the first occurrence of a non-empty text.\<close>

fun cut_at :: "pystr \<Rightarrow> pystr \<Rightarrow> (pystr \<times> pystr) option" where
  "cut_at p [] = None"
| "cut_at p (c # cs) =
     (if startswith (c # cs) p then Some ([], drop (length p) (c # cs))
      else map_option (map_prod (Cons c) id) (cut_at p cs))"

subsection \<open>Digests\<close>

text \<open>What \<open>hexdigest\<close> of a SHA-256 value looks like.\<close>

definition hexdigest :: "pystr \<Rightarrow> bool" where
  "hexdigest h \<longleftrightarrow> length h = 64 \<and> (\<forall>c \<in> set h. in_range 48 57 c \<or> in_range 97 102 c)"

text \<open>A stand-in for the HMAC in the concrete examples: 64 hexadecimal digits of a checksum.\<close>

definition toy_hmac :: "pystr \<Rightarrow> pystr \<Rightarrow> pystr" where
  "toy_hmac k p = digits_of 64 (foldl (\<lambda>a c. (a * 131 + c) mod 1000000007) 7 (k @ p))"

lemma toy_hexdigest: "hexdigest (toy_hmac k p)"
proof -
  have "length (digits_of w n) = w \<and> (\<forall>c \<in> set (digits_of w n). in_range 48 57 c)" for w n
    by (induction w n rule: digits_of.induct) auto
  then show ?thesis by (simp add: hexdigest_def toy_hmac_def)
qed

end
