(* ===== verification/KeyTable.thy ===== *)
theory KeyTable
  imports Prelude "HOL-Library.AList"
begin

text \<open>
  Tables with keys. The program keeps Python dictionaries, response headers and rows with a unique column, and
  fills them by repeated assignments. \<open>key_table\<close> states what an assignment does to the lookups, \<open>key_order\<close>
  what it does to the keys and their order; theories \<open>Json\<close>, \<open>WafProxy\<close>, \<open>ServerStack\<close> and \<open>CveSync\<close> use them for
  dictionaries, headers and the signature table.
\<close>

locale key_table =
  fixes put :: "'k \<Rightarrow> 'v \<Rightarrow> 't \<Rightarrow> 't" and get :: "'t \<Rightarrow> 'k \<Rightarrow> 'a" and held :: "'v \<Rightarrow> 'a"
  assumes get_put: "get (put k v t) k' = (if k' = k then held v else get t k')"
begin

text \<open>After a sequence of assignments the last one of a key decides.\<close>

lemma get_put_all:
  "get (foldl (\<lambda>t (k, v). put k v t) t kvs) k = (case map_of (rev kvs) k of Some v \<Rightarrow> held v | None \<Rightarrow> get t k)"
  by (induction kvs rule: rev_induct) (auto simp: get_put split: option.split)

lemma get_put_all_own:
  assumes "distinct (map fst kvs)" "(k, v) \<in> set kvs"
  shows "get (foldl (\<lambda>t (k, v). put k v t) t kvs) k = held v"
  using assms by (simp add: get_put_all rev_map [symmetric] map_of_is_SomeI)

lemma get_put_all_other:
  assumes "k \<notin> fst ` set kvs"
  shows "get (foldl (\<lambda>t (k, v). put k v t) t kvs) k = get t k"
proof -
  have "map_of (rev kvs) k = None" using assms by (simp add: map_of_eq_None_iff)
  then show ?thesis by (simp add: get_put_all)
qed

end

locale key_order =
  fixes put :: "'p \<Rightarrow> 't \<Rightarrow> 't" and key_of :: "'p \<Rightarrow> 'k" and keys :: "'t \<Rightarrow> 'k list"
  assumes keys_put: "keys (put p t) = keys t @ (if key_of p \<in> set (keys t) then [] else [key_of p])"
begin

lemma distinct_put: "distinct (keys t) \<Longrightarrow> distinct (keys (put p t))"
  by (simp add: keys_put)

lemma distinct_put_all: "distinct (keys t) \<Longrightarrow> distinct (keys (foldl (\<lambda>t p. put p t) t ps))"
  by (induction ps rule: rev_induct) (simp_all add: distinct_put)

end

text \<open>Python's \<open>d[k] = v\<close> on a dictionary kept as an association list in insertion order.\<close>

interpretation dict: key_table AList.update map_of Some
  by unfold_locales (simp add: update_conv')

interpretation dict_order: key_order "\<lambda>(k, v). AList.update k v" fst "map fst"
  by unfold_locales (simp add: update_keys split: prod.split)

lemma distinct_dict_put_all:
  assumes "distinct (map fst d)"
  shows "distinct (map fst (foldl (\<lambda>d (k, v). AList.update k v d) d kvs))"
proof -
  have "foldl (\<lambda>d (k, v). AList.update k v d) d kvs = foldl (\<lambda>d p. (case p of (k, v) \<Rightarrow> AList.update k v) d) d kvs"
    by (intro foldl_cong) auto
  then show ?thesis using dict_order.distinct_put_all [OF assms, of kvs] by simp
qed

end
