(* ===== verification/Json.thy ===== *)
theory Json
  imports PyText PyLib KeyTable
begin

text \<open>
  The part of Python's \<open>json\<close> module the agent and the proxy talk through: \<open>dumps\<close> with its default settings
  and \<open>loads\<close>. A number with a fraction or an exponent, and the three special numbers, are kept as their text.
  Fuel bounds the depth and the length of the parse; \<open>pval_fuel\<close> shows that one more than the length of the
  text is enough. Python's recursion limit on nested values and its limit on the digits of an integer are
  outside the model.
\<close>

datatype json =
    JNull | JBool bool | JInt int | JFloat pystr | JStr pystr | JArr "json list" | JObj "(pystr \<times> json) list"

subsection \<open>Strings\<close>

definition hex_chr :: "int \<Rightarrow> int" where
  "hex_chr n = (if n < 10 then 48 + n else 87 + n)"

definition hex4 :: "int \<Rightarrow> pystr" where
  "hex4 n = [hex_chr (n div 4096), hex_chr (n div 256 mod 16), hex_chr (n div 16 mod 16), hex_chr (n mod 16)]"

definition unhex4 :: "pystr \<Rightarrow> int option" where
  "unhex4 s =
     (case s of
        a # b # c # d # _ \<Rightarrow>
          (case (hexval a, hexval b, hexval c, hexval d) of
             (Some w, Some x, Some y, Some z) \<Rightarrow> Some (w * 4096 + x * 256 + y * 16 + z)
           | _ \<Rightarrow> None)
      | _ \<Rightarrow> None)"

text \<open>The escapes both directions know, by the character after the backslash.\<close>

definition simple_escapes :: "(int \<times> int) list" where
  "simple_escapes = [(34, 34), (92, 92), (47, 47), (98, 8), (102, 12), (110, 10), (114, 13), (116, 9)]"

definition json_escape :: "int \<Rightarrow> pystr" where
  "json_escape c =
     (if c = 34 then [92, 34] else if c = 92 then [92, 92] else if c = 10 then [92, 110]
      else if c = 13 then [92, 114] else if c = 9 then [92, 116] else if c = 12 then [92, 102]
      else if c = 8 then [92, 98]
      else if in_range 32 126 c then [c]
      else if c < 65536 then [92, 117] @ hex4 c
      else [92, 117] @ hex4 (55296 + (c - 65536) div 1024) @ [92, 117] @ hex4 (56320 + (c - 65536) mod 1024))"

definition dumps_str :: "pystr \<Rightarrow> pystr" where
  "dumps_str s = 34 # concat (map json_escape s) @ [34]"

definition is_high :: "int \<Rightarrow> bool" where
  "is_high u \<longleftrightarrow> in_range 55296 56319 u"

definition is_low :: "int \<Rightarrow> bool" where
  "is_low u \<longleftrightarrow> in_range 56320 57343 u"

text \<open>The second half of a surrogate pair, if one follows.\<close>

definition low_half :: "int \<Rightarrow> pystr \<Rightarrow> int option" where
  "low_half u s =
     (if is_high u \<and> take 2 s = [92, 117] then
        case unhex4 (drop 2 s) of Some l \<Rightarrow> (if is_low l then Some l else None) | None \<Rightarrow> None
      else None)"

definition scons :: "int \<Rightarrow> (pystr \<times> pystr) option \<Rightarrow> (pystr \<times> pystr) option" where
  "scons c p = map_option (\<lambda>(s, r). (c # s, r)) p"

text \<open>The characters up to the closing quote, and the rest.\<close>

function pstr :: "pystr \<Rightarrow> (pystr \<times> pystr) option" where
  "pstr [] = None"
| "pstr (c # r) =
     (if c = 34 then Some ([], r)
      else if c = 92 then
        (case r of
           [] \<Rightarrow> None
         | e # r1 \<Rightarrow>
             if e = 117 then
               (case unhex4 r1 of
                  None \<Rightarrow> None
                | Some u \<Rightarrow>
                    (case low_half u (drop 4 r1) of
                       Some l \<Rightarrow> scons (65536 + (u - 55296) * 1024 + (l - 56320)) (pstr (drop 10 r1))
                     | None \<Rightarrow> scons u (pstr (drop 4 r1))))
             else (case map_of simple_escapes e of None \<Rightarrow> None | Some x \<Rightarrow> scons x (pstr r1)))
      else if c < 32 then None
      else scons c (pstr r))"
  by pat_completeness auto

termination by (relation "measure length") auto

subsection \<open>Numbers and literals\<close>

definition sign_of :: "pystr \<Rightarrow> pystr" where
  "sign_of s = (if s \<noteq> [] \<and> hd s = 45 then [45] else [])"

definition int_part :: "pystr \<Rightarrow> pystr" where
  "int_part s = (if s \<noteq> [] \<and> hd s = 48 then [48] else takeWhile is_digit s)"

definition frac_part :: "pystr \<Rightarrow> pystr" where
  "frac_part s =
     (if s \<noteq> [] \<and> hd s = 46 \<and> takeWhile is_digit (tl s) \<noteq> [] then 46 # takeWhile is_digit (tl s) else [])"

definition exp_part :: "pystr \<Rightarrow> pystr" where
  "exp_part s =
     (if s \<noteq> [] \<and> (hd s = 101 \<or> hd s = 69) then
        let sg = (if tl s \<noteq> [] \<and> (hd (tl s) = 43 \<or> hd (tl s) = 45) then [hd (tl s)] else []);
            ds = takeWhile is_digit (drop (length sg) (tl s))
        in if ds = [] then [] else hd s # sg @ ds
      else [])"

definition pnum :: "pystr \<Rightarrow> (json \<times> pystr) option" where
  "pnum s =
     (let sg = sign_of s;
          ip = int_part (drop (length sg) s);
          r1 = drop (length (sg @ ip)) s;
          fr = frac_part r1;
          r2 = drop (length fr) r1;
          ex = exp_part r2;
          r3 = drop (length ex) r2
      in if ip = [] then None
         else Some (if fr @ ex = [] then JInt (if sg = [] then dec_value ip else - dec_value ip)
                    else JFloat (sg @ ip @ fr @ ex), r3))"

definition literals :: "(pystr \<times> json) list" where
  "literals =
     [(lit ''null'', JNull), (lit ''true'', JBool True), (lit ''false'', JBool False),
      (lit ''NaN'', JFloat (lit ''NaN'')), (lit ''Infinity'', JFloat (lit ''Infinity'')),
      (lit ''-Infinity'', JFloat (lit ''-Infinity''))]"

definition patom :: "pystr \<Rightarrow> (json \<times> pystr) option" where
  "patom s =
     (case first_match (\<lambda>(t, v). startswith s t) literals of
        Some (t, v) \<Rightarrow> Some (v, drop (length t) s)
      | None \<Rightarrow> pnum s)"

subsection \<open>Values\<close>

definition json_ws :: "int \<Rightarrow> bool" where
  "json_ws c \<longleftrightarrow> c = 32 \<or> c = 9 \<or> c = 10 \<or> c = 13"

definition skip :: "pystr \<Rightarrow> pystr" where
  "skip s = dropWhile json_ws s"

text \<open>\<open>dict(pairs)\<close>: a repeated key keeps its place and takes the last value.\<close>

definition dict_of :: "(pystr \<times> 'a) list \<Rightarrow> (pystr \<times> 'a) list" where
  "dict_of ps = foldl (\<lambda>d (k, v). AList.update k v d) [] ps"

fun pval :: "nat \<Rightarrow> pystr \<Rightarrow> (json \<times> pystr) option"
and pelems :: "nat \<Rightarrow> pystr \<Rightarrow> (json list \<times> pystr) option"
and pmembers :: "nat \<Rightarrow> pystr \<Rightarrow> ((pystr \<times> json) list \<times> pystr) option" where
  "pval 0 s = None"
| "pval (Suc n) [] = None"
| "pval (Suc n) (c # r) =
     (if c = 34 then map_option (\<lambda>(s, t). (JStr s, t)) (pstr r)
      else if c = 123 then
        (if skip r \<noteq> [] \<and> hd (skip r) = 125 then Some (JObj [], tl (skip r))
         else map_option (\<lambda>(ms, t). (JObj (dict_of ms), t)) (pmembers n (skip r)))
      else if c = 91 then
        (if skip r \<noteq> [] \<and> hd (skip r) = 93 then Some (JArr [], tl (skip r))
         else map_option (\<lambda>(vs, t). (JArr vs, t)) (pelems n (skip r)))
      else patom (c # r))"
| "pelems n s =
     (case pval n s of
        None \<Rightarrow> None
      | Some (v, t) \<Rightarrow>
          (case skip t of
             [] \<Rightarrow> None
           | d # t' \<Rightarrow>
               if d = 93 then Some ([v], t')
               else if d = 44 then
                 (case n of 0 \<Rightarrow> None | Suc m \<Rightarrow> map_option (\<lambda>(vs, u). (v # vs, u)) (pelems m (skip t')))
               else None))"
| "pmembers 0 s = None"
| "pmembers (Suc n) s =
     (if s = [] \<or> hd s \<noteq> 34 then None
      else case pstr (tl s) of
        None \<Rightarrow> None
      | Some (k, t) \<Rightarrow>
          (if skip t = [] \<or> hd (skip t) \<noteq> 58 then None
           else case pval n (skip (tl (skip t))) of
             None \<Rightarrow> None
           | Some (v, t1) \<Rightarrow>
               (case skip t1 of
                  [] \<Rightarrow> None
                | d # t2 \<Rightarrow>
                    if d = 125 then Some ([(k, v)], t2)
                    else if d = 44 then map_option (\<lambda>(ms, u). ((k, v) # ms, u)) (pmembers n (skip t2))
                    else None)))"

definition loads :: "pystr \<Rightarrow> json result" where
  "loads s =
     (case pval (Suc (length s)) (skip s) of
        None \<Rightarrow> Inl JSONDecodeError
      | Some (v, r) \<Rightarrow> if skip r = [] then Inr v else Inl JSONDecodeError)"

function dumps :: "json \<Rightarrow> pystr"
and dumps_elems :: "json list \<Rightarrow> pystr"
and dumps_members :: "(pystr \<times> json) list \<Rightarrow> pystr" where
  "dumps JNull = lit ''null''"
| "dumps (JBool b) = (if b then lit ''true'' else lit ''false'')"
| "dumps (JInt i) = dec_int i"
| "dumps (JFloat t) = t"
| "dumps (JStr s) = dumps_str s"
| "dumps (JArr vs) = [91] @ dumps_elems vs @ [93]"
| "dumps (JObj ms) = [123] @ dumps_members ms @ [125]"
| "dumps_elems [] = []"
| "dumps_elems [v] = dumps v"
| "dumps_elems (v # w # vs) = dumps v @ [44, 32] @ dumps_elems (w # vs)"
| "dumps_members [] = []"
| "dumps_members [(k, v)] = dumps_str k @ [58, 32] @ dumps v"
| "dumps_members ((k, v) # m # ms) = dumps_str k @ [58, 32] @ dumps v @ [44, 32] @ dumps_members (m # ms)"
  by pat_completeness auto

termination
  by (relation "measure (case_sum size (case_sum (size_list size) (size_list (size_prod (\<lambda>_. 0) size))))") auto

subsection \<open>Round trip of strings\<close>

text \<open>Code points, without a high surrogate before a low one (\<open>loads\<close> would join the two).\<close>

fun plain_str :: "pystr \<Rightarrow> bool" where
  "plain_str [] = True"
| "plain_str (c # s) =
     (0 \<le> c \<and> c < 1114112 \<and> \<not> (is_high c \<and> s \<noteq> [] \<and> is_low (hd s)) \<and> plain_str s)"

lemma hexval_hex_chr: "0 \<le> n \<Longrightarrow> n < 16 \<Longrightarrow> hexval (hex_chr n) = Some n"
  by (auto simp: hexval_def hex_chr_def)

lemma hex_digits: "(n::int) = n div 4096 * 4096 + n div 256 mod 16 * 256 + n div 16 mod 16 * 16 + n mod 16"
proof -
  have "n div 256 * 16 + n div 16 mod 16 = n div 16" "n div 4096 * 16 + n div 256 mod 16 = n div 256"
    using div_mult_mod_eq [of "n div 16" 16] div_mult_mod_eq [of "n div 256" 16]
    by (simp_all add: zdiv_zmult2_eq [symmetric])
  moreover have "n div 16 * 16 + n mod 16 = n" by (rule div_mult_mod_eq)
  ultimately show ?thesis by linarith
qed

lemma unhex4_hex4 [simp]:
  assumes "0 \<le> n" "n < 65536"
  shows "unhex4 (hex4 n @ r) = Some n"
proof -
  have "hexval (hex_chr (n div 4096)) = Some (n div 4096)" using assms by (intro hexval_hex_chr) auto
  moreover have "hexval (hex_chr (m mod 16)) = Some (m mod 16)" for m by (rule hexval_hex_chr) auto
  ultimately have "unhex4 (hex4 n @ r) =
      Some (n div 4096 * 4096 + n div 256 mod 16 * 256 + n div 16 mod 16 * 16 + n mod 16)"
    by (simp only: unhex4_def hex4_def append_Cons list.case option.case prod.case)
  then show ?thesis by (simp only: hex_digits [symmetric])
qed

lemma length_hex4 [simp]: "length (hex4 n) = 4"
  by (simp add: hex4_def)

abbreviation escaped :: "pystr \<Rightarrow> pystr \<Rightarrow> pystr" where
  "escaped s r \<equiv> concat (map json_escape s) @ 34 # r"

definition high_of :: "int \<Rightarrow> int" where
  "high_of c = 55296 + (c - 65536) div 1024"

definition low_of :: "int \<Rightarrow> int" where
  "low_of c = 56320 + (c - 65536) mod 1024"

lemma pair_of:
  assumes "65536 \<le> c" "c < 1114112"
  shows "is_high (high_of c)" "\<not> is_low (high_of c)" "is_low (low_of c)"
    "65536 + (high_of c - 55296) * 1024 + (low_of c - 56320) = c"
    "0 \<le> high_of c" "high_of c < 65536" "0 \<le> low_of c" "low_of c < 65536"
proof -
  have "0 \<le> (c - 65536) div 1024" "(c - 65536) div 1024 < 1024" using assms by auto
  moreover have "0 \<le> (c - 65536) mod 1024" "(c - 65536) mod 1024 < 1024" by auto
  moreover have "(c - 65536) div 1024 * 1024 + (c - 65536) mod 1024 = c - 65536" by (rule div_mult_mod_eq)
  ultimately show "is_high (high_of c)" "\<not> is_low (high_of c)" "is_low (low_of c)"
    "65536 + (high_of c - 55296) * 1024 + (low_of c - 56320) = c"
    "0 \<le> high_of c" "high_of c < 65536" "0 \<le> low_of c" "low_of c < 65536"
    by (simp_all add: is_high_def is_low_def high_of_def low_of_def)
qed

lemma json_escape_cases:
  obtains (simple) e where "json_escape c = [92, e]" "e \<noteq> 117" "map_of simple_escapes e = Some c"
  | (plain) "json_escape c = [c]" "32 \<le> c" "c \<noteq> 34" "c \<noteq> 92"
  | (short) "json_escape c = [92, 117] @ hex4 c" "c < 65536"
  | (long) "json_escape c = [92, 117] @ hex4 (high_of c) @ [92, 117] @ hex4 (low_of c)" "65536 \<le> c"
proof (cases "c \<in> {34, 92, 10, 13, 9, 12, 8}")
  case True
  then show ?thesis using simple by (auto simp: json_escape_def simple_escapes_def)
next
  case False
  then have e: "json_escape c =
      (if in_range 32 126 c then [c] else if c < 65536 then [92, 117] @ hex4 c
       else [92, 117] @ hex4 (high_of c) @ [92, 117] @ hex4 (low_of c))"
    by (simp add: json_escape_def high_of_def low_of_def)
  consider "in_range 32 126 c" | "\<not> in_range 32 126 c" "c < 65536" | "\<not> in_range 32 126 c" "65536 \<le> c"
    by linarith
  then show ?thesis
  proof cases
    case 1
    with e False show ?thesis by (intro plain) simp_all
  next
    case 2
    with e show ?thesis by (intro short) (simp_all only: if_False if_True)
  next
    case 3
    with e have "\<not> c < 65536" by simp
    with e 3 show ?thesis by (intro long) (simp_all only: if_False)
  qed
qed

lemma low_half_none:
  assumes "plain_str (u # s)"
  shows "low_half u (escaped s r) = None"
proof (cases "is_high u \<and> s \<noteq> []")
  case False
  then show ?thesis by (auto simp: low_half_def)
next
  case True
  then obtain d s' where s: "s = d # s'" by (cases s) auto
  with assms True have d: "0 \<le> d" "d < 1114112" "\<not> is_low d" by auto
  show ?thesis
  proof (cases d rule: json_escape_cases)
    case long
    with pair_of [OF long(2) d(2)] show ?thesis by (simp add: s low_half_def)
  qed (use d in \<open>auto simp: s low_half_def\<close>)
qed

lemma pstr_escaped: "plain_str s \<Longrightarrow> pstr (escaped s r) = Some (s, r)"
proof (induction s)
  case (Cons c s)
  then have IH: "pstr (escaped s r) = Some (s, r)" and c: "0 \<le> c" "c < 1114112" by auto
  show ?case
  proof (cases c rule: json_escape_cases)
    case (simple e)
    with IH show ?thesis by (simp add: scons_def)
  next
    case plain
    with IH show ?thesis by (simp add: scons_def)
  next
    case short
    with IH c low_half_none [OF Cons.prems] show ?thesis by (simp add: scons_def)
  next
    case long
    note p = pair_of [OF long(2) c(2)]
    then have "low_half (high_of c) ([92, 117] @ hex4 (low_of c) @ escaped s r) = Some (low_of c)"
      by (simp add: low_half_def)
    with IH long p show ?thesis by (simp add: scons_def)
  qed
qed simp

subsection \<open>Round trip of numbers and literals\<close>

text \<open>What may follow a value: the end, a comma, a closing bracket or white space.\<close>

definition stops :: "pystr \<Rightarrow> bool" where
  "stops r \<longleftrightarrow> r = [] \<or> hd r \<in> {44, 93, 125, 10, 32}"

lemma takeWhile_stop: "r = [] \<or> \<not> P (hd r) \<Longrightarrow> takeWhile P (s @ r) = takeWhile P s"
  by (cases r; induction s) auto

lemma digits_stop: "stops r \<Longrightarrow> takeWhile is_digit (s @ r) = takeWhile is_digit s"
  by (rule takeWhile_stop) (auto simp: stops_def is_digit_def)

lemma part_stop:
  assumes "stops r"
  shows "sign_of (s @ r) = sign_of s" "int_part (s @ r) = int_part s" "frac_part (s @ r) = frac_part s"
    "exp_part (s @ r) = exp_part s"
proof -
  have r: "r \<noteq> [] \<Longrightarrow> hd r \<notin> {45, 48, 46, 101, 69, 43}" "takeWhile is_digit r = []"
    using assms digits_stop [OF assms, of "[]"] by (auto simp: stops_def)
  show "sign_of (s @ r) = sign_of s" using r by (cases s) (auto simp: sign_of_def)
  show "int_part (s @ r) = int_part s" using r digits_stop [OF assms] by (cases s) (auto simp: int_part_def)
  show "frac_part (s @ r) = frac_part s"
    using r digits_stop [OF assms] by (cases s) (auto simp: frac_part_def)
  show "exp_part (s @ r) = exp_part s"
  proof (cases s)
    case Nil
    with r show ?thesis by (cases "r = []") (simp_all add: exp_part_def)
  next
    case (Cons c s')
    have "hd (s' @ r) = hd s'" if "s' \<noteq> []" using that by simp
    with Cons r digits_stop [OF assms] show ?thesis by (cases s') (auto simp: exp_part_def Let_def)
  qed
qed

lemma part_length:
  "length (sign_of s) \<le> length s" "length (int_part s) \<le> length s" "length (frac_part s) \<le> length s"
  "length (exp_part s) \<le> length s"
proof -
  have t: "length (takeWhile is_digit x) \<le> length x" for x by (rule length_takeWhile_le)
  show "length (sign_of s) \<le> length s" by (cases s) (auto simp: sign_of_def)
  show "length (int_part s) \<le> length s" using t by (cases s) (auto simp: int_part_def)
  show "length (frac_part s) \<le> length s" using t [of "tl s"] by (cases s) (auto simp: frac_part_def)
  show "length (exp_part s) \<le> length s"
  proof (cases s)
    case (Cons c s')
    show ?thesis
      using t [of s'] t [of "tl s'"] by (cases s') (auto simp: exp_part_def Let_def Cons intro: le_SucI)
  qed (simp add: exp_part_def)
qed

lemma drop_part: "length p \<le> length s \<Longrightarrow> drop (length p) (s @ r) = drop (length p) s @ r"
  by simp

lemma pnum_stop:
  assumes "stops r"
  shows "pnum (s @ r) = map_option (\<lambda>(v, t). (v, t @ r)) (pnum s)"
proof -
  define s1 where "s1 = drop (length (sign_of s)) s"
  define s2 where "s2 = drop (length (sign_of s @ int_part s1)) s"
  define s3 where "s3 = drop (length (frac_part s2)) s2"
  note defs = s1_def [symmetric] s2_def [symmetric] s3_def [symmetric]
  have 1: "drop (length (sign_of s)) (s @ r) = s1 @ r"
    unfolding s1_def by (rule drop_part) (rule part_length)
  have "length (sign_of s @ int_part s1) \<le> length s"
    using part_length(1) [of s] part_length(2) [of s1] by (simp add: s1_def)
  then have 2: "drop (length (sign_of s @ int_part s1)) (s @ r) = s2 @ r"
    unfolding s2_def by (rule drop_part)
  have 3: "drop (length (frac_part s2)) (s2 @ r) = s3 @ r"
    unfolding s3_def by (rule drop_part) (rule part_length)
  have 4: "drop (length (exp_part s3)) (s3 @ r) = drop (length (exp_part s3)) s3 @ r"
    by (rule drop_part) (rule part_length)
  have "pnum s = (if int_part s1 = [] then None
         else Some (if frac_part s2 @ exp_part s3 = []
                    then JInt (if sign_of s = [] then dec_value (int_part s1) else - dec_value (int_part s1))
                    else JFloat (sign_of s @ int_part s1 @ frac_part s2 @ exp_part s3),
                    drop (length (exp_part s3)) s3))"
    by (simp only: pnum_def Let_def defs)
  moreover have "pnum (s @ r) = (if int_part s1 = [] then None
         else Some (if frac_part s2 @ exp_part s3 = []
                    then JInt (if sign_of s = [] then dec_value (int_part s1) else - dec_value (int_part s1))
                    else JFloat (sign_of s @ int_part s1 @ frac_part s2 @ exp_part s3),
                    drop (length (exp_part s3)) s3 @ r))"
    by (simp only: pnum_def Let_def part_stop [OF assms] 1 2 3 4)
  ultimately show ?thesis by simp
qed

lemma literal_chars: "(p, v) \<in> set literals \<Longrightarrow> stops r \<Longrightarrow> r \<noteq> [] \<Longrightarrow> hd r \<notin> set p"
  by (auto simp: literals_def stops_def lit_def)

lemma startswith_stop: "hd r \<notin> set p \<or> r = [] \<Longrightarrow> startswith (s @ r) p = startswith s p"
proof (induction s arbitrary: p)
  case Nil
  then show ?case by (cases r; cases p) (auto simp: startswith_def)
next
  case (Cons c s)
  show ?case
  proof (cases p)
    case (Cons d q)
    with Cons.prems Cons.IH [of q] show ?thesis by (auto simp: startswith_def simp del: take_append)
  qed (simp add: startswith_def)
qed

lemma patom_stop:
  assumes "stops r"
  shows "patom (s @ r) = map_option (\<lambda>(v, t). (v, t @ r)) (patom s)"
proof -
  have "first_match (\<lambda>(t, v). startswith (s @ r) t) literals = first_match (\<lambda>(t, v). startswith s t) literals"
    using literal_chars [OF _ assms] startswith_stop [of r _ s] by (intro first_match_cong) auto
  moreover have "length t \<le> length s"
    if "first_match (\<lambda>(t, v). startswith s t) literals = Some (t, v)" for t v
    using first_match_SomeD [OF that] by (auto simp: startswith_iff)
  ultimately show ?thesis by (auto simp: patom_def pnum_stop [OF assms] split: option.split)
qed

lemma dec_value_snoc: "dec_value (ds @ [c]) = dec_value ds * 10 + (c - 48)"
  by (simp add: dec_value_def)

lemma dec_pos_facts:
  "0 \<le> n \<Longrightarrow> dec_pos n \<noteq> [] \<and> (\<forall>c \<in> set (dec_pos n). is_digit c) \<and> dec_value (dec_pos n) = n \<and>
     (n = 0 \<or> hd (dec_pos n) \<noteq> 48)"
proof (induction n rule: dec_pos.induct)
  case (1 n)
  show ?case
  proof (cases "n < 10")
    case True
    with 1 show ?thesis by (simp add: dec_pos.simps [of n] dec_value_def is_digit_def)
  next
    case False
    with 1 have IH: "dec_pos (n div 10) \<noteq> []" "\<forall>c \<in> set (dec_pos (n div 10)). is_digit c"
      "dec_value (dec_pos (n div 10)) = n div 10" "n div 10 = 0 \<or> hd (dec_pos (n div 10)) \<noteq> 48" by auto
    moreover have "n div 10 \<noteq> 0" using False 1 by auto
    ultimately show ?thesis
      using False by (simp add: dec_pos.simps [of n] dec_value_snoc is_digit_def)
  qed
qed

lemma literal_heads:
  "(p, v) \<in> set literals \<Longrightarrow> \<exists>c p'. p = c # p' \<and> (\<not> is_digit c \<and> c \<noteq> 45 \<or> c = 45 \<and> (\<exists>p''. p' = 73 # p''))"
  by (auto simp: literals_def lit_def is_digit_def)

lemma literals_skip:
  assumes "s \<noteq> []" "is_digit (hd s) \<or> hd s = 45 \<and> tl s \<noteq> [] \<and> is_digit (hd (tl s))"
  shows "patom s = pnum s"
proof -
  obtain c t where s: "s = c # t" using assms(1) by (cases s) auto
  have "\<not> startswith s p" if "(p, v) \<in> set literals" for p v
  proof
    assume st: "startswith s p"
    from literal_heads [OF that] obtain d p' where p: "p = d # p'"
      "\<not> is_digit d \<and> d \<noteq> 45 \<or> d = 45 \<and> (\<exists>p''. p' = 73 # p'')" by blast
    with st s have "d = c" "startswith t p'" by (auto simp: startswith_def)
    with p assms(2) s obtain p'' where "p' = 73 # p''" "is_digit (hd t)" "t \<noteq> []" by (auto simp: is_digit_def)
    with \<open>startswith t p'\<close> show False by (cases t) (auto simp: startswith_def is_digit_def)
  qed
  then have "first_match (\<lambda>(t, v). startswith s t) literals = None" by (auto simp: first_match_None_iff)
  then show ?thesis by (simp add: patom_def)
qed

lemma takeWhile_all: "\<forall>c \<in> set s. P c \<Longrightarrow> takeWhile P s = s"
  by (simp add: takeWhile_eq_all_conv)

lemma pnum_digits:
  assumes "0 \<le> n"
  shows "pnum (dec_pos n) = Some (JInt n, [])" "pnum (45 # dec_pos n) = Some (JInt (- n), [])"
proof -
  note f = dec_pos_facts [OF assms]
  have "dec_pos 0 = [48]" by (simp add: dec_pos.simps)
  then have ip: "int_part (dec_pos n) = dec_pos n"
    using f by (cases "n = 0") (auto simp: int_part_def takeWhile_all)
  have "hd (dec_pos n) \<noteq> 45" using f by (cases "dec_pos n") (auto simp: is_digit_def)
  with f ip show "pnum (dec_pos n) = Some (JInt n, [])" "pnum (45 # dec_pos n) = Some (JInt (- n), [])"
    by (simp_all add: pnum_def Let_def sign_of_def frac_part_def exp_part_def)
qed

lemma patom_int: "patom (dec_int i) = Some (JInt i, [])"
proof (cases "i < 0")
  case True
  then have "0 \<le> - i" by simp
  with pnum_digits(2) [OF this] dec_pos_facts [OF this] True show ?thesis
    by (subst literals_skip) (auto simp: dec_int_def)
next
  case False
  then have "0 \<le> i" by simp
  with pnum_digits(1) [OF this] dec_pos_facts [OF this] False show ?thesis
    by (subst literals_skip) (auto simp: dec_int_def)
qed

subsection \<open>Round trip of values\<close>

definition float_text :: "pystr \<Rightarrow> bool" where
  "float_text t \<longleftrightarrow> t \<noteq> [] \<and> hd t \<notin> {34, 123, 91, 93, 125} \<and> (\<forall>c \<in> set t. in_range 33 126 c) \<and>
     patom t = Some (JFloat t, [])"

fun wf_json :: "json \<Rightarrow> bool" where
  "wf_json JNull = True"
| "wf_json (JBool b) = True"
| "wf_json (JInt i) = True"
| "wf_json (JFloat t) = float_text t"
| "wf_json (JStr s) = plain_str s"
| "wf_json (JArr vs) = (\<forall>v \<in> set vs. wf_json v)"
| "wf_json (JObj ms) = (distinct (map fst ms) \<and> (\<forall>(k, v) \<in> set ms. plain_str k \<and> wf_json v))"

lemma update_new: "k \<notin> fst ` set d \<Longrightarrow> AList.update k v d = d @ [(k, v)]"
  by (induction d) auto

lemma dict_of_append_new: "k \<notin> fst ` set (dict_of ps) \<Longrightarrow> dict_of (ps @ [(k, v)]) = dict_of ps @ [(k, v)]"
  by (simp add: dict_of_def update_new)

lemma dict_of_id: "distinct (map fst ps) \<Longrightarrow> dict_of ps = ps"
proof (induction ps rule: rev_induct)
  case (snoc p ps)
  then show ?case by (cases p) (auto simp: dict_of_append_new)
qed (simp add: dict_of_def)

lemma skip_id: "s \<noteq> [] \<Longrightarrow> \<not> json_ws (hd s) \<Longrightarrow> skip s = s"
  by (cases s) (auto simp: skip_def)

lemma skip_space [simp]: "skip (32 # s) = skip s"
  by (simp add: skip_def json_ws_def)

lemma dec_int_hd: "dec_int i \<noteq> [] \<and> (hd (dec_int i) = 45 \<or> is_digit (hd (dec_int i)))"
proof (cases "i < 0")
  case False
  then have "dec_pos i \<noteq> [] \<and> (\<forall>c \<in> set (dec_pos i). is_digit c)" using dec_pos_facts [of i] by auto
  with False show ?thesis by (simp add: dec_int_def)
qed (simp add: dec_int_def)

lemma dumps_hd: "wf_json v \<Longrightarrow> dumps v \<noteq> [] \<and> hd (dumps v) \<notin> {93, 125, 32, 9, 10, 13}"
proof (cases v)
  case (JInt i)
  with dec_int_hd [of i] show ?thesis by (auto simp: is_digit_def)
next
  case (JFloat t)
  assume "wf_json v"
  with JFloat have "hd t \<notin> {93, 125}" "in_range 33 126 (hd t)" "t \<noteq> []" by (auto simp: float_text_def)
  with JFloat show ?thesis by auto
qed (auto simp: lit_def dumps_str_def)

lemma skip_dumps: "wf_json v \<Longrightarrow> skip (dumps v @ r) = dumps v @ r"
  using dumps_hd [of v] by (intro skip_id) (auto simp: json_ws_def)

lemma skip_elems: "wf_json v \<Longrightarrow> skip (dumps_elems (v # vs) @ r) = dumps_elems (v # vs) @ r \<and>
    dumps_elems (v # vs) \<noteq> [] \<and> hd (dumps_elems (v # vs)) \<noteq> 93"
  using dumps_hd [of v] by (cases vs) (auto intro!: skip_id simp: json_ws_def)

lemma members_quote: "\<exists>t. dumps_members ((k, v) # ms) = 34 # t"
  by (cases ms) (auto simp: dumps_str_def)

lemma skip_members: "skip (dumps_members ((k, v) # ms) @ r) = dumps_members ((k, v) # ms) @ r"
  using members_quote [of k v ms] by (auto simp: skip_def json_ws_def)

lemma stops_simps [simp]: "stops []" "stops (44 # r)" "stops (93 # r)" "stops (125 # r)" "stops (10 # r)"
  by (simp_all add: stops_def)

lemma pval_atom:
  assumes "patom t = Some (v, [])" "t \<noteq> []" "hd t \<notin> {34, 123, 91}" "stops r" "length t < n"
  shows "pval n (t @ r) = Some (v, r)"
proof -
  obtain m where n: "n = Suc m" using assms(5) by (cases n) auto
  obtain c t' where t: "t = c # t'" using assms(2) by (cases t) auto
  have "patom (t @ r) = Some (v, r)" using patom_stop [OF assms(4), of t] assms(1) by simp
  with assms(3) show ?thesis by (simp add: n t)
qed

lemma pval_literals:
  "stops r \<Longrightarrow> length (lit ''null'') < n \<Longrightarrow> pval n (lit ''null'' @ r) = Some (JNull, r)"
  "stops r \<Longrightarrow> length (lit ''true'') < n \<Longrightarrow> pval n (lit ''true'' @ r) = Some (JBool True, r)"
  "stops r \<Longrightarrow> length (lit ''false'') < n \<Longrightarrow> pval n (lit ''false'' @ r) = Some (JBool False, r)"
proof -
  have p: "patom (lit ''null'') = Some (JNull, [])" "patom (lit ''true'') = Some (JBool True, [])"
    "patom (lit ''false'') = Some (JBool False, [])" by code_simp+
  show "stops r \<Longrightarrow> length (lit ''null'') < n \<Longrightarrow> pval n (lit ''null'' @ r) = Some (JNull, r)"
    by (rule pval_atom [OF p(1)]) (simp_all add: lit_def)
  show "stops r \<Longrightarrow> length (lit ''true'') < n \<Longrightarrow> pval n (lit ''true'' @ r) = Some (JBool True, r)"
    by (rule pval_atom [OF p(2)]) (simp_all add: lit_def)
  show "stops r \<Longrightarrow> length (lit ''false'') < n \<Longrightarrow> pval n (lit ''false'' @ r) = Some (JBool False, r)"
    by (rule pval_atom [OF p(3)]) (simp_all add: lit_def)
qed

lemma pmembers_head:
  assumes "plain_str k" "pval n (dumps v @ r) = Some (v, r)" "wf_json v"
  shows "pmembers (Suc n) (dumps_str k @ [58, 32] @ dumps v @ r) =
    (case skip r of
       [] \<Rightarrow> None
     | d # t2 \<Rightarrow>
         if d = 125 then Some ([(k, v)], t2)
         else if d = 44 then map_option (\<lambda>(ms, u). ((k, v) # ms, u)) (pmembers n (skip t2))
         else None)"
proof -
  have "dumps_str k @ [58, 32] @ dumps v @ r = 34 # escaped k ([58, 32] @ dumps v @ r)"
    by (simp add: dumps_str_def)
  moreover have "pstr (escaped k ([58, 32] @ dumps v @ r)) = Some (k, [58, 32] @ dumps v @ r)"
    by (rule pstr_escaped) (rule assms(1))
  moreover have "skip (58 # s) = 58 # s" for s by (simp add: skip_def json_ws_def)
  ultimately show ?thesis using assms(2) skip_dumps [OF assms(3), of r] by simp
qed

lemma pval_dumps_all:
  "wf_json v \<Longrightarrow> stops r \<Longrightarrow> length (dumps v) < n \<Longrightarrow> pval n (dumps v @ r) = Some (v, r)"
  "vs \<noteq> [] \<Longrightarrow> \<forall>v \<in> set vs. wf_json v \<Longrightarrow> length (dumps_elems vs) < n \<Longrightarrow>
     pelems n (dumps_elems vs @ 93 # r) = Some (vs, r)"
  "ms \<noteq> [] \<Longrightarrow> \<forall>(k, v) \<in> set ms. plain_str k \<and> wf_json v \<Longrightarrow> length (dumps_members ms) < n \<Longrightarrow>
     pmembers n (dumps_members ms @ 125 # r) = Some (ms, r)"
proof (induction v and vs and ms arbitrary: n r and n r and n r rule: dumps_dumps_elems_dumps_members.induct)
  case (2 b)
  then show ?case using pval_literals(2,3) [of r n] by auto
next
  case (3 i)
  have "patom (dec_int i) = Some (JInt i, [])" by (rule patom_int)
  moreover have "hd (dec_int i) \<notin> {34, 123, 91}" "dec_int i \<noteq> []"
    using dec_int_hd [of i] by (auto simp: is_digit_def)
  ultimately show ?case using 3 by (simp add: pval_atom)
next
  case (4 t)
  then show ?case by (simp add: pval_atom float_text_def)
next
  case (5 s)
  then obtain m where "n = Suc m" by (cases n) auto
  with 5 pstr_escaped [of s r] show ?case by (simp add: dumps_str_def)
next
  case (6 vs)
  then obtain m where n: "n = Suc m" by (cases n) auto
  show ?case
  proof (cases vs)
    case Nil
    then show ?thesis by (simp add: n skip_def json_ws_def)
  next
    case (Cons v vs')
    with 6 have "pelems m (dumps_elems vs @ 93 # r) = Some (vs, r)" by (intro 6(1)) (auto simp: n)
    moreover have "skip (dumps_elems vs @ 93 # r) = dumps_elems vs @ 93 # r" "dumps_elems vs \<noteq> []"
      "hd (dumps_elems vs) \<noteq> 93"
      using skip_elems [of v vs'] 6(2) Cons by auto
    ultimately show ?thesis by (simp add: n)
  qed
next
  case (7 ms)
  then obtain m where n: "n = Suc m" by (cases n) auto
  show ?case
  proof (cases ms)
    case Nil
    then show ?thesis by (simp add: n skip_def json_ws_def)
  next
    case (Cons p ms')
    obtain k v where p: "p = (k, v)" by (cases p)
    from 7 Cons have "pmembers m (dumps_members ms @ 125 # r) = Some (ms, r)" by (intro 7(1)) (auto simp: n)
    moreover have "skip (dumps_members ms @ 125 # r) = dumps_members ms @ 125 # r" "dumps_members ms \<noteq> []"
      "hd (dumps_members ms) = 34"
      using skip_members [of k v ms'] members_quote [of k v ms'] Cons p by auto
    moreover have "dict_of ms = ms" using 7(2) by (simp add: dict_of_id)
    ultimately show ?thesis by (simp add: n)
  qed
next
  case (9 v)
  then have "pval n (dumps v @ 93 # r) = Some (v, 93 # r)" by simp
  then show ?case by (simp add: skip_def json_ws_def)
next
  case (10 v w vs)
  then obtain m where n: "n = Suc m" by (cases n) auto
  have "pval n (dumps v @ 44 # 32 # dumps_elems (w # vs) @ 93 # r) =
      Some (v, 44 # 32 # dumps_elems (w # vs) @ 93 # r)" using 10 by (intro 10(1)) auto
  moreover have "pelems m (dumps_elems (w # vs) @ 93 # r) = Some (w # vs, r)" using 10 by (intro 10(2)) (auto simp: n)
  moreover have "skip (44 # t) = 44 # t" for t by (simp add: skip_def json_ws_def)
  ultimately show ?case using skip_elems [of w vs "93 # r"] 10(4) by (simp add: n del: dumps_elems.simps(2,3))
     (simp add: n)
next
  case (12 k v)
  then obtain m where n: "n = Suc m" by (cases n) auto
  have "pval m (dumps v @ 125 # r) = Some (v, 125 # r)" using 12 by (intro 12(1)) (auto simp: n dumps_str_def)
  from pmembers_head [OF _ this] 12(3) show ?case by (simp add: n skip_def json_ws_def)
next
  case (13 k v p ms)
  then obtain m where n: "n = Suc m" by (cases n) auto
  obtain k' v' where p: "p = (k', v')" by (cases p)
  have "pval m (dumps v @ 44 # 32 # dumps_members (p # ms) @ 125 # r) =
      Some (v, 44 # 32 # dumps_members (p # ms) @ 125 # r)" using 13 by (intro 13(1)) (auto simp: n dumps_str_def)
  from pmembers_head [OF _ this] 13(4) have "pmembers n (dumps_members ((k, v) # p # ms) @ 125 # r) =
      map_option (\<lambda>(ms, u). ((k, v) # ms, u)) (pmembers m (skip (32 # dumps_members (p # ms) @ 125 # r)))"
    by (simp add: n skip_def json_ws_def del: skip_space)
  moreover have "pmembers m (dumps_members (p # ms) @ 125 # r) = Some (p # ms, r)"
    using 13 by (intro 13(2)) (auto simp: n dumps_str_def)
  moreover have "skip (32 # dumps_members (p # ms) @ 125 # r) = dumps_members (p # ms) @ 125 # r"
    using skip_members [of k' v' ms "125 # r"] by (simp add: p)
  ultimately show ?case by simp
qed (simp_all add: pval_literals)

lemma loads_dumps: "wf_json v \<Longrightarrow> loads (dumps v) = Inr v"
  using pval_dumps_all(1) [of v "[]" "Suc (length (dumps v))"] skip_dumps [of v "[]"]
  by (simp add: loads_def skip_def)

subsection \<open>The fuel suffices\<close>

lemma skip_length: "length (skip s) \<le> length s"
  by (simp add: skip_def length_dropWhile_le)

lemma pstr_length: "pstr s = Some (t, r) \<Longrightarrow> length r < length s"
proof (induction s arbitrary: t r rule: length_induct)
  case (1 s)
  then obtain c s' where s: "s = c # s'" by (cases s) auto
  have "length r < length u" if "pstr u = Some (t', r)" "length u < length s" for u t'
    using 1(1) that by blast
  with 1(2) show ?case
    by (fastforce simp: s scons_def split: if_splits list.splits option.splits)
qed

lemma pnum_length: "pnum s = Some (v, r) \<Longrightarrow> length r < length s"
proof -
  assume p: "pnum s = Some (v, r)"
  define s1 where "s1 = drop (length (sign_of s)) s"
  from p have "int_part s1 \<noteq> []" "length r \<le> length (drop (length (sign_of s @ int_part s1)) s)"
    by (auto simp: pnum_def Let_def s1_def split: if_splits)
  moreover from this(1) have "s \<noteq> []" by (auto simp: s1_def int_part_def)
  ultimately show ?thesis by (cases "int_part s1"; cases s) auto
qed

lemma patom_length:
  assumes "patom s = Some (v, r)"
  shows "length r < length s"
proof (cases "first_match (\<lambda>(t, v). startswith s t) literals")
  case None
  with assms show ?thesis by (auto simp: patom_def intro: pnum_length)
next
  case (Some p)
  then have "p \<in> set literals" "startswith s (fst p)" using first_match_SomeD by fastforce+
  then have "fst p \<noteq> []" "s \<noteq> []" by (auto simp: literals_def lit_def startswith_def)
  with Some assms show ?thesis by (cases p) (auto simp: patom_def)
qed

declare pelems.simps [simp del]

lemma pelems_Suc:
  "pval (Suc k) s = Some (v, t) \<Longrightarrow> pelems (Suc k) s =
     (case skip t of
        [] \<Rightarrow> None
      | d # t' \<Rightarrow>
          if d = 93 then Some ([v], t')
          else if d = 44 then map_option (\<lambda>(vs, u). (v # vs, u)) (pelems k (skip t'))
          else None)"
  by (cases "skip t") (simp_all add: pelems.simps [of "Suc k" s])

lemma pelems_SomeE:
  assumes "pelems n s = Some (vs, r)"
  obtains (last) v t where "pval n s = Some (v, t)" "skip t = 93 # r" "vs = [v]"
  | (more) v t t' m vs' where "pval n s = Some (v, t)" "skip t = 44 # t'" "n = Suc m"
      "pelems m (skip t') = Some (vs', r)" "vs = v # vs'"
  using assms by (auto simp: pelems.simps [of n s] split: option.splits list.splits if_splits nat.splits)

lemma pmembers_SomeE:
  assumes "pmembers (Suc n) s = Some (ms, r)"
  obtains (last) k t v t1 where "s \<noteq> []" "hd s = 34" "pstr (tl s) = Some (k, t)" "skip t \<noteq> []" "hd (skip t) = 58"
      "pval n (skip (tl (skip t))) = Some (v, t1)" "skip t1 = 125 # r" "ms = [(k, v)]"
  | (more) k t v t1 t2 ms' where "s \<noteq> []" "hd s = 34" "pstr (tl s) = Some (k, t)" "skip t \<noteq> []" "hd (skip t) = 58"
      "pval n (skip (tl (skip t))) = Some (v, t1)" "skip t1 = 44 # t2"
      "pmembers n (skip t2) = Some (ms', r)" "ms = (k, v) # ms'"
  using assms by (auto split: option.splits list.splits if_splits)

lemma skip_shorter: "skip t = d # t' \<Longrightarrow> length (skip t') < length t"
  using skip_length [of t] skip_length [of t'] by simp

lemma member_rest: "s \<noteq> [] \<Longrightarrow> pstr (tl s) = Some (k, t) \<Longrightarrow> skip t \<noteq> [] \<Longrightarrow> length (skip (tl (skip t))) + 1 < length s"
  using pstr_length [of "tl s" k t] skip_length [of t] skip_length [of "tl (skip t)"]
  by (cases s; cases "skip t") auto

lemma value_length:
  "pval n s = Some (v, r) \<Longrightarrow> length r < length s"
  "pelems n s = Some (vs, r) \<Longrightarrow> length r < length s"
  "pmembers n s = Some (ms, r) \<Longrightarrow> length r < length s"
proof (induction n s and n s and n s arbitrary: v r and vs r and ms r rule: pval_pelems_pmembers.induct)
  case (3 n c t)
  have l: "length (skip t) \<le> length t" by (rule skip_length)
  show ?case
    using 3(3) l 3(1,2) pstr_length [of t] patom_length [of "c # t"]
    by (auto split: if_splits)
next
  case (4 n s)
  from 4(3) show ?case
  proof (cases rule: pelems_SomeE)
    case (last v t)
    with 4(1) have "length t < length s" by blast
    with last skip_length [of t] show ?thesis by simp
  next
    case (more v t t' m vs')
    then have "length t < length s" "length (skip t') < length t" using 4(1) skip_shorter by blast+
    moreover have "length r < length (skip t')"
      using 4(2) [OF more(1) refl more(2) _ refl more(3,4)] by simp
    ultimately show ?thesis by simp
  qed
next
  case (6 n s)
  from 6(3) show ?case
  proof (cases rule: pmembers_SomeE)
    case (last k t v t1)
    then have "length t1 < length (skip (tl (skip t)))" using 6(1) by auto
    with last member_rest [of s k t] skip_length [of t1] show ?thesis by simp
  next
    case (more k t v t1 t2 ms')
    then have "length t1 < length (skip (tl (skip t)))" using 6(1) by auto
    moreover have "length r < length (skip t2)" using 6(2) more by auto
    ultimately show ?thesis using more member_rest [of s k t] skip_shorter [of t1 44 t2] by simp
  qed
qed auto

lemma value_fuel:
  "length s < n \<Longrightarrow> length s < m \<Longrightarrow> pval n s = pval m s"
  "length s < n \<Longrightarrow> length s < m \<Longrightarrow> pelems n s = pelems m s"
  "length s < n \<Longrightarrow> length s < m \<Longrightarrow> pmembers n s = pmembers m s"
proof (induction n s and n s and n s arbitrary: m and m and m rule: pval_pelems_pmembers.induct)
  case (2 n)
  then show ?case by (cases m) auto
next
  case (3 n c t)
  then obtain m' where m: "m = Suc m'" by (cases m) auto
  have "length (skip t) < n" "length (skip t) < m'" using 3(3,4) skip_length [of t] by (auto simp: m)
  with 3(1) [of m'] 3(2) [of m'] show ?case by (auto simp: m)
next
  case (4 n s)
  have v: "pval n s = pval m s" by (rule 4(1)) (rule 4(3), rule 4(4))
  obtain n' m' where n: "n = Suc n'" "m = Suc m'" using 4(3,4) by (cases n; cases m) auto
  show ?case
  proof (cases "pval n s")
    case None
    with v show ?thesis by (simp add: pelems.simps [of n s] pelems.simps [of m s])
  next
    case (Some p)
    obtain x t where p: "p = (x, t)" by (cases p)
    have rec: "pelems n' (skip t') = pelems m' (skip t')" if t: "skip t = 44 # t'" for t'
    proof -
      have "length (skip t') + 1 < length s"
        using value_length(1) [OF Some [unfolded p]] skip_shorter [OF t] by simp
      with 4(3,4) n show ?thesis using 4(2) [OF Some p [symmetric] t _ refl n(1)] by simp
    qed
    have "pval (Suc n') s = Some (x, t)" "pval (Suc m') s = Some (x, t)" using Some v p n by simp_all
    then show ?thesis unfolding n by (cases "skip t") (auto simp: pelems_Suc rec)
  qed
next
  case (6 n s)
  obtain m' where m: "m = Suc m'" using 6(4) by (cases m) auto
  have v: "pval n (skip (tl (skip t))) = pval m' (skip (tl (skip t)))"
    if "s \<noteq> []" "hd s = 34" "pstr (tl s) = Some (k, t)" "skip t \<noteq> []" "hd (skip t) = 58" for k t
    using 6(1) [OF _ that(3) refl, of m'] that member_rest [OF that(1,3,4)] 6(3,4) m by auto
  have "pmembers n (skip t2) = pmembers m' (skip t2)"
    if "s \<noteq> []" "hd s = 34" "pstr (tl s) = Some (k, t)" "skip t \<noteq> []" "hd (skip t) = 58"
      "pval n (skip (tl (skip t))) = Some (x, t1)" "skip t1 = 44 # t2" for k t x t1 t2
  proof -
    have "length (skip t2) + 1 < length s"
      using member_rest [OF that(1,3,4)] value_length(1) [OF that(6)] skip_shorter [OF that(7)] by simp
    with 6(3,4) m that show ?thesis using 6(2) [OF _ that(3) refl _ that(6) refl that(7) _ refl, of m'] by auto
  qed
  with v show ?case by (auto simp: m split: option.split list.split)
qed auto

text \<open>Any fuel above the length of the text gives the same result, so \<open>loads\<close> never runs out of it.\<close>

lemma pval_fuel: "length s < n \<Longrightarrow> pval n s = pval (Suc (length s)) s"
  by (rule value_fuel(1)) simp_all

subsection \<open>The text of a value\<close>

lemma hex_chr_range: "0 \<le> n \<Longrightarrow> n < 16 \<Longrightarrow> in_range 48 102 (hex_chr n)"
  by (simp add: hex_chr_def)

lemma hex4_range:
  assumes "0 \<le> n" "n < 65536" "c \<in> set (hex4 n)"
  shows "in_range 32 126 c"
proof -
  have "in_range 48 102 (hex_chr (n div 4096))" using assms by (intro hex_chr_range) auto
  moreover have "in_range 48 102 (hex_chr (m mod 16))" for m by (rule hex_chr_range) auto
  ultimately have "in_range 48 102 c" using assms(3) by (auto simp: hex4_def)
  then show ?thesis by simp
qed

lemma dumps_str_range:
  assumes "plain_str s" "c \<in> set (dumps_str s)"
  shows "in_range 32 126 c"
proof (cases "c = 34")
  case False
  with assms(2) obtain x where x: "x \<in> set s" "c \<in> set (json_escape x)" by (auto simp: dumps_str_def)
  from assms(1) x(1) have r: "0 \<le> x" "x < 1114112" by (induction s) auto
  show ?thesis
  proof (cases x rule: json_escape_cases)
    case (simple e)
    then have "e \<in> {34, 92, 47, 98, 102, 110, 114, 116}"
      by (auto simp: simple_escapes_def split: if_splits)
    with simple x(2) show ?thesis by auto
  next
    case plain
    have "in_range 32 126 x" using plain by (auto simp: json_escape_def split: if_splits)
    with plain x(2) show ?thesis by simp
  next
    case short
    with x(2) r hex4_range [of x c] show ?thesis by auto
  next
    case long
    note p = pair_of [OF long(2) r(2)]
    show ?thesis using x(2) hex4_range [OF p(5,6)] hex4_range [OF p(7,8)] by (auto simp: long(1))
  qed
qed simp

lemma dumps_range:
  "wf_json v \<Longrightarrow> \<forall>c \<in> set (dumps v). in_range 32 126 c"
  "\<forall>v \<in> set vs. wf_json v \<Longrightarrow> \<forall>c \<in> set (dumps_elems vs). in_range 32 126 c"
  "\<forall>(k, v) \<in> set ms. plain_str k \<and> wf_json v \<Longrightarrow> \<forall>c \<in> set (dumps_members ms). in_range 32 126 c"
proof (induction v and vs and ms rule: dumps_dumps_elems_dumps_members.induct)
  case (3 i)
  have "\<forall>c \<in> set (dec_int i). c = 45 \<or> is_digit c"
    using dec_pos_facts [of i] dec_pos_facts [of "- i"] by (cases "i < 0") (auto simp: dec_int_def)
  then show ?case by (fastforce simp: is_digit_def)
next
  case (4 t)
  then show ?case by (fastforce simp: float_text_def)
next
  case (5 s)
  then show ?case using dumps_str_range [of s] by simp
next
  case (12 k v)
  then show ?case using dumps_str_range [of k] by auto
next
  case (13 k v m ms)
  then show ?case using dumps_str_range [of k] by auto
qed (auto simp: lit_def)

lemma plain_ascii: "\<forall>c \<in> set s. 0 \<le> c \<and> c < 55296 \<Longrightarrow> plain_str s"
  by (induction s) (auto simp: is_high_def)

lemma map_of_dict_of: "map_of (dict_of ps) k = map_of (rev ps) k"
  by (simp add: dict_of_def dict.get_put_all split: option.split)

lemma distinct_dict_of: "distinct (map fst (dict_of ps))"
  by (simp add: dict_of_def distinct_dict_put_all)

lemma set_update: "set (AList.update k v d) \<subseteq> insert (k, v) (set d)"
  by (induction d) auto

lemma set_dict_of: "set (dict_of ps) \<subseteq> set ps"
proof (induction ps rule: rev_induct)
  case (snoc p ps)
  then show ?case using set_update [of "fst p" "snd p" "dict_of ps"] by (auto simp: dict_of_def case_prod_beta)
qed (simp add: dict_of_def)

lemma strip_ends:
  assumes "\<not> is_space a" "\<not> is_space b" "\<forall>c \<in> set w. is_space c"
  shows "strip (a # s @ b # w) = a # s @ [b]"
proof -
  have "dropWhile is_space (rev w @ b # rev s @ [a]) = b # rev s @ [a]"
    using assms(2,3) by (subst dropWhile_append2) auto
  with assms(1) show ?thesis by (simp add: strip_def strip_by_def)
qed

end
