(* ===== verification/WafProxy.thy ===== *)
theory WafProxy
  imports SocketServer Json
begin

text \<open>
  The reverse proxy, \<open>waf-proxy/main.py\<close>: it describes a request to the agent as one JSON line, reads the
  verdict, and answers with the block page or forwards the request. The agent behind the socket and the backend
  are parameters of the proxy's definitions; \<open>agent_wire\<close> is the socket server of theory \<open>SocketServer\<close> in
  the agent's place. Texts and headers are as aiohttp presents them.
\<close>

record px_request =
  px_method :: pystr
  px_path :: pystr
  px_query :: pystr
  px_content_type :: pystr
  px_headers :: "(pystr \<times> pystr) list"   \<comment> \<open>in order, names as sent\<close>
  px_remote :: "pystr option"
  px_body :: bytes
  px_rel_url :: pystr

record px_config =
  pg_backend_url :: pystr
  pg_backend_host :: pystr
  pg_backend_scheme :: pystr

subsection \<open>The request description\<close>

text \<open>\<open>request.headers.get\<close>: the first header of that name, upper and lower case alike.\<close>

definition header_get :: "pystr \<Rightarrow> px_request \<Rightarrow> pystr option" where
  "header_get name q = map_of (map (\<lambda>(k, v). (py_lower k, v)) (px_headers q)) name"

definition headers_lower :: "px_request \<Rightarrow> (pystr \<times> pystr) list" where
  "headers_lower q = dict_of (map (\<lambda>(k, v). (py_lower k, v)) (px_headers q))"

definition client_ip :: "px_request \<Rightarrow> pystr" where
  "client_ip q =
     (case header_get (lit ''x-real-ip'') q of
        Some v \<Rightarrow> v
      | None \<Rightarrow> or_else (get_or [] (px_remote q)) (lit ''0.0.0.0''))"

definition BODY_PREFIX :: nat where
  "BODY_PREFIX = 4096"

definition body_field :: "px_request \<Rightarrow> pystr" where
  "body_field q = (if px_body q = [] then [] else b64encode (take BODY_PREFIX (px_body q)))"

definition req_data :: "pystr \<Rightarrow> px_request \<Rightarrow> json" where
  "req_data uuid q =
     JObj [(lit ''request_id'', JStr uuid),
           (lit ''client_ip'', JStr (client_ip q)),
           (lit ''method'', JStr (px_method q)),
           (lit ''uri'', JStr (px_path q)),
           (lit ''query_string'', JStr (px_query q)),
           (lit ''content_type'', JStr (px_content_type q)),
           (lit ''content_length'', JInt (int (length (px_body q)))),
           (lit ''headers'', JObj (map (\<lambda>(k, v). (k, JStr v)) (headers_lower q))),
           (lit ''body'', JStr (body_field q)),
           (lit ''user_agent'', JStr (get_or [] (header_get (lit ''user-agent'') q))),
           (lit ''server_type'', JStr (lit ''nginx''))]"

subsection \<open>The exchange with the agent\<close>

text \<open>The read loop: unlike the agent's, a timeout is an error here.\<close>

fun proxy_recv :: "recv_result list \<Rightarrow> bytes \<Rightarrow> bytes result" where
  "proxy_recv [] acc = Inl OSError"
| "proxy_recv (RecvTimeout # rs) acc = Inl OSError"
| "proxy_recv (RecvError # rs) acc = Inl OSError"
| "proxy_recv (Chunk c # rs) acc =
     (if c = [] then Inr acc
      else if 10 \<in> set (acc @ c) then Inr (acc @ c)
      else proxy_recv rs (acc @ c))"

definition bytes_strip :: "bytes \<Rightarrow> bytes" where
  "bytes_strip b = strip_by (\<lambda>c. in_range 9 13 c \<or> c = 32) b"

text \<open>\<open>json.loads\<close> of a UTF-8 reply.\<close>

definition read_reply :: "bytes \<Rightarrow> json result" where
  "read_reply buf = (case decode_strict (bytes_strip buf) of Inl e \<Rightarrow> Inl e | Inr t \<Rightarrow> loads t)"

definition fail_open_verdict :: "pystr \<Rightarrow> json" where
  "fail_open_verdict exc =
     JObj [(lit ''action'', JStr (lit ''PERMIT'')), (lit ''reason'', JStr (lit ''fail-open: '' @ exc)),
           (lit ''tier'', JInt 0), (lit ''ml_score'', JFloat (lit ''0.0'')), (lit ''latency_ms'', JFloat (lit ''0.0''))]"

text \<open>
  \<open>_consult_aiss\<close>: \<open>exchange\<close> gives what the socket delivers after the payload is sent, \<open>None\<close> where
  connecting or sending fails; \<open>exc\<close> is the text of the exception, if one is raised.
\<close>

definition consult_aiss :: "(bytes \<Rightarrow> recv_result list option) \<Rightarrow> pystr \<Rightarrow> json \<Rightarrow> json" where
  "consult_aiss exchange exc d =
     (case exchange (dumps d @ [10]) of
        None \<Rightarrow> fail_open_verdict exc
      | Some rs \<Rightarrow>
          (case proxy_recv rs [] of
             Inl e \<Rightarrow> fail_open_verdict exc
           | Inr buf \<Rightarrow> (case read_reply buf of Inl e \<Rightarrow> fail_open_verdict exc | Inr v \<Rightarrow> v)))"

subsection \<open>Reading the verdict\<close>

text \<open>\<open>int(x)\<close> and \<open>float(x)\<close> of a JSON value; \<open>None\<close> is an exception.\<close>

definition json_int :: "json \<Rightarrow> int option" where
  "json_int v =
     (case v of
        JInt i \<Rightarrow> Some i
      | JBool b \<Rightarrow> Some (if b then 1 else 0)
      | JStr s \<Rightarrow> py_int s
      | JFloat t \<Rightarrow> (case py_float t of Some (Fin d) \<Rightarrow> Some (d div 2 ^ 120) | Some (NegFin d) \<Rightarrow> Some (- (d div 2 ^ 120)) | _ \<Rightarrow> None)
      | _ \<Rightarrow> None)"

definition json_float :: "json \<Rightarrow> pyfloat option" where
  "json_float v =
     (case v of
        JInt i \<Rightarrow> Some (if i < 0 then NegFin (fl_quot (- i) 1) else Fin (fl_quot i 1))
      | JBool b \<Rightarrow> Some (Fin (fl_quot (if b then 1 else 0) 1))
      | JStr s \<Rightarrow> py_float s
      | JFloat t \<Rightarrow> py_float t
      | _ \<Rightarrow> None)"

definition truthy :: "json \<Rightarrow> bool" where
  "truthy v =
     (case v of
        JNull \<Rightarrow> False | JBool b \<Rightarrow> b | JInt i \<Rightarrow> i \<noteq> 0 | JStr s \<Rightarrow> s \<noteq> [] | JArr vs \<Rightarrow> vs \<noteq> [] | JObj ms \<Rightarrow> ms \<noteq> []
      | JFloat t \<Rightarrow> py_float t \<notin> {Some (Fin 0), Some (NegFin 0)})"

definition or_empty :: "json \<Rightarrow> json" where
  "or_empty v = (if truthy v then v else JStr [])"

record px_verdict =
  pv_action :: json
  pv_reason :: json
  pv_tier :: int
  pv_cve_id :: json
  pv_rule_name :: json
  pv_ml_score :: pyfloat
  pv_latency :: pyfloat

text \<open>\<open>None\<close>: the reply is not an object or a number cannot be converted, an exception of the handler.\<close>

definition read_verdict :: "json \<Rightarrow> px_verdict option" where
  "read_verdict v =
     (case v of
        JObj ms \<Rightarrow>
          (case (json_int (dict_get ms (lit ''tier'') (JInt 0)),
                 json_float (dict_get ms (lit ''ml_score'') (JFloat (lit ''0.0''))),
                 json_float (dict_get ms (lit ''latency_ms'') (JFloat (lit ''0.0'')))) of
             (Some t, Some s, Some l) \<Rightarrow>
               Some \<lparr>pv_action = dict_get ms (lit ''action'') (JStr (lit ''PERMIT'')),
                     pv_reason = dict_get ms (lit ''reason'') (JStr []),
                     pv_tier = t,
                     pv_cve_id = or_empty (dict_get ms (lit ''cve_id'') (JStr [])),
                     pv_rule_name = or_empty (dict_get ms (lit ''rule_name'') (JStr [])),
                     pv_ml_score = s, pv_latency = l\<rparr>
           | _ \<Rightarrow> None)
      | _ \<Rightarrow> None)"

subsection \<open>The handler\<close>

record px_event =
  pe_id :: pystr
  pe_client_ip :: pystr
  pe_method :: pystr
  pe_uri :: pystr
  pe_verdict :: px_verdict

text \<open>A request to the backend, and what comes back.\<close>

record outgoing =
  og_method :: pystr
  og_url :: pystr
  og_headers :: "(pystr \<times> pystr) list"
  og_body :: bytes

datatype backend_reply = BackendReply int "(pystr \<times> pystr) list" bytes | Unreachable pystr | BackendError pystr

text \<open>The fields the block page shows are kept apart.\<close>

datatype px_content = BlockPage json int json pyfloat pyfloat | Content bytes | Message pystr | NoContent

record px_response =
  pr_status :: int
  pr_headers :: "(pystr \<times> pystr) list"
  pr_content :: px_content

definition SKIP_HEADERS :: "pystr list" where
  "SKIP_HEADERS =
     map lit [''host'', ''transfer-encoding'', ''connection'', ''keep-alive'', ''proxy-authenticate'',
              ''proxy-authorization'', ''te'', ''trailers'', ''upgrade'']"

text \<open>The dictionary keeps names apart that differ in case.\<close>

definition set_all :: "(pystr \<times> pystr) list \<Rightarrow> (pystr \<times> pystr) list \<Rightarrow> (pystr \<times> pystr) list" where
  "set_all kvs d = foldl (\<lambda>d (k, v). AList.update k v d) d kvs"

definition own_headers :: "px_config \<Rightarrow> px_request \<Rightarrow> (pystr \<times> pystr) list" where
  "own_headers cfg q =
     (if pg_backend_host cfg \<noteq> [] then [(lit ''Host'', pg_backend_host cfg)] else []) @
     [(lit ''X-Real-IP'', client_ip q), (lit ''X-Forwarded-For'', client_ip q),
      (lit ''X-Forwarded-Proto'', if pg_backend_scheme cfg = lit ''https'' then lit ''https'' else lit ''http''),
      (lit ''X-WAF-Verdict'', lit ''PERMIT'')]"

definition proxy_headers :: "px_config \<Rightarrow> px_request \<Rightarrow> (pystr \<times> pystr) list" where
  "proxy_headers cfg q =
     set_all (own_headers cfg q) (dict_of (filter (\<lambda>(k, v). py_lower k \<notin> set SKIP_HEADERS) (px_headers q)))"

definition rstrip_slash :: "pystr \<Rightarrow> pystr" where
  "rstrip_slash s = rev (dropWhile (\<lambda>c. c = 47) (rev s))"

definition to_backend :: "px_config \<Rightarrow> px_request \<Rightarrow> outgoing" where
  "to_backend cfg q =
     \<lparr>og_method = px_method q, og_url = rstrip_slash (pg_backend_url cfg) @ px_rel_url q,
      og_headers = proxy_headers cfg q, og_body = px_body q\<rparr>"

definition RESPONSE_SKIP :: "pystr list" where
  "RESPONSE_SKIP = map lit [''transfer-encoding'', ''content-encoding'', ''connection'', ''strict-transport-security'']"

definition from_backend :: "backend_reply \<Rightarrow> px_response" where
  "from_backend r =
     (case r of
        BackendReply st hs content \<Rightarrow>
          \<lparr>pr_status = st, pr_headers = dict_of (filter (\<lambda>(k, v). py_lower k \<notin> set RESPONSE_SKIP) hs),
           pr_content = Content content\<rparr>
      | Unreachable t \<Rightarrow> \<lparr>pr_status = 502, pr_headers = [], pr_content = Message (lit ''Backend unreachable: '' @ t)\<rparr>
      | BackendError t \<Rightarrow> \<lparr>pr_status = 502, pr_headers = [], pr_content = Message (lit ''Proxy error: '' @ t)\<rparr>)"

text \<open>The response, the telemetry event, and the request sent to the backend, if any.\<close>

definition proxy_handle ::
  "px_config \<Rightarrow> (outgoing \<Rightarrow> backend_reply) \<Rightarrow> (bytes \<Rightarrow> recv_result list option) \<Rightarrow> pystr \<Rightarrow> pystr \<Rightarrow> px_request \<Rightarrow>
     px_response \<times> px_event option \<times> outgoing option" where
  "proxy_handle cfg backend exchange exc uuid q =
     (case read_verdict (consult_aiss exchange exc (req_data uuid q)) of
        None \<Rightarrow> (\<lparr>pr_status = 500, pr_headers = [], pr_content = NoContent\<rparr>, None, None)
      | Some v \<Rightarrow>
          let event = \<lparr>pe_id = uuid, pe_client_ip = client_ip q, pe_method = px_method q, pe_uri = px_path q,
                       pe_verdict = v\<rparr>
          in if pv_action v = JStr (lit ''BLOCK'') then
               (\<lparr>pr_status = 403, pr_headers = [],
                 pr_content = BlockPage (pv_reason v) (pv_tier v)
                   (if truthy (pv_cve_id v) then pv_cve_id v else JStr (lit ''N/A'')) (pv_ml_score v) (pv_latency v)\<rparr>,
                Some event, None)
             else (from_backend (backend (to_backend cfg q)), Some event, Some (to_backend cfg q)))"

text \<open>\<open>health\<close> answers without the agent; aiohttp routes HEAD requests to it as well.\<close>

definition proxy_health :: px_response where
  "proxy_health =
     \<lparr>pr_status = 200, pr_headers = [],
      pr_content = Content (lit ''{'' @ [34] @ lit ''status'' @ [34, 58, 34] @ lit ''ok'' @ [34, 44, 34] @
        lit ''service'' @ [34, 58, 34] @ lit ''waf-proxy'' @ [34] @ lit ''}'')\<rparr>"

definition proxy_route ::
  "px_config \<Rightarrow> (outgoing \<Rightarrow> backend_reply) \<Rightarrow> (bytes \<Rightarrow> recv_result list option) \<Rightarrow> pystr \<Rightarrow> pystr \<Rightarrow> px_request \<Rightarrow>
     px_response \<times> px_event option \<times> outgoing option" where
  "proxy_route cfg backend exchange exc uuid q =
     (if px_method q \<in> {lit ''GET'', lit ''HEAD''} \<and> px_path q = lit ''/health'' then (proxy_health, None, None)
      else proxy_handle cfg backend exchange exc uuid q)"

subsection \<open>Registration\<close>

text \<open>
  \<open>_register_agent\<close>: ten attempts; \<open>post i\<close> is the status of the i-th answer, \<open>None\<close> where it raises. The
  number of posts made and whether the agent knows it is registered.
\<close>

fun register_attempts :: "(nat \<Rightarrow> int option) \<Rightarrow> nat \<Rightarrow> nat \<Rightarrow> nat \<times> bool" where
  "register_attempts post i 0 = (i, False)"
| "register_attempts post i (Suc n) =
     (if post i = Some 201 \<or> post i = Some 409 then (Suc i, True) else register_attempts post (Suc i) n)"

definition register_proxy :: "(nat \<Rightarrow> int option) \<Rightarrow> nat \<times> bool" where
  "register_proxy post = register_attempts post 0 10"

subsection \<open>The agent in its place\<close>

text \<open>
  The JSON object as the agent's request. A field of another type is outside the model of the agent (an
  exception here).
\<close>

definition text_field :: "(pystr \<times> json) list \<Rightarrow> pystr \<Rightarrow> pystr option result" where
  "text_field ms k =
     (case map_of ms k of None \<Rightarrow> Inr None | Some (JStr s) \<Rightarrow> Inr (Some s) | Some _ \<Rightarrow> Inl OtherException)"

fun text_dict :: "(pystr \<times> json) list \<Rightarrow> (pystr \<times> pystr) list result" where
  "text_dict [] = Inr []"
| "text_dict ((k, v) # ms) =
     (case (v, text_dict ms) of (JStr s, Inr d) \<Rightarrow> Inr ((k, s) # d) | _ \<Rightarrow> Inl OtherException)"

definition headers_field :: "(pystr \<times> json) list \<Rightarrow> (pystr \<times> pystr) list option result" where
  "headers_field ms =
     (case map_of ms (lit ''headers'') of
        None \<Rightarrow> Inr None
      | Some (JObj hs) \<Rightarrow> (case text_dict hs of Inl e \<Rightarrow> Inl e | Inr d \<Rightarrow> Inr (Some d))
      | Some _ \<Rightarrow> Inl OtherException)"

definition request_of :: "json \<Rightarrow> request result" where
  "request_of v =
     (case v of
        JObj ms \<Rightarrow>
          (case (text_field ms (lit ''request_id''), text_field ms (lit ''client_ip''), text_field ms (lit ''method''),
                 text_field ms (lit ''uri''), text_field ms (lit ''query_string''),
                 text_field ms (lit ''content_type''), headers_field ms, text_field ms (lit ''body'')) of
             (Inr i, Inr ip, Inr m, Inr u, Inr q, Inr ct, Inr hs, Inr b) \<Rightarrow>
               Inr \<lparr>rq_request_id = i, rq_client_ip = ip, rq_method = m, rq_uri = u, rq_query = q,
                    rq_content_type = ct, rq_headers = hs, rq_body = map_option BStr b\<rparr>
           | _ \<Rightarrow> Inl OtherException)
      | _ \<Rightarrow> Inl OtherException)"

definition agent_parse :: "pystr \<Rightarrow> request result" where
  "agent_parse t = (case loads t of Inl e \<Rightarrow> Inl e | Inr v \<Rightarrow> request_of v)"

text \<open>The reply the agent writes; the texts of its two floating-point numbers are given.\<close>

definition reply_json :: "pystr \<Rightarrow> pystr \<Rightarrow> reply \<Rightarrow> json" where
  "reply_json score latency p =
     (case p of
        FailOpen \<Rightarrow>
          JObj [(lit ''action'', JStr (lit ''PERMIT'')), (lit ''reason'', JStr (lit ''fail-open'')), (lit ''tier'', JInt 0)]
      | Answer a tier cve reason \<Rightarrow>
          JObj [(lit ''action'', JStr (action_text a)), (lit ''reason'', JStr reason), (lit ''tier'', JInt (int tier)),
                (lit ''cve_id'', case cve of None \<Rightarrow> JNull | Some c \<Rightarrow> JStr c),
                (lit ''ml_score'', JFloat score), (lit ''latency_ms'', JFloat latency)])"

text \<open>
  The socket with the agent behind it: the payload arrives in the parts \<open>pieces\<close> makes, the reply comes back in
  such pieces and the agent closes; a failed send leaves only the closing.
\<close>

definition agent_wire ::
  "pcfg \<Rightarrow> int \<Rightarrow> int \<Rightarrow> bool \<Rightarrow> (bytes \<Rightarrow> bytes list) \<Rightarrow> pystr \<Rightarrow> pystr \<Rightarrow> pstate \<times> server_stats \<Rightarrow>
     bytes \<Rightarrow> recv_result list option" where
  "agent_wire cfg timeout lat send_ok pieces score latency st payload =
     Some ((case fst (handle_connection cfg timeout agent_parse
                   \<lparr>cn_recv = map Chunk (pieces payload), cn_latency = lat, cn_send_ok = send_ok\<rparr> st) of
              None \<Rightarrow> []
            | Some p \<Rightarrow> map Chunk (pieces (dumps (reply_json score latency p) @ [10]))) @ [Chunk []])"

text \<open>The request the agent sees.\<close>

definition agent_request :: "pystr \<Rightarrow> px_request \<Rightarrow> request" where
  "agent_request uuid q =
     \<lparr>rq_request_id = Some uuid, rq_client_ip = Some (client_ip q), rq_method = Some (px_method q),
      rq_uri = Some (px_path q), rq_query = Some (px_query q), rq_content_type = Some (px_content_type q),
      rq_headers = Some (headers_lower q), rq_body = Some (BStr (body_field q))\<rparr>"

subsection \<open>The wire\<close>

definition plain_request :: "pystr \<Rightarrow> px_request \<Rightarrow> bool" where
  "plain_request uuid q \<longleftrightarrow>
     list_all plain_str [uuid, px_method q, px_path q, px_query q, px_content_type q, get_or [] (px_remote q)] \<and>
     list_all (\<lambda>(k, v). plain_str (py_lower k) \<and> plain_str v) (px_headers q) \<and> is_bytes (px_body q)"

definition cutting :: "(bytes \<Rightarrow> bytes list) \<Rightarrow> bool" where
  "cutting pieces \<longleftrightarrow> (\<forall>p. concat (pieces p) = p \<and> [] \<notin> set (pieces p))"

lemma char_code: "0 \<le> (of_char c :: int) \<and> (of_char c :: int) < 55296"
  by (cases c) (auto simp: of_char_Char of_bool_def)

lemma plain_lit [simp]: "plain_str (lit s)"
  by (rule plain_ascii) (auto simp: lit_def char_code)

lemma text_dict_map: "text_dict (map (\<lambda>(k, v). (k, JStr v)) d) = Inr d"
  by (induction d) auto

lemma request_of_req_data: "request_of (req_data uuid q) = Inr (agent_request uuid q)"
  by (simp add: request_of_def req_data_def text_field_def headers_field_def text_dict_map lit_eq_iff
      agent_request_def)

lemma plain_header_get: "plain_request uuid q \<Longrightarrow> header_get h q = Some v \<Longrightarrow> plain_str v"
  by (auto simp: plain_request_def header_get_def list_all_iff dest!: map_of_SomeD)

lemma plain_client_ip:
  assumes "plain_request uuid q"
  shows "plain_str (client_ip q)"
proof (cases "header_get (lit ''x-real-ip'') q")
  case None
  have "plain_str (get_or [] (px_remote q))" using assms by (simp add: plain_request_def)
  then have "plain_str (or_else (get_or [] (px_remote q)) (lit ''0.0.0.0''))"
    by (simp only: or_else_def plain_lit split: if_split) simp
  with None show ?thesis by (simp only: client_ip_def option.case)
next
  case (Some v)
  with plain_header_get [OF assms Some] show ?thesis by (simp only: client_ip_def option.case)
qed

lemma is_b64_range: "is_b64_char c \<Longrightarrow> 0 \<le> c \<and> c < 55296"
  by (auto simp: is_b64_char_def b64_val_def split: if_splits)

lemma plain_body_field: "plain_request uuid q \<Longrightarrow> plain_str (body_field q)"
proof -
  assume "plain_request uuid q"
  then have b: "is_bytes (take BODY_PREFIX (px_body q))"
    by (auto simp: plain_request_def is_bytes_def dest: in_set_takeD)
  have "plain_str (b64encode (take BODY_PREFIX (px_body q)))"
    using b64encode_chars [OF b] is_b64_range by (intro plain_ascii) blast
  then show ?thesis by (simp add: body_field_def)
qed

lemma wf_req_data:
  assumes "plain_request uuid q"
  shows "wf_json (req_data uuid q)"
proof -
  have "plain_str k \<and> plain_str v" if "(k, v) \<in> set (headers_lower q)" for k v
    using that assms set_dict_of unfolding headers_lower_def plain_request_def list_all_iff by fastforce
  moreover have "distinct (map fst (map (\<lambda>(k, v). (k, JStr v)) (headers_lower q)))"
    using distinct_dict_of by (simp add: headers_lower_def case_prod_beta o_def)
  moreover have "plain_str (get_or [] (header_get h q))" for h
    using plain_header_get [OF assms, of h] by (cases "header_get h q") auto
  ultimately show ?thesis
    using assms plain_client_ip [OF assms] plain_body_field [OF assms]
    by (auto simp: req_data_def plain_request_def lit_eq_iff)
qed

lemma deliver:
  assumes "concat cs = p @ [10]" "10 \<notin> set p" "10 \<notin> set acc" "[] \<notin> set cs"
  shows "recv_loop (map Chunk cs @ rs) acc = Inr (acc @ p @ [10]) \<and>
    proxy_recv (map Chunk cs @ rs) acc = Inr (acc @ p @ [10])"
  using assms
proof (induction cs arbitrary: p acc)
  case (Cons c cs)
  show ?case
  proof (cases "10 \<in> set c")
    case True
    have "cs = []"
    proof (rule ccontr)
      assume "cs \<noteq> []"
      with Cons.prems(4) have "concat cs \<noteq> []" by (cases cs) auto
      with Cons.prems(1) have "\<exists>p'. p = c @ p'"
        by (metis append_butlast_last_id append_assoc butlast_append butlast_snoc concat.simps(2))
      with True Cons.prems(2) show False by auto
    qed
    with Cons.prems True show ?thesis by auto
  next
    case False
    with Cons.prems(1) have "concat cs \<noteq> []" by (metis append_Nil2 concat.simps(2) in_set_conv_decomp)
    with Cons.prems(1) obtain p' where p: "p = c @ p'" "concat cs = p' @ [10]"
      by (metis append_butlast_last_id append_assoc butlast_append butlast_snoc concat.simps(2) last_append last_snoc)
    with Cons.prems False Cons.IH [of p' "acc @ c"] show ?thesis by auto
  qed
qed simp

lemma decode_ascii: "\<forall>c \<in> set s. c < 128 \<Longrightarrow> decode_strict s = Inr s"
  using utf8_units_ascii [of s "[]"] by (auto simp: decode_strict_def)

lemma object_payload:
  assumes "wf_json (JObj ms)"
  defines "d \<equiv> dumps (JObj ms)"
  shows "10 \<notin> set d" "d \<noteq> []" "decode_strict d = Inr d" "decode_strict (d @ [10]) = Inr (d @ [10])"
    "strip (d @ [10]) = d" "bytes_strip (d @ [10]) = d"
proof -
  have r: "\<forall>c \<in> set d. in_range 32 126 c" unfolding d_def by (rule dumps_range(1)) (rule assms)
  then show "10 \<notin> set d" by auto
  have "\<forall>c \<in> set (d @ [10]). c < 128" using r by auto
  then show "decode_strict d = Inr d" "decode_strict (d @ [10]) = Inr (d @ [10])" by (simp_all add: decode_ascii)
  have d: "d = 123 # dumps_members ms @ [125]" by (simp add: d_def)
  then show "d \<noteq> []" by simp
  show "strip (d @ [10]) = d"
    using strip_ends [of 123 125 "[10]" "dumps_members ms"] by (simp add: d is_space_def)
  show "bytes_strip (d @ [10]) = d" by (simp add: bytes_strip_def strip_by_def d)
qed

lemma agent_reads:
  assumes "plain_request uuid q" "cutting pieces"
  defines "p \<equiv> dumps (req_data uuid q) @ [10]"
  shows "recv_loop (map Chunk (pieces p)) [] = Inr p \<and> p \<noteq> [] \<and>
    read_request agent_parse p = Inr (agent_request uuid q)"
proof -
  obtain ms where ms: "req_data uuid q = JObj ms" by (simp add: req_data_def)
  have wf: "wf_json (JObj ms)" using wf_req_data [OF assms(1)] by (simp only: ms)
  note o = object_payload [OF wf]
  have p: "p = dumps (JObj ms) @ [10]" by (simp only: p_def ms)
  have "concat (pieces p) = dumps (JObj ms) @ [10]" "[] \<notin> set (pieces p)"
    using assms(2) unfolding cutting_def by (simp_all only: p simp_thms)
  from conjunct1 [OF deliver [OF this(1) o(1) _ this(2), of "[]" "[]"]]
  have "recv_loop (map Chunk (pieces p) @ []) [] = Inr ([] @ dumps (JObj ms) @ [10])" by simp
  then have r: "recv_loop (map Chunk (pieces p)) [] = Inr p" by (simp only: append_Nil append_Nil2 p)
  have "agent_parse (dumps (JObj ms)) = Inr (agent_request uuid q)"
    using loads_dumps [OF wf] request_of_req_data [of uuid q] by (simp only: agent_parse_def sum.case ms)
  with o(4,5) have "read_request agent_parse p = Inr (agent_request uuid q)"
    by (simp only: read_request_def p sum.case)
  with r show ?thesis by (simp add: p_def)
qed

lemma reply_received:
  assumes "cutting pieces" "wf_json (JObj ms)"
  defines "d \<equiv> dumps (JObj ms)"
  shows "\<exists>buf. proxy_recv (map Chunk (pieces (d @ [10])) @ rs) [] = Inr buf \<and> read_reply buf = Inr (JObj ms)"
proof -
  note o = object_payload [OF assms(2), folded d_def]
  have "concat (pieces (d @ [10])) = d @ [10]" "[] \<notin> set (pieces (d @ [10]))"
    using assms(1) unfolding cutting_def by simp_all
  from conjunct2 [OF deliver [OF this(1) o(1) _ this(2), of "[]" rs]]
  have "proxy_recv (map Chunk (pieces (d @ [10])) @ rs) [] = Inr ([] @ d @ [10])" by simp
  moreover have "read_reply (d @ [10]) = Inr (JObj ms)"
    using loads_dumps [OF assms(2), folded d_def] o(3,6) by (simp only: read_reply_def sum.case)
  ultimately show ?thesis by simp
qed

definition reply_number :: "pystr \<Rightarrow> bool" where
  "reply_number t \<longleftrightarrow> float_text t \<and> py_float t \<noteq> None"

definition plain_reply :: "reply \<Rightarrow> bool" where
  "plain_reply p \<longleftrightarrow>
     (case p of FailOpen \<Rightarrow> True
      | Answer a tier cve reason \<Rightarrow> plain_str reason \<and> (case cve of None \<Rightarrow> True | Some c \<Rightarrow> plain_str c))"

lemma wf_reply:
  assumes "plain_reply p" "reply_number score" "reply_number latency"
  shows "\<exists>ms. reply_json score latency p = JObj ms \<and> wf_json (JObj ms)"
  using assms
  by (cases p) (auto simp: reply_json_def plain_reply_def reply_number_def lit_eq_iff action_text_def
      split: option.splits action.split)

lemma consult_agent:
  assumes "plain_request uuid q" "cutting pieces" "reply_number score" "reply_number latency"
    "fst (handle_connection cfg timeout agent_parse
       \<lparr>cn_recv = map Chunk (pieces (dumps (req_data uuid q) @ [10])), cn_latency = lat, cn_send_ok = ok\<rparr> st) = Some p"
    "plain_reply p"
  shows "consult_aiss (agent_wire cfg timeout lat ok pieces score latency st) exc (req_data uuid q) =
    reply_json score latency p"
proof -
  obtain ms where ms: "reply_json score latency p = JObj ms" "wf_json (JObj ms)"
    using wf_reply [OF assms(6,3,4)] by blast
  obtain buf where "proxy_recv (map Chunk (pieces (dumps (JObj ms) @ [10])) @ [Chunk []]) [] = Inr buf"
    "read_reply buf = Inr (JObj ms)" using reply_received [OF assms(2) ms(2)] by blast
  with assms(5) ms(1) show ?thesis by (simp only: consult_aiss_def agent_wire_def option.case sum.case)
qed

text \<open>What the agent answers to the proxy's request.\<close>

definition agent_reply :: "int \<Rightarrow> int \<Rightarrow> verdict \<Rightarrow> reply" where
  "agent_reply timeout lat v =
     (if timeout < lat then FailOpen else Answer (v_action v) (v_tier v) (v_cve_id v) (v_reason v))"

lemma agent_answers:
  assumes "plain_request uuid q" "cutting pieces"
    "fst (check cfg lat (agent_request uuid q) (fst st)) = Inr v"
  shows "fst (handle_connection cfg timeout agent_parse
       \<lparr>cn_recv = map Chunk (pieces (dumps (req_data uuid q) @ [10])), cn_latency = lat, cn_send_ok = True\<rparr> st) =
     Some (agent_reply timeout lat v)"
proof -
  obtain s' where "check cfg lat (agent_request uuid q) (fst st) = (Inr v, s')"
    using assms(3) by (metis prod.collapse)
  with agent_reads [OF assms(1,2)] show ?thesis
    by (simp add: handle_connection_def Let_def agent_reply_def)
qed

text \<open>The verdict as the proxy reads it.\<close>

definition verdict_view :: "pystr \<Rightarrow> pystr \<Rightarrow> reply \<Rightarrow> px_verdict" where
  "verdict_view score latency p =
     (case p of
        FailOpen \<Rightarrow>
          \<lparr>pv_action = JStr (lit ''PERMIT''), pv_reason = JStr (lit ''fail-open''), pv_tier = 0, pv_cve_id = JStr [],
           pv_rule_name = JStr [], pv_ml_score = Fin 0, pv_latency = Fin 0\<rparr>
      | Answer a tier cve reason \<Rightarrow>
          \<lparr>pv_action = JStr (action_text a), pv_reason = JStr reason, pv_tier = int tier,
           pv_cve_id = JStr (get_or [] cve), pv_rule_name = JStr [],
           pv_ml_score = the (py_float score), pv_latency = the (py_float latency)\<rparr>)"

lemma zero_float: "py_float (lit ''0.0'') = Some (Fin 0)"
  by code_simp

lemma read_reply_json:
  assumes "reply_number score" "reply_number latency"
  shows "read_verdict (reply_json score latency p) = Some (verdict_view score latency p)"
  using assms
  by (cases p) (auto simp: read_verdict_def reply_json_def verdict_view_def dict_get_def lit_eq_iff json_int_def
      json_float_def zero_float or_empty_def truthy_def reply_number_def split: option.split)

lemma proxy_with_agent:
  assumes "plain_request uuid q" "cutting pieces" "reply_number score" "reply_number latency"
    "fst (check cfg lat (agent_request uuid q) (fst st)) = Inr v" "plain_reply (agent_reply timeout lat v)"
  shows "read_verdict (consult_aiss (agent_wire cfg timeout lat True pieces score latency st) exc (req_data uuid q)) =
    Some (verdict_view score latency (agent_reply timeout lat v))"
  using consult_agent [OF assms(1-4) agent_answers [OF assms(1,2,5)] assms(6)] read_reply_json [OF assms(3,4)]
  by simp

lemma register_attempts_result:
  "register_attempts post i n = (k, ok) \<Longrightarrow>
     k \<le> i + n \<and> (ok \<longleftrightarrow> (\<exists>j \<in> {i ..< i + n}. post j \<in> {Some 201, Some 409})) \<and>
     (\<forall>j \<in> {i ..< k - 1}. post j \<notin> {Some 201, Some 409})"
proof (induction post i n rule: register_attempts.induct)
  case (2 post i n)
  show ?case
  proof (cases "post i \<in> {Some 201, Some 409}")
    case True
    with 2(2) have "k = Suc i" "ok" by auto
    with True show ?thesis by auto
  next
    case False
    with 2(2) have "register_attempts post (Suc i) n = (k, ok)" by simp
    with False 2(1) have IH: "k \<le> Suc i + n"
      "ok \<longleftrightarrow> (\<exists>j \<in> {Suc i ..< Suc i + n}. post j \<in> {Some 201, Some 409})"
      "\<forall>j \<in> {Suc i ..< k - 1}. post j \<notin> {Some 201, Some 409}" by simp_all
    have "{i ..< i + Suc n} = insert i {Suc i ..< Suc i + n}" by auto
    with IH(2) False have "ok \<longleftrightarrow> (\<exists>j \<in> {i ..< i + Suc n}. post j \<in> {Some 201, Some 409})" by simp
    moreover have "post j \<notin> {Some 201, Some 409}" if "j \<in> {i ..< k - 1}" for j
      using that IH(3) False by (cases "j = i") simp_all
    ultimately show ?thesis using IH(1) by simp
  qed
qed simp

lemma map_of_set_all: "map_of (set_all kvs d) k = (case map_of (rev kvs) k of Some v \<Rightarrow> Some v | None \<Rightarrow> map_of d k)"
  by (simp add: set_all_def dict.get_put_all)

lemma distinct_set_all: "distinct (map fst d) \<Longrightarrow> distinct (map fst (set_all kvs d))"
  by (simp add: set_all_def distinct_dict_put_all)

lemma map_of_rev_distinct: "distinct (map fst ps) \<Longrightarrow> map_of (rev ps) = map_of ps"
proof (rule ext)
  fix k
  assume d: "distinct (map fst ps)"
  then have "distinct (map fst (rev ps))" by (simp add: rev_map [symmetric])
  with d have "map_of (rev ps) k = Some v \<longleftrightarrow> map_of ps k = Some v" for v
    by (simp only: map_of_eq_Some_iff set_rev)
  then show "map_of (rev ps) k = map_of ps k" by (cases "map_of ps k") auto
qed

lemma map_of_filter_key:
  "map_of (filter (\<lambda>(k, v). P k) ps) k = (if P k then map_of ps k else None)"
  by (induction ps) auto

subsection \<open>Properties\<close>

definition px_event_of :: "pystr \<Rightarrow> px_request \<Rightarrow> px_verdict \<Rightarrow> px_event" where
  "px_event_of uuid q v =
     \<lparr>pe_id = uuid, pe_client_ip = client_ip q, pe_method = px_method q, pe_uri = px_path q, pe_verdict = v\<rparr>"

definition forwarded ::
  "px_config \<Rightarrow> (outgoing \<Rightarrow> backend_reply) \<Rightarrow> pystr \<Rightarrow> px_request \<Rightarrow> px_verdict \<Rightarrow>
     px_response \<times> px_event option \<times> outgoing option" where
  "forwarded cfg backend uuid q v =
     (from_backend (backend (to_backend cfg q)), Some (px_event_of uuid q v), Some (to_backend cfg q))"

lemma handle_verdict:
  assumes "read_verdict (consult_aiss exchange exc (req_data uuid q)) = Some v" "pv_action v \<noteq> JStr (lit ''BLOCK'')"
  shows "proxy_handle cfg backend exchange exc uuid q = forwarded cfg backend uuid q v"
  using assms by (simp add: proxy_handle_def forwarded_def px_event_of_def Let_def)

lemma view_action:
  "pv_action (verdict_view score latency (agent_reply timeout lat v)) = JStr (lit ''BLOCK'') \<longleftrightarrow>
     lat \<le> timeout \<and> v_action v = BLOCK"
  by (auto simp: verdict_view_def agent_reply_def action_text_def lit_eq_iff split: action.split)

lemma handle_with_agent:
  assumes "plain_request uuid q" "cutting pieces" "reply_number score" "reply_number latency"
    "fst (check cfg lat (agent_request uuid q) (fst st)) = Inr v" "plain_reply (agent_reply timeout lat v)"
  shows "proxy_handle px backend (agent_wire cfg timeout lat True pieces score latency st) exc uuid q =
    (let w = verdict_view score latency (agent_reply timeout lat v)
     in if lat \<le> timeout \<and> v_action v = BLOCK then
          (\<lparr>pr_status = 403, pr_headers = [],
            pr_content = BlockPage (JStr (v_reason v)) (int (v_tier v))
              (JStr (or_else (get_or [] (v_cve_id v)) (lit ''N/A''))) (pv_ml_score w) (pv_latency w)\<rparr>,
           Some (px_event_of uuid q w), None)
        else forwarded px backend uuid q w)"
proof (cases "lat \<le> timeout \<and> v_action v = BLOCK")
  case True
  then have "agent_reply timeout lat v = Answer BLOCK (v_tier v) (v_cve_id v) (v_reason v)"
    by (simp add: agent_reply_def)
  with proxy_with_agent [OF assms] True show ?thesis
    by (simp add: proxy_handle_def verdict_view_def px_event_of_def action_text_def Let_def truthy_def or_else_def)
next
  case False
  then have "pv_action (verdict_view score latency (agent_reply timeout lat v)) \<noteq> JStr (lit ''BLOCK'')"
    by (simp only: view_action not_False_eq_True)
  from handle_verdict [OF proxy_with_agent [OF assms] this] show ?thesis
    unfolding Let_def if_not_P [OF False] .
qed


definition demo_get :: "pystr \<Rightarrow> pystr \<Rightarrow> px_request" where
  "demo_get path qs =
     \<lparr>px_method = lit ''GET'', px_path = path, px_query = qs, px_content_type = lit ''application/octet-stream'',
      px_headers = [(lit ''Host'', lit ''shop''), (lit ''User-Agent'', lit ''curl'')], px_remote = Some (lit ''10.0.0.9''),
      px_body = [], px_rel_url = path\<rparr>"

definition demo_px :: px_config where
  "demo_px = \<lparr>pg_backend_url = lit ''http://b/'', pg_backend_host = [98], pg_backend_scheme = lit ''http''\<rparr>"

definition whole :: "bytes \<Rightarrow> bytes list" where
  "whole p = (if p = [] then [] else [p])"

definition demo_wire :: "bytes \<Rightarrow> recv_result list option" where
  "demo_wire = agent_wire (demo_cfg (lit ''enforce'')) 10000 0 True whole (lit ''0.0'') (lit ''0.0'') (demo_state, zero_stats)"

lemma demo_exchange: "cutting whole" "reply_number (lit ''0.0'')"
  by (simp add: cutting_def whole_def) code_simp

lemma static_permit:
  "is_static_file (px_path q) \<Longrightarrow> fst (check cfg lat (agent_request uuid q) s) = Inr (static_verdict lat)"
  by (simp add: check_def agent_request_def)

lemma plain_static: "plain_reply (agent_reply timeout lat (static_verdict lat'))"
  by (auto simp: plain_reply_def agent_reply_def static_verdict_def lit_def em_dash_def is_high_def)






text \<open>
  Only the first 4096 bytes of a body are ever inspected. If the agent permits a request with at least that
  many bytes, then the same request with anything appended to its body is forwarded whole: the agent sees the
  very same request.
\<close>

theorem proxy_body_tail_uninspected:
  assumes "plain_request uuid q" "is_bytes tail" "4096 \<le> length (px_body q)"
    and "cutting pieces" "reply_number score" "reply_number latency"
    and "fst (check cfg lat (agent_request uuid q) (fst st)) = Inr v" "v_action v = PERMIT"
    and "plain_reply (agent_reply timeout lat v)"
  defines "q' \<equiv> q\<lparr>px_body := px_body q @ tail\<rparr>"
  shows "agent_request uuid q' = agent_request uuid q \<and>
    snd (snd (proxy_handle px backend (agent_wire cfg timeout lat True pieces score latency st) exc uuid q')) =
      Some (to_backend px q') \<and> og_body (to_backend px q') = px_body q @ tail"
proof -
  have p: "plain_request uuid q'"
    using assms(1,2) by (auto simp: plain_request_def q'_def is_bytes_def)
  have c: "client_ip q' = client_ip q" "headers_lower q' = headers_lower q"
    by (simp_all add: q'_def client_ip_def header_get_def headers_lower_def split: option.split)
  have "body_field q' = body_field q" using assms(3) by (auto simp: q'_def body_field_def BODY_PREFIX_def)
  with c have r: "agent_request uuid q' = agent_request uuid q" by (simp add: agent_request_def q'_def)
  have v: "fst (check cfg lat (agent_request uuid q') (fst st)) = Inr v" using assms(7) r by simp
  from handle_with_agent [OF p assms(4-6) v assms(9), of px backend exc] assms(8)
  have "snd (snd (proxy_handle px backend (agent_wire cfg timeout lat True pieces score latency st) exc uuid q')) =
      Some (to_backend px q')" by (simp add: Let_def forwarded_def)
  with r show ?thesis by (simp add: to_backend_def q'_def)
qed

theorem proxy_body_tail_uninspected_witness:
  "og_body (to_backend demo_px ((demo_get (lit ''/a.css'') [])\<lparr>px_body := replicate 4096 97 @ [60]\<rparr>)) = replicate 4096 97 @ [60]"
proof -
  let ?q = "(demo_get (lit ''/a.css'') [])\<lparr>px_body := replicate 4096 97\<rparr>"
  have p0: "plain_request [117] (demo_get (lit ''/a.css'') [])" and s0: "is_static_file (lit ''/a.css'')" by code_simp+
  have p: "plain_request [117] ?q" using p0 by (auto simp: plain_request_def is_bytes_def)
  have s: "is_static_file (px_path ?q)" using s0 by (simp add: demo_get_def)
  have "og_body (to_backend demo_px (?q\<lparr>px_body := px_body ?q @ [60]\<rparr>)) = px_body ?q @ [60]"
    by (rule conjunct2 [OF conjunct2 [OF proxy_body_tail_uninspected [OF p _ _ demo_exchange demo_exchange(2)
      static_permit [OF s] _ plain_static]]]) (simp_all add: is_bytes_def static_verdict_def)
  then show ?thesis by simp
qed


end
