(* ===== verification/ProxyBody.thy ===== *)
theory ProxyBody
  imports WafProxy
begin

text \<open>
  What Tier 2 sees of a body behind the proxy: \<open>main.py\<close> sends the body as Base64 text and
  \<open>tier2_injection.py\<close> scans that text, which is never decoded for it.
\<close>

subsection \<open>Base64 text as an input of Tier 2\<close>

definition b64_plain :: "int list" where
  "b64_plain = [48..57] @ [65..90] @ [97..122] @ [47, 61]"

lemma set_b64_plain: "set b64_plain = {48..57} \<union> {65..90} \<union> {97..122} \<union> {47, 61}"
  by (simp only: b64_plain_def set_append set_upto list.set) auto

lemma b64_plain_char: "is_b64_char c \<Longrightarrow> c \<noteq> 43 \<Longrightarrow> c \<in> set b64_plain"
  by (auto simp: is_b64_char_def b64_val_def set_b64_plain split: if_splits)

lemma b64_plain_free: "37 \<notin> set b64_plain" "43 \<notin> set b64_plain"
  by (auto simp: set_b64_plain)

lemma sqli_leaves:
  "leaves True b64_plain SQL_STRUCTURAL" "leaves True b64_plain SQL_COMMENTS" "leaves True b64_plain SQL_STACKED"
  by code_simp+

lemma xss_leaves:
  "list_all (leaves True (remove1 61 b64_plain))
     [XSS_SCRIPT, XSS_JAVASCRIPT, XSS_EVENTS, XSS_DATA_URI, XSS_SVG, XSS_ENTITIES]"
  by code_simp

lemma sqli_plain: "set s \<subseteq> set b64_plain \<Longrightarrow> sqli_text s = None"
  using sqli_leaves leaves_not_found sqli_text_iff by blast

lemma xss_plain:
  assumes "set s \<subseteq> set b64_plain" "61 \<notin> set s"
  shows "xss_text s = None"
proof -
  have "set s \<subseteq> set (remove1 61 b64_plain)" using assms by (auto simp: b64_plain_def)
  then have "\<not> found True r s"
    if "r \<in> set [XSS_SCRIPT, XSS_JAVASCRIPT, XSS_EVENTS, XSS_DATA_URI, XSS_SVG, XSS_ENTITIES]" for r
    using that xss_leaves leaves_not_found unfolding list_all_iff by blast
  then show ?thesis using xss_text_iff by blast
qed

lemma unquote_b64: "set s \<subseteq> set b64_plain \<Longrightarrow> unquote_plus s = s"
  using b64_plain_free by (intro unquote_plus_plain) blast+

lemma split_on_subset: "w \<in> set (split_on d s) \<Longrightarrow> set w \<subseteq> set s"
proof (induction s arbitrary: w)
  case (Cons c s)
  obtain v vs where v: "split_on d s = v # vs" by (cases "split_on d s") auto
  show ?case
  proof (cases "c = d")
    case True
    with Cons show ?thesis by auto
  next
    case False
    with Cons.prems v have "w = c # v \<or> w \<in> set vs" by auto
    moreover have "set u \<subseteq> set s" if "u = v \<or> u \<in> set vs" for u using Cons.IH [of u] v that by auto
    ultimately show ?thesis by fastforce
  qed
qed simp

lemma param_values_subset: "w \<in> set (param_values s) \<Longrightarrow> set w \<subseteq> set s"
  using split_on_subset unfolding param_values_def after_first_def
  by (fastforce dest!: in_set_dropD set_dropWhileD)

text \<open>The inputs of Tier 2 that do not come from the body, and those that do.\<close>

definition other_inputs :: "pystr \<Rightarrow> px_request \<Rightarrow> pystr list" where
  "other_inputs uuid q = extract_inputs (agent_request uuid (q\<lparr>px_body := []\<rparr>))"

definition body_inputs :: "px_request \<Rightarrow> pystr list" where
  "body_inputs q =
     (if body_field q = [] then []
      else body_field q # (if contains (lit ''x-www-form-urlencoded'') (px_content_type q)
                           then param_values (body_field q) else []))"

lemma agent_inputs: "extract_inputs (agent_request uuid q) = other_inputs uuid q @ body_inputs q"
proof -
  have "client_ip (q\<lparr>px_body := []\<rparr>) = client_ip q" "headers_lower (q\<lparr>px_body := []\<rparr>) = headers_lower q"
    "body_field (q\<lparr>px_body := []\<rparr>) = []"
    by (simp_all add: client_ip_def header_get_def headers_lower_def body_field_def split: option.split)
  moreover from this have "header_of (agent_request uuid (q\<lparr>px_body := []\<rparr>)) = header_of (agent_request uuid q)"
    by (simp add: fun_eq_iff header_of_def agent_request_def)
  ultimately show ?thesis
    by (cases "body_field q")
      (simp_all add: other_inputs_def body_inputs_def extract_inputs_def agent_request_def header_of_def body_text_def)
qed

lemma body_inputs_plain:
  assumes "is_bytes (px_body q)" "43 \<notin> set (body_field q)" "raw \<in> set (body_inputs q)"
  shows "set raw \<subseteq> set (body_field q) \<and> set raw \<subseteq> set b64_plain"
proof -
  have b: "is_bytes (take BODY_PREFIX (px_body q))"
    using assms(1) by (auto simp: is_bytes_def dest: in_set_takeD)
  have "set (body_field q) \<subseteq> set b64_plain"
    using b64encode_chars [OF b] b64_plain_char assms(2) by (auto simp: body_field_def split: if_splits)
  moreover have "set raw \<subseteq> set (body_field q)"
    using assms(3) param_values_subset by (auto simp: body_inputs_def split: if_splits)
  ultimately show ?thesis by blast
qed

lemma check_sqli_append:
  assumes "\<And>raw. raw \<in> set ys \<Longrightarrow> sqli_text raw = None \<and> sqli_text (unquote_plus raw) = None"
  shows "check_sqli (xs @ ys) = None \<longleftrightarrow> check_sqli xs = None"
  using check_sqli_iff [of xs] check_sqli_iff [of "xs @ ys"] assms
  by (simp add: bex_Un flip: not_None_eq) argo

lemma check_xss_append:
  assumes "\<And>raw. raw \<in> set ys \<Longrightarrow> xss_text raw = None \<and> xss_text (unquote_plus raw) = None"
  shows "check_xss (xs @ ys) = None \<longleftrightarrow> check_xss xs = None"
  using check_xss_iff [of xs] check_xss_iff [of "xs @ ys"] assms
  by (simp add: bex_Un flip: not_None_eq) argo

subsection \<open>Properties\<close>

text \<open>
  C28: Behind the proxy Tier 2 is blind to bodies. For every body whose Base64 text has no plus sign, the
  SQL-injection check of the request has the same outcome as for the request without its body, and, when that
  text has no padding either, so has the XSS check: no injection in a form or JSON body is ever detected there.
\<close>

theorem proxy_body_unseen_by_tier2:
  assumes "is_bytes (px_body q)" "43 \<notin> set (body_field q)"
  shows "(check_sqli (extract_inputs (agent_request uuid q)) = None \<longleftrightarrow>
      check_sqli (extract_inputs (agent_request uuid (q\<lparr>px_body := []\<rparr>))) = None) \<and>
    (61 \<notin> set (body_field q) \<longrightarrow>
      (check_xss (extract_inputs (agent_request uuid q)) = None \<longleftrightarrow>
       check_xss (extract_inputs (agent_request uuid (q\<lparr>px_body := []\<rparr>))) = None))"
proof (intro conjI impI)
  note b = body_inputs_plain [OF assms]
  have "sqli_text raw = None \<and> sqli_text (unquote_plus raw) = None" if "raw \<in> set (body_inputs q)" for raw
    using b [OF that] by (simp add: sqli_plain unquote_b64)
  then show "check_sqli (extract_inputs (agent_request uuid q)) = None \<longleftrightarrow>
      check_sqli (extract_inputs (agent_request uuid (q\<lparr>px_body := []\<rparr>))) = None"
    unfolding agent_inputs [of uuid q] other_inputs_def [symmetric] by (rule check_sqli_append)
next
  note b = body_inputs_plain [OF assms]
  assume "61 \<notin> set (body_field q)"
  then have "xss_text raw = None \<and> xss_text (unquote_plus raw) = None" if "raw \<in> set (body_inputs q)" for raw
    using b [OF that] xss_plain [of raw] unquote_b64 [of raw] by auto
  then show "check_xss (extract_inputs (agent_request uuid q)) = None \<longleftrightarrow>
      check_xss (extract_inputs (agent_request uuid (q\<lparr>px_body := []\<rparr>))) = None"
    unfolding agent_inputs [of uuid q] other_inputs_def [symmetric] by (rule check_xss_append)
qed

text \<open>The login form of the demonstration shop with the payload its own page suggests.\<close>

definition demo_login :: px_request where
  "demo_login = (demo_get (lit ''/login'') [])
     \<lparr>px_method := lit ''POST'', px_content_type := lit ''application/x-www-form-urlencoded'',
      px_body := lit ''username=%27+OR+1%3D1--&password=password''\<rparr>"

theorem proxy_body_unseen_by_tier2_witness:
  "check_sqli (extract_inputs (agent_request [117] demo_login)) = None \<and>
   check_sqli (param_values (px_body demo_login)) \<noteq> None"
proof -
  have b: "is_bytes (px_body demo_login)" "43 \<notin> set (body_field demo_login)" by code_simp+
  have "check_sqli (extract_inputs (agent_request [117] (demo_login\<lparr>px_body := []\<rparr>))) = None" by code_simp
  moreover have "check_sqli (param_values (px_body demo_login)) \<noteq> None" by code_simp
  ultimately show ?thesis using conjunct1 [OF proxy_body_unseen_by_tier2 [OF b, of "[117]"]] by blast
qed

end
