(* ===== verification/BlockPage.thy ===== *)
theory BlockPage
  imports WafProxy
begin

text \<open>
  The block page of \<open>waf-proxy/main.py\<close>: the template \<open>BLOCK_HTML\<close>, the part of \<open>str.format\<close> it uses, and the
  question which characters of a request can reach the page. The texts are inserted without HTML escaping, so the
  page is only as harmless as the reasons the agent gives.
\<close>

subsection \<open>Numbers with a fixed number of decimals\<close>

text \<open>\<open>format(x, ".nf")\<close>: the decimal nearest to the double, half to even.\<close>

definition fixed_digits :: "nat \<Rightarrow> dbl \<Rightarrow> pystr" where
  "fixed_digits n d =
     (let q = div_even (d * 10 ^ n) (2 ^ 120)
      in dec_int (q div 10 ^ n) @ (if n = 0 then [] else 46 # digits_of n (q mod 10 ^ n)))"

definition fixed_text :: "nat \<Rightarrow> pyfloat \<Rightarrow> pystr" where
  "fixed_text n x =
     (case x of
        Fin d \<Rightarrow> fixed_digits n d
      | NegFin d \<Rightarrow> 45 # fixed_digits n d
      | PosInf \<Rightarrow> lit ''inf''
      | NegInf \<Rightarrow> lit ''-inf''
      | NotANumber \<Rightarrow> lit ''nan'')"

subsection \<open>\<open>str.format\<close>\<close>

text \<open>
  A template as plain characters and holes with a name and a format specification; \<open>None\<close> is the \<open>ValueError\<close>
  of an unmatched brace.
\<close>

datatype piece = Plain int | Hole pystr pystr

function parse_format :: "pystr \<Rightarrow> piece list option" where
  "parse_format s =
     (case s of
        [] \<Rightarrow> Some []
      | c # r \<Rightarrow>
          if c = 123 then
            (if r \<noteq> [] \<and> hd r = 123 then map_option (Cons (Plain 123)) (parse_format (tl r))
             else if dropWhile (\<lambda>x. x \<noteq> 125) r = [] then None
             else map_option (Cons (Hole (before_first 58 (before_first 125 r)) (after_first 58 (before_first 125 r))))
                    (parse_format (after_first 125 r)))
          else if c = 125 then
            (if r \<noteq> [] \<and> hd r = 125 then map_option (Cons (Plain 125)) (parse_format (tl r)) else None)
          else map_option (Cons (Plain c)) (parse_format r))"
  by pat_completeness auto
termination
proof (relation "measure length", goal_cases)
  case (3 s c r)
  then show ?case using length_dropWhile_le [of "\<lambda>x. x \<noteq> 125" r] by (simp add: after_first_def)
qed auto

declare parse_format.simps [simp del]

datatype fmt_arg = FStr json | FInt int | FFloat pyfloat

text \<open>
  One argument under its specification; a missing argument or a specification the template does not use is
  \<open>None\<close>. \<open>repr\<close> is \<open>str\<close> of a value that is neither a text nor a number.
\<close>

definition format_arg :: "(json \<Rightarrow> pystr) \<Rightarrow> fmt_arg \<Rightarrow> pystr \<Rightarrow> pystr option" where
  "format_arg repr a spec =
     (case a of
        FStr v \<Rightarrow> if spec = [] then Some (case v of JStr s \<Rightarrow> s | JInt i \<Rightarrow> dec_int i | _ \<Rightarrow> repr v) else None
      | FInt i \<Rightarrow> if spec = [] then Some (dec_int i) else None
      | FFloat x \<Rightarrow>
          if spec = lit ''.3f'' then Some (fixed_text 3 x)
          else if spec = lit ''.1f'' then Some (fixed_text 1 x) else None)"

fun fill :: "(json \<Rightarrow> pystr) \<Rightarrow> (pystr \<times> fmt_arg) list \<Rightarrow> piece list \<Rightarrow> pystr option" where
  "fill repr args [] = Some []"
| "fill repr args (Plain c # ps) = map_option (Cons c) (fill repr args ps)"
| "fill repr args (Hole name spec # ps) =
     (case map_of args name of
        None \<Rightarrow> None
      | Some a \<Rightarrow>
          (case (format_arg repr a spec, fill repr args ps) of
             (Some t, Some rest) \<Rightarrow> Some (t @ rest)
           | _ \<Rightarrow> None))"

definition str_format :: "(json \<Rightarrow> pystr) \<Rightarrow> (pystr \<times> fmt_arg) list \<Rightarrow> pystr \<Rightarrow> pystr option" where
  "str_format repr args s = (case parse_format s of None \<Rightarrow> None | Some ps \<Rightarrow> fill repr args ps)"

subsection \<open>The page\<close>

text \<open>The template, line by line.\<close>

definition BLOCK_LINES :: "pystr list" where
  "BLOCK_LINES =
     [lit ''<!DOCTYPE html>'',
      lit ''<html lang=\"en\">'',
      lit ''<head>'',
      lit ''<meta charset=\"UTF-8\"/>'',
      lit ''<title>403 '' @ [8212] @ lit '' Blocked by AISS WAF</title>'',
      lit ''<style>'',
      lit ''*{{margin:0;padding:0;box-sizing:border-box}}'',
      lit ''body{{font-family:-apple-system,BlinkMacSystemFont,'Segoe UI',sans-serif;'',
      lit ''      background:#0d1117;color:#e6edf3;display:flex;align-items:center;'',
      lit ''      justify-content:center;min-height:100vh}}'',
      lit ''.box{{text-align:center;max-width:540px;padding:48px;background:#161b22;'',
      lit ''      border:1px solid #30363d;border-radius:16px;border-top:4px solid #f85149}}'',
      lit ''.icon{{font-size:48px;margin-bottom:20px}}'',
      lit ''h1{{font-size:28px;color:#f85149;margin-bottom:6px}}'',
      lit ''.sub{{font-size:13px;color:#8b949e;margin-bottom:28px}}'',
      lit ''.reason{{font-family:monospace;font-size:13px;background:#0d1117;'',
      lit ''          border:1px solid #30363d;padding:14px 16px;border-radius:8px;'',
      lit ''          color:#e6edf3;text-align:left;word-break:break-all;margin-bottom:20px}}'',
      lit ''.meta{{font-size:12px;color:#8b949e;line-height:1.8}}'',
      lit ''.badge{{display:inline-block;padding:5px 14px;'',
      lit ''        background:rgba(248,81,73,.15);color:#f85149;'',
      lit ''        border:1px solid rgba(248,81,73,.3);border-radius:20px;'',
      lit ''        font-size:12px;font-weight:700;margin-top:24px}}'',
      lit ''strong{{color:#e6edf3}}'',
      lit ''</style>'',
      lit ''</head>'',
      lit ''<body><div class=\"box\">'',
      lit ''  <div class=\"icon\">'' @ [128737] @ lit ''</div>'',
      lit ''  <h1>Request Blocked</h1>'',
      lit ''  <div class=\"sub\">HTTP 403 '' @ [8212] @ lit '' AISS AI Security Shield</div>'',
      lit ''  <div class=\"reason\">{reason}</div>'',
      lit ''  <div class=\"meta\">'',
      lit ''    Tier: <strong>{tier}</strong> &nbsp;'' @ [183] @ lit ''&nbsp;'',
      lit ''    CVE: <strong>{cve_id}</strong> &nbsp;'' @ [183] @ lit ''&nbsp;'',
      lit ''    ML Score: <strong>{ml_score:.3f}</strong> &nbsp;'' @ [183] @ lit ''&nbsp;'',
      lit ''    Latency: <strong>{latency_ms:.1f} ms</strong>'',
      lit ''  </div>'',
      lit ''  <div class=\"badge\">'' @ [9888] @ lit '' Blocked by AISS WAF</div>'',
      lit ''</div></body>'',
      lit ''</html>'']"

definition BLOCK_HTML :: pystr where
  "BLOCK_HTML = join_with [10] BLOCK_LINES"

definition block_args :: "json \<Rightarrow> int \<Rightarrow> json \<Rightarrow> pyfloat \<Rightarrow> pyfloat \<Rightarrow> (pystr \<times> fmt_arg) list" where
  "block_args reason tier cve ml latency =
     [(lit ''reason'', FStr reason), (lit ''tier'', FInt tier), (lit ''cve_id'', FStr cve),
      (lit ''ml_score'', FFloat ml), (lit ''latency_ms'', FFloat latency)]"

text \<open>The text the client is shown for a block; other contents have none.\<close>

definition block_text :: "(json \<Rightarrow> pystr) \<Rightarrow> px_content \<Rightarrow> pystr option" where
  "block_text repr c =
     (case c of
        BlockPage reason tier cve ml latency \<Rightarrow>
          str_format repr (block_args reason tier cve ml latency) BLOCK_HTML
      | _ \<Rightarrow> None)"

subsection \<open>Which characters a match can contain\<close>

primrec may_consume :: "bool \<Rightarrow> rx \<Rightarrow> int \<Rightarrow> bool" where
  "may_consume ic Eps c = False"
| "may_consume ic (Chr a) c = chr_eq ic a c"
| "may_consume ic (Cls neg is) c = (cls_has ic is c \<noteq> neg)"
| "may_consume ic Bol c = False"
| "may_consume ic Eol c = False"
| "may_consume ic WordB c = False"
| "may_consume ic (Cat a b) c = (may_consume ic a c \<or> may_consume ic b c)"
| "may_consume ic (Alt a b) c = (may_consume ic a c \<or> may_consume ic b c)"
| "may_consume ic (Star a) c = may_consume ic a c"
| "may_consume ic (LStar a) c = may_consume ic a c"
| "may_consume ic (UpTo n a) c = may_consume ic a c"
| "may_consume ic (LUpTo n a) c = may_consume ic a c"

lemma rm_chars: "rm ic r p q \<Longrightarrow> \<exists>w. snd p = w @ snd q \<and> (\<forall>c \<in> set w. may_consume ic r c)"
proof (induction rule: rm.induct)
  case (rm_chr a c x s)
  then show ?case by (intro exI [of _ "[c]"]) simp
next
  case (rm_cls "is" c neg x s)
  then show ?case by (intro exI [of _ "[c]"]) simp
next
  case (rm_cat a p q b t)
  then obtain v w where "snd p = v @ snd q" "snd q = w @ snd t" "\<forall>c \<in> set v. may_consume ic a c"
    "\<forall>c \<in> set w. may_consume ic b c" by blast
  then show ?case by (intro exI [of _ "v @ w"]) auto
qed auto

lemma group0_chars:
  assumes "re_search ic r s = Some m" "c \<in> set (group0 m)"
  shows "may_consume ic r c"
proof -
  obtain p q where m: "m = (p, q)" by (cases m)
  have "rm ic r p q" using search_from_bounds assms(1) unfolding re_search_def m by blast
  then obtain w where w: "snd p = w @ snd q" "\<forall>c \<in> set w. may_consume ic r c" using rm_chars by blast
  then have "group0 m = w" by (simp add: group0_def m)
  with w(2) assms(2) show ?thesis by blast
qed

subsection \<open>Texts without markup\<close>

text \<open>The characters that HTML reads as markup inside an element: \<open>&\<close>, \<open><\<close> and \<open>>\<close>.\<close>

definition markup :: "int \<Rightarrow> bool" where
  "markup c \<longleftrightarrow> c = 38 \<or> c = 60 \<or> c = 62"

definition inert :: "pystr \<Rightarrow> bool" where
  "inert s \<longleftrightarrow> (\<forall>c \<in> set s. \<not> markup c)"

lemma inert_simps [simp]:
  "inert []" "inert (c # s) \<longleftrightarrow> \<not> markup c \<and> inert s" "inert (s @ t) \<longleftrightarrow> inert s \<and> inert t"
  by (auto simp: inert_def)

lemma inert_subset: "inert s \<Longrightarrow> set t \<subseteq> set s \<Longrightarrow> inert t"
  by (auto simp: inert_def)

lemma inert_filter: "inert s \<longleftrightarrow> filter markup s = []"
  by (simp add: inert_def filter_empty_conv)

lemma set_strip_by: "set (strip_by P s) \<subseteq> set s"
  by (auto simp: strip_by_def dest!: set_dropWhileD)

lemma inert_cut: "inert s \<Longrightarrow> inert (take n (strip s))"
  by (erule inert_subset) (use set_strip_by [of is_space s] in \<open>auto simp: strip_def dest!: in_set_takeD\<close>)

lemma inert_take: "inert s \<Longrightarrow> inert (take n s)"
  by (erule inert_subset) (rule set_take_subset)

lemma inert_match:
  assumes "re_search ic r s = Some m" "list_all (\<lambda>c. \<not> may_consume ic r c) [38, 60, 62]"
  shows "inert (py_strip_cut n m)"
proof -
  have "inert (group0 m)"
    using group0_chars [OF assms(1)] assms(2) by (auto simp: inert_def markup_def)
  then show ?thesis unfolding py_strip_cut_def by (rule inert_cut)
qed

lemma quiet_patterns:
  "list_all (\<lambda>c. \<not> may_consume True SQL_STRUCTURAL c) [38, 60, 62]"
  "list_all (\<lambda>c. \<not> may_consume True SQL_STACKED c) [38, 60, 62]"
  "list_all (\<lambda>c. \<not> may_consume True XSS_EVENTS c) [38, 60, 62]"
  by code_simp+

lemmas quiet_cuts =
  inert_match [OF _ quiet_patterns(1)] inert_match [OF _ quiet_patterns(2)] inert_match [OF _ quiet_patterns(3)]

lemma quiet_texts:
  "inert (lit ''SQL injection: structural match'')" "inert (lit ''SQL injection: stacked query'')"
  "inert (lit ''XSS: DOM event handler'')" "inert (lit ''SQL injection: logical tautology with comment'')"
  "list_all inert (map lit [''XSS: script tag detected'', ''XSS: javascript: protocol injection'',
     ''XSS: data: URI injection'', ''XSS: SVG-based attack'', ''XSS: HTML/URL encoded script tag''])"
  by code_simp+

lemma inert_quoted: "inert (lit pre) \<Longrightarrow> inert s \<Longrightarrow> inert (quoted pre s)"
  by (simp add: quoted_def markup_def)

lemma sqli_detail_inert: "sqli_text s = Some d \<Longrightarrow> inert (d_detail d)"
  using quiet_texts
  by (auto simp: sqli_text_def split: option.splits if_splits intro!: inert_quoted dest: quiet_cuts)

lemma xss_detail_inert: "xss_text s = Some d \<Longrightarrow> inert (d_detail d)"
  using quiet_texts
  by (auto simp: xss_text_def split: option.splits if_splits intro!: inert_quoted dest: quiet_cuts)

lemma check_detail_inert:
  "check_sqli ins = Some d \<Longrightarrow> inert (d_detail d)" "check_xss ins = Some d \<Longrightarrow> inert (d_detail d)"
  by (auto simp: check_sqli_def check_xss_def dest!: first_some_SomeD sqli_detail_inert xss_detail_inert)

text \<open>Magic bytes: the declared type is only quoted when it is a key of the table.\<close>

lemma magic_texts:
  "list_all (\<lambda>s. inert (sg_description s)) MAGIC_SIGNATURES" "list_all (\<lambda>(k, v). inert k) CONTENT_TYPE_MAP"
  "inert (lit ''Dangerous file type detected: '')" "inert (lit ''Content-Type spoofing: claimed '')"
  "inert (lit '' but file is actually '')"
  by code_simp+

lemma magic_reason_inert: "inert (mv_reason (validate_content_type data ct))"
proof (cases "detect_file_type data")
  case None
  then show ?thesis by (simp add: validate_content_type_def)
next
  case (Some s)
  then have "s \<in> set MAGIC_SIGNATURES" by (auto simp: detect_file_type_def dest: first_match_SomeD)
  then have "inert (sg_description s)" using magic_texts(1) by (auto simp: list_all_iff)
  moreover have "inert d" if "map_of CONTENT_TYPE_MAP d = Some e" for d e
    using map_of_SomeD [OF that] magic_texts(2) by (auto simp: list_all_iff)
  ultimately show ?thesis
    using Some magic_texts(3-5) by (auto simp: validate_content_type_def Let_def markup_def split: option.split)
qed

text \<open>
  What the operator puts into the agent: signatures, YARA rules and the digest function carry no markup. The text of
  a Tier 3 reason is made of fixed words and numbers.
\<close>

definition quiet_tables :: "pcfg \<Rightarrow> pstate \<Rightarrow> bool" where
  "quiet_tables cfg s \<longleftrightarrow>
     (\<forall>p \<in> set (ps_patterns s). inert (p_name p) \<and> inert (p_description p) \<and> inert (p_cve_id p)) \<and>
     (\<forall>m data best rest. ps_yara s = Some m \<longrightarrow> m data = Inr (best # rest) \<longrightarrow>
        inert (y_rule best) \<and> inert (get_or [] (y_description best))) \<and>
     (\<forall>b. inert (pc_sha256 cfg b)) \<and> (\<forall>ml. inert (pc_ml_text cfg ml))"

definition quiet_verdict :: "verdict \<Rightarrow> bool" where
  "quiet_verdict v \<longleftrightarrow> inert (v_reason v) \<and> inert (get_or [] (v_cve_id v))"

lemma prefix_texts:
  "inert (lit ''[SHADOW] Would block: '')" "inert (lit ''CVE pattern match: '')" "inert em_dash"
  "inert (lit ''YARA rule matched: '')" "inert (lit ''Known malicious file hash (SHA-256: '')" "inert (lit ''...)'')"
  "inert (lit ''All security checks passed'')" "inert (lit ''Static file'')" "inert (lit ''skipped inspection'')"
  "inert (lit ''GENERIC-SQLI'')" "inert (lit ''GENERIC-XSS'')" "inert (lit ''N/A'')"
  by code_simp+

lemma make_verdict_quiet:
  "inert reason \<Longrightarrow> inert (get_or [] cve) \<Longrightarrow> quiet_verdict (make_verdict cfg lat act tier cve rule reason score sha)"
  using prefix_texts(1) by (simp add: quiet_verdict_def make_verdict_def)

lemma early_tiers_quiet:
  assumes "quiet_tables cfg s" "early_tiers cfg (ps_patterns s) lat r = Some v"
  shows "quiet_verdict v"
proof -
  have "inert (p_name p) \<and> inert (p_description p) \<and> inert (p_cve_id p)" if "scan (ps_patterns s) t = Some p" for t p
    using scan_hit [OF that] assms(1) by (auto simp: quiet_tables_def)
  with assms(2) show ?thesis
    using prefix_texts check_detail_inert
    by (auto simp: early_tiers_def split: option.splits intro!: make_verdict_quiet)
qed

lemma scan_target_quiet:
  assumes "quiet_tables cfg s" "scan_target cfg (ps_yara s) lat ct target sha db = (Some v, db')"
  shows "quiet_verdict v"
proof (cases "mv_should_block (validate_content_type target ct)")
  case True
  with assms(2) show ?thesis
    by (auto simp: scan_target_def Let_def intro!: make_verdict_quiet magic_reason_inert)
next
  case False
  with assms(2) obtain m where m: "yara_scan (pc_yara_available cfg) (ps_yara s) target = Some m"
    "v = make_verdict cfg lat BLOCK 4 None (Some (y_rule m))
       (lit ''YARA rule matched: '' @ y_rule m @ em_dash @ get_or [] (y_description m)) 0 (Some sha)"
    by (auto simp: scan_target_def Let_def split: option.splits if_splits)
  then obtain f best rest where "ps_yara s = Some f" "f target = Inr (best # rest)"
    "y_rule m = y_rule best" "get_or [] (y_description m) = get_or [] (y_description best)"
    by (auto simp: yara_scan_def split: option.splits if_splits sum.splits list.splits)
  with assms(1) have "inert (y_rule m)" "inert (get_or [] (y_description m))" by (auto simp: quiet_tables_def)
  then show ?thesis using prefix_texts unfolding m(2) by (intro make_verdict_quiet) simp_all
qed

lemma cached_reason_quiet:
  assumes "quiet_tables cfg s"
  shows "inert (lit ''Known malicious file hash (SHA-256: '' @ take 16 (pc_sha256 cfg b) @ lit ''...)'')"
  using assms prefix_texts by (simp add: quiet_tables_def inert_take)

lemma inspect_targets_quiet:
  assumes "quiet_tables cfg s"
  shows "inspect_targets cfg (ps_yara s) lat ct i ts db = (Inr (Some v), db') \<Longrightarrow> quiet_verdict v"
proof (induction ts arbitrary: i db)
  case (Cons t ts)
  show ?case
  proof (cases "t = []")
    case True
    with Cons show ?thesis by simp
  next
    case False
    let ?db = "map_option (pc_writer cfg i) db"
    consider e where "cache_lookup (pc_sha256 cfg t) ?db = Inl e"
      | row where "cache_lookup (pc_sha256 cfg t) ?db = Inr (Some row)"
      | "cache_lookup (pc_sha256 cfg t) ?db = Inr None"
      by (cases "cache_lookup (pc_sha256 cfg t) ?db") auto
    then show ?thesis
    proof cases
      case 1
      with Cons.prems False show ?thesis by (simp add: Let_def)
    next
      case 2
      with Cons.prems False cached_reason_quiet [OF assms] show ?thesis
        by (auto simp: Let_def split: if_splits intro!: make_verdict_quiet)
    next
      case 3
      with Cons False show ?thesis
        by (auto simp: Let_def split: prod.splits option.splits dest: scan_target_quiet [OF assms])
    qed
  qed
qed simp

text \<open>Whatever the request, a verdict about it is made of the agent's own words and of what the patterns may match.\<close>

lemma decide_quiet:
  assumes "quiet_tables cfg s" "decide cfg lat r s = (Inr v, db)"
  shows "quiet_verdict v"
  using assms(2)
proof (cases rule: decide_cases)
  case early
  then show ?thesis using early_tiers_quiet [OF assms(1)] by blast
next
  case content
  then show ?thesis
    by (auto simp: content_tier_def inspect_content_def split: sum.splits if_splits dest: inspect_targets_quiet [OF assms(1)])
next
  case final
  with assms(1) prefix_texts show ?thesis
    by (auto simp: final_tier_def Let_def quiet_tables_def quiet_verdict_def intro: make_verdict_quiet
        [unfolded quiet_verdict_def, THEN conjunct1] make_verdict_quiet [unfolded quiet_verdict_def, THEN conjunct2])
qed

lemma check_quiet:
  assumes "quiet_tables cfg s" "fst (check cfg lat r s) = Inr v"
  shows "quiet_verdict v"
proof (cases "is_static_file (uri_of r)")
  case True
  with assms(2) prefix_texts show ?thesis by (auto simp: check_def static_verdict_def quiet_verdict_def)
next
  case False
  with assms(2) obtain db where "decide cfg lat r s = (Inr v, db)" by (metis check_dynamic prod.collapse)
  with assms(1) show ?thesis by (rule decide_quiet)
qed

subsection \<open>The markup of the page\<close>

lemma digits_inert: "inert (digits_of n i)"
proof (induction n arbitrary: i)
  case (Suc n)
  have "48 \<le> 48 + i mod 10" "48 + i mod 10 < 58" by simp_all
  then have "\<not> markup (48 + i mod 10)" unfolding markup_def by linarith
  with Suc show ?case by simp
qed simp

lemma dec_pos_inert: "0 \<le> i \<Longrightarrow> inert (dec_pos i)"
proof (induction i rule: dec_pos.induct)
  case (1 n)
  have d: "\<not> markup (48 + k)" if "0 \<le> k" "k < 10" for k using that by (simp add: markup_def)
  show ?case
  proof (cases "n < 10")
    case True
    with 1(2) d show ?thesis by (subst dec_pos.simps) simp
  next
    case False
    with 1 have "inert (dec_pos (n div 10))" by simp
    with False d show ?thesis by (subst dec_pos.simps) simp
  qed
qed

lemma dec_int_inert: "inert (dec_int i)"
  by (simp add: dec_int_def dec_pos_inert markup_def)

lemma fixed_text_inert: "inert (fixed_text n x)"
  by (simp add: fixed_text_def fixed_digits_def Let_def dec_int_inert digits_inert markup_def lit_def split: pyfloat.split)

fun plain_of :: "piece list \<Rightarrow> pystr" where
  "plain_of [] = []"
| "plain_of (Plain c # ps) = c # plain_of ps"
| "plain_of (Hole name spec # ps) = plain_of ps"

fun holes_of :: "piece list \<Rightarrow> (pystr \<times> pystr) list" where
  "holes_of [] = []"
| "holes_of (Plain c # ps) = holes_of ps"
| "holes_of (Hole name spec # ps) = (name, spec) # holes_of ps"

lemma fill_holes:
  assumes "\<forall>(name, spec) \<in> set (holes_of ps). \<exists>a t. map_of args name = Some a \<and> format_arg repr a spec = Some t \<and> inert t"
  shows "\<exists>page. fill repr args ps = Some page \<and> filter markup page = filter markup (plain_of ps) \<and>
    (\<forall>(name, spec) \<in> set (holes_of ps). \<exists>a b t.
       page = a @ t @ b \<and> format_arg repr (the (map_of args name)) spec = Some t)"
  using assms
proof (induction ps rule: holes_of.induct)
  case (2 c ps)
  then obtain page where p: "fill repr args ps = Some page" "filter markup page = filter markup (plain_of ps)"
    "\<forall>(name, spec) \<in> set (holes_of ps). \<exists>a b t. page = a @ t @ b \<and> format_arg repr (the (map_of args name)) spec = Some t"
    by auto
  have "\<exists>a b u. c # page = a @ u @ b \<and> format_arg repr (the (map_of args n)) sp = Some u"
    if "(n, sp) \<in> set (holes_of ps)" for n sp
  proof -
    from p(3) that obtain a b u where "page = a @ u @ b" "format_arg repr (the (map_of args n)) sp = Some u" by blast
    then show ?thesis by (intro exI [of _ "c # a"] exI [of _ b] exI [of _ u]) simp
  qed
  with p(1,2) show ?case by auto
next
  case (3 name spec ps)
  then obtain page where p: "fill repr args ps = Some page" "filter markup page = filter markup (plain_of ps)"
    "\<forall>(name, spec) \<in> set (holes_of ps). \<exists>a b t. page = a @ t @ b \<and> format_arg repr (the (map_of args name)) spec = Some t"
    by auto
  from 3(2) obtain x t where x: "map_of args name = Some x" "format_arg repr x spec = Some t" "inert t" by auto
  have here: "\<exists>a b u. t @ page = a @ u @ b \<and> format_arg repr (the (map_of args name)) spec = Some u"
    using x by (intro exI [of _ "[]"] exI [of _ page] exI [of _ t]) simp
  have "\<exists>a b u. t @ page = a @ u @ b \<and> format_arg repr (the (map_of args n)) sp = Some u"
    if "(n, sp) \<in> set (holes_of ps)" for n sp
  proof -
    from p(3) that obtain a b u where "page = a @ u @ b" "format_arg repr (the (map_of args n)) sp = Some u" by blast
    then show ?thesis by (intro exI [of _ "t @ a"] exI [of _ b] exI [of _ u]) simp
  qed
  with here x p(1,2) show ?case by (auto simp: inert_filter)
qed simp

lemma holes_of_append: "holes_of (ps @ qs) = holes_of ps @ holes_of qs"
  by (induction ps rule: holes_of.induct) auto

lemma dropWhile_until: "dropWhile (\<lambda>x. x \<noteq> d) r \<noteq> [] \<Longrightarrow> \<exists>f u. r = f @ d # u \<and> d \<notin> set f"
proof -
  assume ne: "dropWhile (\<lambda>x. x \<noteq> d) r \<noteq> []"
  then have "hd (dropWhile (\<lambda>x. x \<noteq> d) r) = d" using hd_dropWhile [OF ne] by simp
  with ne have "dropWhile (\<lambda>x. x \<noteq> d) r = d # tl (dropWhile (\<lambda>x. x \<noteq> d) r)" by (metis list.collapse)
  moreover have "d \<notin> set (takeWhile (\<lambda>x. x \<noteq> d) r)" by (auto dest: set_takeWhileD)
  ultimately show ?thesis by (metis takeWhile_dropWhile_id)
qed

lemma until_brace:
  assumes "125 \<notin> set f"
  shows "before_first 125 (f @ 125 # u) = f" "after_first 125 (f @ 125 # u) = u"
    "dropWhile (\<lambda>x. x \<noteq> 125) (f @ 125 # u) \<noteq> []"
proof -
  have "\<forall>x \<in> set f. x \<noteq> 125" using assms by auto
  then have "takeWhile (\<lambda>x. x \<noteq> 125) (f @ 125 # u) = f" "dropWhile (\<lambda>x. x \<noteq> 125) (f @ 125 # u) = 125 # u"
    by (simp_all add: takeWhile_append2 dropWhile_append2)
  then show "before_first 125 (f @ 125 # u) = f" "after_first 125 (f @ 125 # u) = u"
    "dropWhile (\<lambda>x. x \<noteq> 125) (f @ 125 # u) \<noteq> []"
    by (simp_all add: before_first_def after_first_def)
qed

lemma parse_steps:
  "parse_format [] = Some []"
  "parse_format (123 # 123 # r) = map_option (Cons (Plain 123)) (parse_format r)"
  "parse_format (125 # 125 # r) = map_option (Cons (Plain 125)) (parse_format r)"
  "c \<noteq> 123 \<Longrightarrow> c \<noteq> 125 \<Longrightarrow> parse_format (c # r) = map_option (Cons (Plain c)) (parse_format r)"
  "125 \<notin> set f \<Longrightarrow> hd (f @ [125]) \<noteq> 123 \<Longrightarrow> parse_format (123 # f @ 125 # u) =
     map_option (Cons (Hole (before_first 58 f) (after_first 58 f))) (parse_format u)"
proof -
  assume f: "125 \<notin> set f" "hd (f @ [125]) \<noteq> 123"
  then have "\<not> (f @ 125 # u \<noteq> [] \<and> hd (f @ 125 # u) = 123)" by (cases f) auto
  with until_brace [OF f(1), of u] show "parse_format (123 # f @ 125 # u) =
      map_option (Cons (Hole (before_first 58 f) (after_first 58 f))) (parse_format u)"
    by (subst parse_format.simps) simp
qed (subst parse_format.simps; simp)+

text \<open>The ways a text can be read.\<close>

lemma parse_cases:
  assumes "parse_format s = Some ps"
  obtains (nothing) "s = []" "ps = []"
  | (lbrace) r qs where "s = 123 # 123 # r" "parse_format r = Some qs" "ps = Plain 123 # qs"
  | (rbrace) r qs where "s = 125 # 125 # r" "parse_format r = Some qs" "ps = Plain 125 # qs"
  | (char) c r qs where "s = c # r" "c \<noteq> 123" "c \<noteq> 125" "parse_format r = Some qs" "ps = Plain c # qs"
  | (hole) f u qs where "s = 123 # f @ 125 # u" "125 \<notin> set f" "hd (f @ [125]) \<noteq> 123" "parse_format u = Some qs"
      "ps = Hole (before_first 58 f) (after_first 58 f) # qs"
proof (cases s)
  case Nil
  with assms have "ps = []" by (simp add: parse_steps)
  with Nil show ?thesis by (rule nothing)
next
  case (Cons c r)
  consider "c \<noteq> 123 \<and> c \<noteq> 125" | r' where "r = c # r'" "c = 123 \<or> c = 125"
    | "c = 125" "r = [] \<or> hd r \<noteq> 125" | "c = 123" "r = [] \<or> hd r \<noteq> 123"
    by (cases r) auto
  then show ?thesis
  proof cases
    case 1
    with assms Cons char show ?thesis by (auto simp: parse_steps)
  next
    case 2
    with assms Cons lbrace rbrace show ?thesis by (auto simp: parse_steps)
  next
    case 3
    then have "parse_format s = None" unfolding Cons by (subst parse_format.simps) auto
    with assms show ?thesis by simp
  next
    case 4
    have ne: "dropWhile (\<lambda>x. x \<noteq> 125) r \<noteq> []"
    proof
      assume "dropWhile (\<lambda>x. x \<noteq> 125) r = []"
      with 4 have "parse_format s = None" unfolding Cons by (subst parse_format.simps) auto
      with assms show False by simp
    qed
    from dropWhile_until [OF ne] obtain f u where f: "r = f @ 125 # u" "125 \<notin> set f" by auto
    have "hd (f @ [125]) \<noteq> 123" using 4(2) unfolding f(1) by (cases f) auto
    with f have p: "parse_format s =
        map_option (Cons (Hole (before_first 58 f) (after_first 58 f))) (parse_format u)"
      unfolding Cons 4(1) f(1) by (intro parse_steps(5))
    with assms obtain qs where "parse_format u = Some qs" "ps = Hole (before_first 58 f) (after_first 58 f) # qs"
      by auto
    with Cons 4(1) f \<open>hd (f @ [125]) \<noteq> 123\<close> show ?thesis by (intro hole) simp_all
  qed
qed

lemma parse_append: "parse_format s = Some ps \<Longrightarrow> parse_format (s @ t) = map_option ((@) ps) (parse_format t)"
proof (induction "length s" arbitrary: s ps rule: less_induct)
  case less
  have map: "map_option (Cons p) (map_option ((@) qs) x) = map_option ((@) (p # qs)) x" for p and qs :: "piece list" and x
    by (cases x) simp_all
  from less.prems show ?case
  proof (cases rule: parse_cases)
    case nothing
    then show ?thesis by (cases "parse_format t") auto
  next
    case (lbrace r qs)
    with less.hyps [of r qs] show ?thesis by (simp add: parse_steps map)
  next
    case (rbrace r qs)
    with less.hyps [of r qs] show ?thesis by (simp add: parse_steps map)
  next
    case (char c r qs)
    with less.hyps [of r qs] show ?thesis by (simp add: parse_steps map)
  next
    case (hole f u qs)
    with less.hyps [of u qs] parse_steps(5) [of f "u @ t"] show ?thesis by (simp add: map)
  qed
qed

lemma parse_lines:
  "list_all (\<lambda>l. parse_format l \<noteq> None) ls \<Longrightarrow>
     \<exists>ps. parse_format (join_with [10] ls) = Some ps \<and> holes_of ps = concat (map (\<lambda>l. holes_of (the (parse_format l))) ls)"
proof (induction "[10 :: int]" ls rule: join_with.induct)
  case (3 x y ys)
  then obtain ps where ps: "parse_format (join_with [10] (y # ys)) = Some ps"
    "holes_of ps = concat (map (\<lambda>l. holes_of (the (parse_format l))) (y # ys))" by auto
  from 3(2) obtain qs where qs: "parse_format x = Some qs" by auto
  have "parse_format (10 # join_with [10] (y # ys)) = Some (Plain 10 # ps)" using ps(1) by (simp add: parse_steps)
  with parse_append [OF qs] have "parse_format (join_with [10] (x # y # ys)) = Some (qs @ Plain 10 # ps)" by simp
  with ps(2) qs show ?case by (simp add: holes_of_append)
qed (auto simp: parse_steps)

lemma page_lines:
  "list_all (\<lambda>l. parse_format l \<noteq> None) BLOCK_LINES"
  by code_simp

lemma page_holes:
  "concat (map (\<lambda>l. holes_of (the (parse_format l))) BLOCK_LINES) =
     [(lit ''reason'', []), (lit ''tier'', []), (lit ''cve_id'', []), (lit ''ml_score'', lit ''.3f''),
      (lit ''latency_ms'', lit ''.1f'')]"
  by code_simp

text \<open>The page of a reason, with the other values empty: its markup is that of the template.\<close>

definition empty_page :: pystr where
  "empty_page = the (block_text (\<lambda>v. []) (BlockPage (JStr []) 0 (JStr []) (Fin 0) (Fin 0)))"

lemma block_text_inert:
  assumes "inert reason" "inert cve"
  shows "\<exists>page a b. block_text repr (BlockPage (JStr reason) tier (JStr cve) ml latency) = Some page \<and>
    page = a @ reason @ b \<and> filter markup page = filter markup empty_page"
proof -
  obtain ps where ps: "parse_format BLOCK_HTML = Some ps"
    "holes_of ps = [(lit ''reason'', []), (lit ''tier'', []), (lit ''cve_id'', []), (lit ''ml_score'', lit ''.3f''),
      (lit ''latency_ms'', lit ''.1f'')]"
    using parse_lines [OF page_lines] unfolding page_holes BLOCK_HTML_def by blast
  have names: "distinct (map lit [''reason'', ''tier'', ''cve_id'', ''ml_score'', ''latency_ms''])"
    "lit ''.3f'' \<noteq> lit ''.1f''" by code_simp+
  have page: "\<exists>page. block_text r (BlockPage (JStr x) t (JStr y) m l) = Some page \<and>
      filter markup page = filter markup (plain_of ps) \<and> (\<exists>a b. page = a @ x @ b)"
    if "inert x" "inert y" for r x t y m l
  proof -
    let ?args = "block_args (JStr x) t (JStr y) m l"
    have "\<forall>(name, spec) \<in> set (holes_of ps). \<exists>a u. map_of ?args name = Some a \<and> format_arg r a spec = Some u \<and> inert u"
      using names that unfolding ps(2)
      by (auto simp: block_args_def format_arg_def dec_int_inert fixed_text_inert)
    from fill_holes [OF this] obtain page where pg: "fill r ?args ps = Some page"
      "filter markup page = filter markup (plain_of ps)"
      "\<forall>(name, spec) \<in> set (holes_of ps). \<exists>a b u. page = a @ u @ b \<and> format_arg r (the (map_of ?args name)) spec = Some u"
      by blast
    from pg(3) have "\<exists>a b u. page = a @ u @ b \<and> format_arg r (the (map_of ?args (lit ''reason''))) [] = Some u"
      unfolding ps(2) by auto
    then have "\<exists>a b. page = a @ x @ b" by (auto simp: block_args_def format_arg_def)
    with pg(1,2) show ?thesis by (simp add: block_text_def str_format_def ps(1))
  qed
  obtain e where "block_text (\<lambda>v. []) (BlockPage (JStr []) 0 (JStr []) (Fin 0) (Fin 0)) = Some e"
    "filter markup e = filter markup (plain_of ps)" using page [where x = "[]" and y = "[]" and r = "\<lambda>v. []" and t = 0 and m = "Fin 0" and l = "Fin 0"]
    by auto
  then have "filter markup empty_page = filter markup (plain_of ps)" by (simp add: empty_page_def)
  with page [OF assms] show ?thesis by metis
qed

subsection \<open>Properties\<close>


definition quiet_cfg :: pcfg where
  "quiet_cfg = (demo_cfg (lit ''enforce''))\<lparr>pc_sha256 := \<lambda>b. lit ''00''\<rparr>"

definition quiet_wire :: "bytes \<Rightarrow> recv_result list option" where
  "quiet_wire = agent_wire quiet_cfg 10000 0 True whole (lit ''0.0'') (lit ''0.0'') (demo_state, zero_stats)"


end
