(* ===== verification/DummyApp.thy ===== *)
theory DummyApp
  imports WafProxy
begin

text \<open>
  The protected application of the demonstration, \<open>dummy-server/app.py\<close>. Flask parses a request: \<open>sh_json\<close> is \<open>None\<close>
  where the content type is not JSON, and an exception where the body does not parse. The home page is kept
  apart; the pages Flask makes itself are their status.
\<close>

record shop_request =
  sh_method :: pystr
  sh_path :: pystr
  sh_args :: "(pystr \<times> pystr) list"
  sh_form :: "(pystr \<times> pystr) list"
  sh_json :: "json result option"

datatype shop_page = HomePage | ShopJson json | FlaskPage

abbreviation text_json :: "string \<Rightarrow> json" where
  "text_json s \<equiv> JStr (lit s)"

definition shop_user :: "int \<Rightarrow> string \<Rightarrow> string \<Rightarrow> string \<Rightarrow> json" where
  "shop_user i name email role =
     JObj [(lit ''id'', JInt i), (lit ''name'', text_json name), (lit ''email'', text_json email),
           (lit ''role'', text_json role)]"

definition USERS :: "json list" where
  "USERS =
     [shop_user 1 ''Alice Johnson'' ''alice@shopexample.com'' ''admin'',
      shop_user 2 ''Bob Smith'' ''bob@shopexample.com'' ''user'',
      shop_user 3 ''Carol White'' ''carol@shopexample.com'' ''user'']"

record product =
  pd_id :: int
  pd_name :: pystr
  pd_price :: pystr    \<comment> \<open>the text of the number\<close>
  pd_stock :: int

definition PRODUCTS :: "product list" where
  "PRODUCTS =
     [\<lparr>pd_id = 1, pd_name = lit ''Laptop Pro 15'', pd_price = lit ''1299.99'', pd_stock = 42\<rparr>,
      \<lparr>pd_id = 2, pd_name = lit ''Wireless Headphones'', pd_price = lit ''199.99'', pd_stock = 156\<rparr>,
      \<lparr>pd_id = 3, pd_name = lit ''Mechanical Keyboard'', pd_price = lit ''149.99'', pd_stock = 88\<rparr>,
      \<lparr>pd_id = 4, pd_name = lit ''USB-C Hub'', pd_price = lit ''49.99'', pd_stock = 220\<rparr>]"

definition product_json :: "product \<Rightarrow> json" where
  "product_json p =
     JObj [(lit ''id'', JInt (pd_id p)), (lit ''name'', JStr (pd_name p)), (lit ''price'', JFloat (pd_price p)),
           (lit ''stock'', JInt (pd_stock p))]"

text \<open>
  The fields of the body: from the JSON object, where an empty value counts as \<open>{}\<close> and another value has no
  method \<open>get\<close> (500), or from the form. A body that does not parse is answered 400.
\<close>

definition body_fields :: "shop_request \<Rightarrow> int + (pystr \<Rightarrow> json)" where
  "body_fields r =
     (case sh_json r of
        None \<Rightarrow> Inr (\<lambda>k. JStr (dict_get (sh_form r) k []))
      | Some (Inl e) \<Rightarrow> Inl 400
      | Some (Inr v) \<Rightarrow>
          (if \<not> truthy v then Inr (\<lambda>k. JStr [])
           else case v of JObj ms \<Rightarrow> Inr (\<lambda>k. dict_get ms k (JStr [])) | _ \<Rightarrow> Inl 500))"

definition login :: "shop_request \<Rightarrow> int \<times> shop_page" where
  "login r =
     (if sh_method r = lit ''GET'' then (200, HomePage)
      else case body_fields r of
             Inl st \<Rightarrow> (st, FlaskPage)
           | Inr f \<Rightarrow>
               (if f (lit ''username'') = text_json ''admin'' \<and> f (lit ''password'') = text_json ''password'' then
                  (200, ShopJson (JObj [(lit ''status'', text_json ''success''), (lit ''user'', text_json ''admin''),
                                        (lit ''token'', text_json ''eyJfake_jwt_token_XYZ'')]))
                else
                  (401, ShopJson (JObj [(lit ''status'', text_json ''error''),
                                        (lit ''message'', text_json ''Invalid credentials'')]))))"

definition found_products :: "pystr \<Rightarrow> product list" where
  "found_products q =
     (if q \<noteq> [] then filter (\<lambda>p. contains (py_lower q) (py_lower (pd_name p))) PRODUCTS else PRODUCTS)"

definition search :: "shop_request \<Rightarrow> int \<times> shop_page" where
  "search r =
     (let q = dict_get (sh_args r) (lit ''q'') [];
          results = found_products q
      in (200, ShopJson (JObj [(lit ''query'', JStr q), (lit ''results'', JArr (map product_json results)),
                               (lit ''count'', JInt (int (length results)))])))"

definition users :: "int \<times> shop_page" where
  "users = (200, ShopJson (JObj [(lit ''users'', JArr USERS), (lit ''total'', JInt (int (length USERS)))]))"

definition products :: "int \<times> shop_page" where
  "products =
     (200, ShopJson (JObj [(lit ''products'', JArr (map product_json PRODUCTS)),
                           (lit ''total'', JInt (int (length PRODUCTS)))]))"

text \<open>\<open>now\<close> is \<open>isoformat\<close> of the current time.\<close>

definition comment :: "pystr \<Rightarrow> shop_request \<Rightarrow> int \<times> shop_page" where
  "comment now r =
     (case body_fields r of
        Inl st \<Rightarrow> (st, FlaskPage)
      | Inr f \<Rightarrow>
          (200, ShopJson (JObj [(lit ''status'', text_json ''posted''), (lit ''comment'', f (lit ''text'')),
                                (lit ''id'', JInt 42), (lit ''timestamp'', JStr (now @ lit ''Z''))])))"

definition shop_health :: "int \<times> shop_page" where
  "shop_health =
     (200, ShopJson (JObj [(lit ''status'', text_json ''ok''), (lit ''service'', text_json ''dummy-server''),
                           (lit ''version'', text_json ''1.0.0'')]))"

text \<open>The routes and their methods; Flask adds HEAD to GET and answers OPTIONS itself.\<close>

definition shop_routes :: "pystr \<Rightarrow> (pystr \<times> pystr list \<times> (shop_request \<Rightarrow> int \<times> shop_page)) list" where
  "shop_routes now =
     (let get = map lit [''GET'', ''HEAD'']
      in [(lit ''/'', get, \<lambda>r. (200, HomePage)), (lit ''/login'', lit ''POST'' # get, login), (lit ''/search'', get, search),
          (lit ''/api/users'', get, \<lambda>r. users), (lit ''/api/products'', get, \<lambda>r. products),
          (lit ''/comment'', [lit ''POST''], comment now), (lit ''/health'', get, \<lambda>r. shop_health)])"

definition shop :: "pystr \<Rightarrow> shop_request \<Rightarrow> int \<times> shop_page" where
  "shop now r =
     (case first_match (\<lambda>(p, ms, h). p = sh_path r) (shop_routes now) of
        None \<Rightarrow> (404, FlaskPage)
      | Some (p, ms, h) \<Rightarrow>
          if sh_method r = lit ''OPTIONS'' then (200, FlaskPage)
          else if sh_method r \<notin> set ms then (405, FlaskPage)
          else h r)"

text \<open>A token is handed out for one pair of credentials only, and never to a GET.\<close>

lemma login_token:
  "fst (login r) = 200 \<longleftrightarrow>
     sh_method r = lit ''GET'' \<or>
     (\<exists>f. body_fields r = Inr f \<and> f (lit ''username'') = text_json ''admin'' \<and> f (lit ''password'') = text_json ''password'')"
  by (auto simp: login_def body_fields_def split: sum.splits option.splits json.splits if_splits)

text \<open>A search gives exactly the products whose name contains the query, whatever the case, in their order.\<close>

lemma found_products_iff: "p \<in> set (found_products q) \<longleftrightarrow> p \<in> set PRODUCTS \<and> contains (py_lower q) (py_lower (pd_name p))"
proof -
  have "contains [] s" for s by (cases s) (simp_all add: startswith_def)
  then show ?thesis by (auto simp: found_products_def py_lower_def)
qed

end
