(* ===== verification/AgentServer.thy ===== *)
theory AgentServer
  imports SocketServer
begin

text \<open>
  The life of the agent's server, \<open>start\<close> and \<open>stop\<close> of \<open>agent/socket_server.py\<close>: the accept loop of one
  thread, the workers of the thread pool and the thread that stops the server, as interleaved steps. A worker
  handles its connection in one step (theory \<open>SocketServer\<close>).
\<close>

subsection \<open>The state and the steps\<close>

datatype uds_error = SetupError | RuntimeError | AttributeError

text \<open>Where the thread that calls \<open>start\<close> is: at the head of the loop, inside \<open>accept\<close>, or out of \<open>start\<close>.\<close>

datatype phase = NotStarted | LoopHead | InAccept | Returned | Raised uds_error

datatype sock = NoSocket | Listening | Closed

datatype stop_phase = NoStop | Closing | Joining | Stopped

record uds =
  u_phase :: phase
  u_running :: bool
  u_socket :: sock
  u_file :: bool
  u_accepts_work :: bool
  u_queue :: "connection list"
  u_stop :: stop_phase
  u_agent :: "pstate \<times> server_stats"
  u_replies :: "reply option list"     \<comment> \<open>one for each handled connection\<close>
  u_dropped :: "connection list"       \<comment> \<open>accepted, but refused by the thread pool\<close>

definition new_uds :: "bool \<Rightarrow> pstate \<Rightarrow> uds" where
  "new_uds file p =
     \<lparr>u_phase = NotStarted, u_running = False, u_socket = NoSocket, u_file = file, u_accepts_work = True,
      u_queue = [], u_stop = NoStop, u_agent = (p, zero_stats), u_replies = [], u_dropped = []\<rparr>"

text \<open>The attributes the class defines; a call of a method that is not among them raises.\<close>

definition UDS_METHODS :: "pystr list" where
  "UDS_METHODS = map lit [''__init__'', ''start'', ''_handle_connection'', ''_send_fail_open'', ''stop'', ''stats'']"

text \<open>The \<open>finally\<close> clause of \<open>start\<close>, with the exception on its way, if any.\<close>

definition leave_start :: "uds_error option \<Rightarrow> phase" where
  "leave_start exc =
     (if lit ''_cleanup'' \<notin> set UDS_METHODS then Raised AttributeError
      else case exc of None \<Rightarrow> Returned | Some e \<Rightarrow> Raised e)"

datatype accept_result = Accepted connection | AcceptTimeout | AcceptError

text \<open>
  The steps: \<open>start\<close> up to its loop, or an exception there and whether the socket file is left; the test of the
  loop; the end of an \<open>accept\<close>; a worker that takes the \<open>i\<close>-th waiting connection; and the three parts of
  \<open>stop\<close>, the last of which waits for the workers.
\<close>

datatype uds_event =
  Start | StartFails bool | Check | Accept accept_result | Worker nat | StopClose | StopPool | StopJoin

definition stop_close :: "uds \<Rightarrow> uds option" where
  "stop_close s =
     (if u_stop s = NoStop then
        Some (s\<lparr>u_stop := Closing, u_running := False,
                u_socket := if u_socket s = NoSocket then NoSocket else Closed\<rparr>)
      else None)"

definition stop_pool :: "uds \<Rightarrow> uds option" where
  "stop_pool s = (if u_stop s = Closing then Some (s\<lparr>u_stop := Joining, u_accepts_work := False\<rparr>) else None)"

definition stop_join :: "uds \<Rightarrow> uds option" where
  "stop_join s =
     (if u_stop s = Joining \<and> u_queue s = [] then Some (s\<lparr>u_stop := Stopped, u_file := False\<rparr>) else None)"

lemmas stop_defs = stop_close_def stop_pool_def stop_join_def

fun uds_step ::
  "pcfg \<Rightarrow> int \<Rightarrow> (pystr \<Rightarrow> request result) \<Rightarrow> uds_event \<Rightarrow> uds \<Rightarrow> uds option" where
  "uds_step cfg timeout parse Start s =
     (if u_phase s = NotStarted then
        Some (s\<lparr>u_phase := LoopHead, u_running := True, u_socket := Listening, u_file := True\<rparr>)
      else None)"
| "uds_step cfg timeout parse (StartFails file) s =
     (if u_phase s = NotStarted then Some (s\<lparr>u_phase := Raised SetupError, u_file := file\<rparr>) else None)"
| "uds_step cfg timeout parse Check s =
     (if u_phase s = LoopHead then
        Some (s\<lparr>u_phase := if u_running s then InAccept else leave_start None\<rparr>)
      else None)"
| "uds_step cfg timeout parse (Accept r) s =
     (if u_phase s = InAccept then
        Some (case r of
          Accepted c \<Rightarrow>
            if u_accepts_work s then s\<lparr>u_phase := LoopHead, u_queue := u_queue s @ [c]\<rparr>
            else s\<lparr>u_phase := leave_start (Some RuntimeError), u_dropped := u_dropped s @ [c]\<rparr>
        | AcceptTimeout \<Rightarrow> s\<lparr>u_phase := LoopHead\<rparr>
        | AcceptError \<Rightarrow> s\<lparr>u_phase := leave_start None\<rparr>)
      else None)"
| "uds_step cfg timeout parse (Worker i) s =
     (if i < length (u_queue s) then
        (case handle_connection cfg timeout parse (u_queue s ! i) (u_agent s) of
           (out, st) \<Rightarrow>
             Some (s\<lparr>u_queue := take i (u_queue s) @ drop (Suc i) (u_queue s), u_agent := st,
                     u_replies := u_replies s @ [out]\<rparr>))
      else None)"
| "uds_step cfg timeout parse StopClose s = stop_close s"
| "uds_step cfg timeout parse StopPool s = stop_pool s"
| "uds_step cfg timeout parse StopJoin s = stop_join s"

primrec uds_run ::
  "pcfg \<Rightarrow> int \<Rightarrow> (pystr \<Rightarrow> request result) \<Rightarrow> uds_event list \<Rightarrow> uds \<Rightarrow> uds option" where
  "uds_run cfg timeout parse [] s = Some s"
| "uds_run cfg timeout parse (e # es) s = Option.bind (uds_step cfg timeout parse e s) (uds_run cfg timeout parse es)"

subsection \<open>The invariant\<close>

primrec accepted :: "uds_event list \<Rightarrow> nat" where
  "accepted [] = 0"
| "accepted (e # es) = (case e of Accept (Accepted c) \<Rightarrow> Suc (accepted es) | _ \<Rightarrow> accepted es)"

definition uds_inv :: "nat \<Rightarrow> uds \<Rightarrow> bool" where
  "uds_inv n s \<longleftrightarrow>
     u_phase s \<in> {NotStarted, LoopHead, InAccept, Raised SetupError, Raised AttributeError} \<and>
     s_total (snd (u_agent s)) = length (u_replies s) \<and>
     length (u_replies s) + length (u_queue s) + length (u_dropped s) = n \<and>
     (u_stop s = Stopped \<longrightarrow> u_queue s = []) \<and>
     (u_stop s \<in> {Joining, Stopped} \<longrightarrow> \<not> u_accepts_work s) \<and>
     length (u_dropped s) \<le> (if u_phase s = Raised AttributeError then 1 else 0)"

lemma cleanup_missing: "leave_start exc = Raised AttributeError"
proof -
  have "lit ''_cleanup'' \<notin> set UDS_METHODS" by code_simp
  then show ?thesis by (simp add: leave_start_def)
qed

lemma handle_counts:
  "handle_connection cfg timeout parse c st = (out, st') \<Longrightarrow> s_total (snd st') = Suc (s_total (snd st))"
  by (cases st; cases st') (auto elim: handle_cases)

lemma uds_step_inv:
  assumes "uds_inv n s" "uds_step cfg timeout parse e s = Some s'"
  shows "uds_inv (n + accepted [e]) s'"
proof (cases e)
  case (Worker i)
  with assms(2) obtain out st where
    "handle_connection cfg timeout parse (u_queue s ! i) (u_agent s) = (out, st)" "i < length (u_queue s)"
    "s' = s\<lparr>u_queue := take i (u_queue s) @ drop (Suc i) (u_queue s), u_agent := st, u_replies := u_replies s @ [out]\<rparr>"
    by (auto split: if_splits prod.splits)
  then show ?thesis using assms(1) handle_counts Worker by (fastforce simp: uds_inv_def)
next
  case (Accept r)
  then show ?thesis using assms
    by (cases r) (auto simp: uds_inv_def cleanup_missing split: if_splits)
next
  case Start
  then show ?thesis using assms by (auto simp: uds_inv_def split: if_splits)
next
  case (StartFails f)
  then show ?thesis using assms by (auto simp: uds_inv_def split: if_splits)
next
  case Check
  then show ?thesis using assms by (auto simp: uds_inv_def cleanup_missing split: if_splits)
next
  case StopClose
  then show ?thesis using assms by (auto simp: uds_inv_def stop_defs split: if_splits)
next
  case StopPool
  then show ?thesis using assms by (auto simp: uds_inv_def stop_defs split: if_splits)
next
  case StopJoin
  then show ?thesis using assms by (auto simp: uds_inv_def stop_defs split: if_splits)
qed

lemma accepted_Cons: "accepted (e # es) = accepted [e] + accepted es"
  by (simp split: uds_event.split accept_result.split)

lemma uds_run_inv:
  "uds_inv n s \<Longrightarrow> uds_run cfg timeout parse es s = Some s' \<Longrightarrow> uds_inv (n + accepted es) s'"
proof (induction es arbitrary: n s)
  case (Cons e es)
  then obtain s1 where "uds_step cfg timeout parse e s = Some s1" "uds_run cfg timeout parse es s1 = Some s'"
    by (auto simp: bind_eq_Some_conv)
  from Cons.IH [OF uds_step_inv [OF Cons.prems(1) this(1)] this(2)] show ?case
    by (simp only: accepted_Cons [of e es] add.assoc)
qed simp

text \<open>A stop that waits for the workers ends: they take the waiting connections one by one.\<close>

lemma stop_drains:
  "u_stop s = Joining \<Longrightarrow>
     \<exists>s'. uds_run cfg timeout parse (replicate (length (u_queue s)) (Worker 0) @ [StopJoin]) s = Some s' \<and>
       u_stop s' = Stopped \<and> u_queue s' = [] \<and> length (u_replies s') = length (u_replies s) + length (u_queue s)"
proof (induction "length (u_queue s)" arbitrary: s)
  case 0
  then show ?case by (simp add: stop_join_def)
next
  case (Suc n)
  obtain out st where h: "handle_connection cfg timeout parse (u_queue s ! 0) (u_agent s) = (out, st)"
    by (cases "handle_connection cfg timeout parse (u_queue s ! 0) (u_agent s)") auto
  let ?s1 = "s\<lparr>u_queue := drop 1 (u_queue s), u_agent := st, u_replies := u_replies s @ [out]\<rparr>"
  have step: "uds_step cfg timeout parse (Worker 0) s = Some ?s1"
    using h Suc.hyps(2) by (cases "u_queue s") simp_all
  have "n = length (u_queue ?s1)" "u_stop ?s1 = Joining" using Suc.hyps(2) Suc.prems by simp_all
  from Suc.hyps(1) [OF this] obtain s' where s':
    "uds_run cfg timeout parse (replicate (length (u_queue ?s1)) (Worker 0) @ [StopJoin]) ?s1 = Some s'"
    "u_stop s' = Stopped" "u_queue s' = []"
    "length (u_replies s') = length (u_replies ?s1) + length (u_queue ?s1)" by blast
  have len: "length (u_queue s) = Suc (length (u_queue ?s1))" using Suc.hyps(2) by simp
  have "uds_run cfg timeout parse (replicate (length (u_queue s)) (Worker 0) @ [StopJoin]) s = Some s'"
    unfolding len replicate_Suc append_Cons uds_run.simps step bind.simps by (rule s'(1))
  moreover have "length (u_replies s') = length (u_replies s) + length (u_queue s)"
  proof -
    have "length (u_replies ?s1) = Suc (length (u_replies s))" by simp
    then show ?thesis using s'(4) len by linarith
  qed
  ultimately show ?case using s'(2,3) by blast
qed

subsection \<open>Properties\<close>

text \<open>
  C18: The life of the agent's server, whatever the order of its threads. Every accepted connection is handled once,
  waits, or was refused by a thread pool that had been shut down, which happens to one connection at most; the
  total counter is the number of handled connections; a completed stop leaves none waiting, and a stop that waits
  for the workers can complete. But \<open>start\<close> never returns: it calls a method \<open>_cleanup\<close> the class does not have,
  so once the server runs its thread can only end in an AttributeError, after a stop at its next test of the loop.
\<close>

theorem agent_server_lifecycle:
  assumes "uds_run cfg timeout parse es (new_uds file p) = Some s"
  shows "u_phase s \<in> {NotStarted, LoopHead, InAccept, Raised SetupError, Raised AttributeError} \<and>
    (u_phase s = LoopHead \<and> \<not> u_running s \<longrightarrow>
       uds_step cfg timeout parse Check s = Some (s\<lparr>u_phase := Raised AttributeError\<rparr>)) \<and>
    length (u_replies s) + length (u_queue s) + length (u_dropped s) = accepted es \<and> length (u_dropped s) \<le> 1 \<and>
    s_total (snd (u_agent s)) = length (u_replies s) \<and>
    (u_stop s = Stopped \<longrightarrow> u_queue s = []) \<and>
    (u_stop s = Joining \<longrightarrow> (\<exists>es' s'. uds_run cfg timeout parse es' s = Some s' \<and> u_stop s' = Stopped))"
proof -
  have "uds_inv 0 (new_uds file p)" by (simp add: uds_inv_def new_uds_def zero_stats_def)
  from uds_run_inv [OF this assms] have "uds_inv (accepted es) s" by simp
  then show ?thesis
    using stop_drains [of s cfg timeout parse] by (auto simp: uds_inv_def cleanup_missing split: if_splits)
qed

text \<open>One connection is handled, the next one is accepted after the thread pool was shut down.\<close>

definition demo_life :: "uds_event list" where
  "demo_life =
     (let c = \<lparr>cn_recv = [], cn_latency = 0, cn_send_ok = True\<rparr>
      in [Start, Check, Accept (Accepted c), Check, Worker 0, StopClose, StopPool, Accept (Accepted c), StopJoin])"

theorem agent_server_lifecycle_witness:
  "\<exists>s. uds_run (demo_cfg []) 10 (\<lambda>t. Inl ValueError) demo_life (new_uds False demo_state) = Some s \<and>
     u_phase s = Raised AttributeError \<and> length (u_replies s) = 1 \<and> length (u_dropped s) = 1 \<and> u_stop s = Stopped"
proof -
  let ?c = "\<lparr>cn_recv = [], cn_latency = 0, cn_send_ok = True\<rparr>"
  have h: "handle_connection (demo_cfg []) 10 (\<lambda>t. Inl ValueError) ?c (demo_state, zero_stats) =
      (Some FailOpen, demo_state, zero_stats\<lparr>s_total := 1\<rparr>)"
    by (simp add: handle_connection_def zero_stats_def)
  obtain s where s: "uds_run (demo_cfg []) 10 (\<lambda>t. Inl ValueError) demo_life (new_uds False demo_state) = Some s"
    "length (u_replies s) = 1" "u_stop s = Stopped" "u_phase s = Raised AttributeError"
    using h by (auto simp: demo_life_def new_uds_def cleanup_missing Let_def stop_defs)
  have "accepted demo_life = 2" by (simp add: demo_life_def Let_def)
  with agent_server_lifecycle [OF s(1)] s have "length (u_dropped s) = 1" by auto
  with s show ?thesis by blast
qed

end
