(* ===== verification/TrainModel.thy ===== *)
theory TrainModel
  imports Tier3
begin

text \<open>
  The training script, \<open>scripts/train_model.py\<close>: the synthetic samples it draws, and what it does with them. numpy's
  generator is a parameter with its documented ranges; scikit-learn and skl2onnx are parameters too. A column value
  is a double in the units of theory \<open>Floats\<close>; the matrix holds its rounding to 32 bits. The lemmas compare the
  samples with the features the agent extracts (\<open>Tier3\<close>) and with the score its scorer gives them.
\<close>

definition FEATURE_NAMES :: "pystr list" where
  "FEATURE_NAMES =
     map lit [''method_encoded'', ''uri_length'', ''query_length'', ''header_count'', ''body_length'', ''uri_entropy'',
              ''query_entropy'', ''body_entropy'', ''special_char_ratio'', ''encoded_char_count'', ''double_encoded'',
              ''null_bytes'', ''unicode_escape'', ''has_base64_body'', ''param_count'', ''excessive_params'',
              ''ua_length'', ''ua_is_scanner'', ''ua_empty'', ''ua_suspicious'', ''unusual_method'',
              ''has_proxy_headers'']"

definition N_FEATURES :: nat where
  "N_FEATURES = length FEATURE_NAMES"

subsection \<open>Drawing the samples\<close>

text \<open>How a column is drawn: left at zero, \<open>rng.choice\<close>, \<open>rng.integers\<close> (upper bound excluded), \<open>rng.uniform\<close>.\<close>

datatype draw = Zeros | Choice "int list" | Integers int int | Uniform dbl dbl

abbreviation hundredth :: "int \<Rightarrow> dbl" where
  "hundredth n \<equiv> fl_quot n 100"

definition BENIGN_COLUMNS :: "draw list" where
  "BENIGN_COLUMNS =
     [Choice [0, 1, 2], Integers 5 200, Integers 0 50, Integers 3 15, Integers 0 5000,
      Uniform (hundredth 150) (hundredth 350), Uniform 0 (hundredth 250), Uniform 0 (hundredth 350),
      Uniform 0 (hundredth 5), Integers 0 5] @ replicate 12 Zeros"

definition MALICIOUS_COLUMNS :: "draw list" where
  "MALICIOUS_COLUMNS =
     [Choice [0, 1, 3, 7], Integers 200 3000, Integers 50 800, Integers 2 30, Integers 0 50000,
      Uniform (hundredth 350) (hundredth 550), Uniform (hundredth 300) (hundredth 550),
      Uniform (hundredth 400) (hundredth 600), Uniform (hundredth 10) (hundredth 50), Integers 10 100,
      Choice [0, 1], Choice [0, 1], Choice [0, 1], Choice [0, 1], Integers 0 50, Choice [0, 1], Integers 0 200,
      Choice [0, 1], Choice [0, 1], Choice [0, 1], Choice [0, 1], Choice [0, 1]]"

text \<open>
  A draw of the generator: the number of the call, what is drawn, and which of the values the call returns. The
  probabilities of a choice do not matter here.
\<close>

type_synonym np_gen = "nat \<Rightarrow> draw \<Rightarrow> nat \<Rightarrow> dbl"

text \<open>\<open>astype(np.float32)\<close>: 24 significant bits, 29 fewer than a double.\<close>

definition float32 :: "dbl \<Rightarrow> dbl" where
  "float32 x = fl_int (x * 2 ^ 29) div 2 ^ 29"

text \<open>One row; \<open>first\<close> is the number of the call that draws column 0, a column left at zero takes no call.\<close>

definition sample_row :: "np_gen \<Rightarrow> nat \<Rightarrow> draw list \<Rightarrow> nat \<Rightarrow> dbl list" where
  "sample_row gen first cols i =
     map (\<lambda>(j, d). if d = Zeros then 0 else float32 (gen (first + j) d i)) (enumerate 0 cols)"

definition generate_samples :: "np_gen \<Rightarrow> nat \<Rightarrow> nat \<Rightarrow> dbl list list \<times> int list" where
  "generate_samples gen n_benign n_malicious =
     (map (sample_row gen 0 BENIGN_COLUMNS) [0..<n_benign] @
        map (sample_row gen 10 MALICIOUS_COLUMNS) [0..<n_malicious],
      replicate n_benign 0 @ replicate n_malicious 1)"

subsection \<open>Training and export\<close>

text \<open>
  Splitting and fitting the pipeline, converting it, and creating directories; \<open>tl_mkdir\<close> is whether
  \<open>os.makedirs\<close> of a non-empty path succeeds, \<open>tl_write\<close> whether the file can be written.
\<close>

record 'm train_lib =
  tl_fit :: "dbl list list \<Rightarrow> int list \<Rightarrow> 'm"
  tl_has_onnx :: bool
  tl_convert :: "nat \<Rightarrow> 'm \<Rightarrow> bytes"
  tl_mkdir :: "pystr \<Rightarrow> bool"
  tl_write :: "pystr \<Rightarrow> bool"

text \<open>\<open>os.path.dirname\<close>.\<close>

definition dirname :: "pystr \<Rightarrow> pystr" where
  "dirname p =
     (let head = rev (dropWhile (\<lambda>c. c \<noteq> 47) (rev p))
      in if \<forall>c \<in> set head. c = 47 then head else rev (dropWhile (\<lambda>c. c = 47) (rev head)))"

text \<open>\<open>train_and_export\<close>: the file written, if any.\<close>

definition train_and_export :: "np_gen \<Rightarrow> 'm train_lib \<Rightarrow> pystr \<Rightarrow> (pystr \<times> bytes) option result" where
  "train_and_export gen lib output_path =
     (case generate_samples gen 10000 2000 of
        (X, y) \<Rightarrow>
          let model = tl_fit lib X y
          in if \<not> tl_has_onnx lib then Inr None
             else if dirname output_path = [] \<or> \<not> tl_mkdir lib (dirname output_path) \<or> \<not> tl_write lib output_path
               then Inl OSError
             else Inr (Some (output_path, tl_convert lib N_FEATURES model)))"

text \<open>The command line: the two counts are read and not used.\<close>

record train_args =
  ta_output :: pystr
  ta_n_benign :: nat
  ta_n_malicious :: nat

definition default_args :: train_args where
  "default_args = \<lparr>ta_output = lit ''/etc/aiss/ml/aiss_model.onnx'', ta_n_benign = 10000, ta_n_malicious = 2000\<rparr>"

definition train_main :: "np_gen \<Rightarrow> 'm train_lib \<Rightarrow> train_args \<Rightarrow> (pystr \<times> bytes) option result" where
  "train_main gen lib args = train_and_export gen lib (ta_output args)"

subsection \<open>What the generator promises\<close>

definition drawn :: "draw \<Rightarrow> dbl \<Rightarrow> bool" where
  "drawn d x \<longleftrightarrow>
     (case d of
        Zeros \<Rightarrow> x = 0
      | Choice cs \<Rightarrow> x \<in> (\<lambda>c. c * 2 ^ 120) ` set cs
      | Integers lo hi \<Rightarrow> \<exists>n. lo \<le> n \<and> n < hi \<and> x = n * 2 ^ 120
      | Uniform lo hi \<Rightarrow> lo \<le> x \<and> x \<le> hi)"

definition proper_draw :: "draw \<Rightarrow> bool" where
  "proper_draw d \<longleftrightarrow>
     (case d of Zeros \<Rightarrow> False | Choice cs \<Rightarrow> cs \<noteq> [] | Integers lo hi \<Rightarrow> lo < hi | Uniform lo hi \<Rightarrow> lo \<le> hi)"

definition numpy_ranges :: "np_gen \<Rightarrow> bool" where
  "numpy_ranges gen \<longleftrightarrow> (\<forall>k d i. proper_draw d \<longrightarrow> drawn d (gen k d i))"

lemma float32_mono: "x \<le> y \<Longrightarrow> float32 x \<le> float32 y"
  unfolding float32_def by (intro zdiv_mono1 fl_int_mono) auto

lemma float32_exact:
  assumes "0 \<le> q" "q \<le> 2 ^ 53"
  shows "float32 (q * 2 ^ k) = q * 2 ^ k"
proof -
  have "is_double (q * 2 ^ (k + 29))" using assms by (rule is_double_multiple)
  then show ?thesis by (simp add: float32_def is_double_def power_add mult.assoc)
qed

lemma sample_row_nth:
  "j < length cols \<Longrightarrow>
     sample_row gen first cols i ! j = (if cols ! j = Zeros then 0 else float32 (gen (first + j) (cols ! j) i))"
  by (simp add: sample_row_def nth_enumerate_eq)

lemma sample_row_length: "length (sample_row gen first cols i) = length cols"
  by (simp add: sample_row_def)

lemma columns_length: "length BENIGN_COLUMNS = N_FEATURES" "length MALICIOUS_COLUMNS = N_FEATURES"
  by code_simp+

text \<open>The bounds of one drawn column after the rounding to 32 bits.\<close>

definition column_below :: "dbl \<Rightarrow> draw \<Rightarrow> bool" where
  "column_below t d \<longleftrightarrow>
     (case d of
        Integers lo hi \<Rightarrow> 0 \<le> lo \<and> lo < hi \<and> hi \<le> 2 ^ 53 \<and> (hi - 1) * 2 ^ 120 < t
      | Uniform lo hi \<Rightarrow> lo \<le> hi \<and> float32 hi < t
      | _ \<Rightarrow> False)"

definition column_from :: "dbl \<Rightarrow> draw \<Rightarrow> bool" where
  "column_from t d \<longleftrightarrow>
     (case d of
        Integers lo hi \<Rightarrow> 0 \<le> lo \<and> lo < hi \<and> hi \<le> 2 ^ 53 \<and> t \<le> lo * 2 ^ 120
      | Uniform lo hi \<Rightarrow> lo \<le> hi \<and> t \<le> float32 lo
      | _ \<Rightarrow> False)"

lemma drawn_column:
  assumes "numpy_ranges gen"
  shows "column_below t d \<Longrightarrow> float32 (gen k d i) < t" "column_from t d \<Longrightarrow> t \<le> float32 (gen k d i)"
proof -
  have int: "\<exists>n. lo \<le> n \<and> n < hi \<and> float32 (gen k d i) = n * 2 ^ 120"
    if d: "d = Integers lo hi" "0 \<le> lo" "lo < hi" "hi \<le> 2 ^ 53" for lo hi
  proof -
    have "drawn d (gen k d i)" using assms d by (simp add: numpy_ranges_def proper_draw_def)
    then obtain n where n: "lo \<le> n" "n < hi" "gen k d i = n * 2 ^ 120" using d(1) by (auto simp: drawn_def)
    with d have "float32 (n * 2 ^ 120) = n * 2 ^ 120" by (intro float32_exact) auto
    with n show ?thesis by auto
  qed
  have uni: "float32 lo \<le> float32 (gen k d i) \<and> float32 (gen k d i) \<le> float32 hi" if d: "d = Uniform lo hi" "lo \<le> hi" for lo hi
  proof -
    have "drawn d (gen k d i)" using assms d by (simp add: numpy_ranges_def proper_draw_def)
    with d(1) show ?thesis by (auto simp: drawn_def intro: float32_mono)
  qed
  show "float32 (gen k d i) < t" if b: "column_below t d"
  proof (cases d)
    case (Integers lo hi)
    with b int obtain n where n: "n < hi" "float32 (gen k d i) = n * 2 ^ 120" "(hi - 1) * 2 ^ 120 < t"
      by (auto simp: column_below_def)
    then have "n * 2 ^ 120 \<le> (hi - 1) * 2 ^ 120" by (intro mult_right_mono) auto
    with n show ?thesis by linarith
  next
    case (Uniform lo hi)
    with b uni [of lo hi] show ?thesis by (auto simp: column_below_def)
  qed (use b in \<open>simp_all add: column_below_def\<close>)
  show "t \<le> float32 (gen k d i)" if b: "column_from t d"
  proof (cases d)
    case (Integers lo hi)
    with b int obtain n where n: "lo \<le> n" "float32 (gen k d i) = n * 2 ^ 120" "t \<le> lo * 2 ^ 120"
      by (auto simp: column_from_def)
    then have "lo * 2 ^ 120 \<le> n * 2 ^ 120" by (intro mult_right_mono) auto
    with n show ?thesis by linarith
  next
    case (Uniform lo hi)
    with b uni [of lo hi] show ?thesis by (auto simp: column_from_def)
  qed (use b in \<open>simp_all add: column_from_def\<close>)
qed

text \<open>Columns in which the benign samples end before the malicious ones begin, with the limit between them.\<close>

definition DECIDING :: "(nat \<times> dbl) list" where
  "DECIDING =
     [(1, 200 * 2 ^ 120), (2, 50 * 2 ^ 120), (6, 3 * 2 ^ 120), (7, 4 * 2 ^ 120), (8, float32 (hundredth 10)),
      (9, 10 * 2 ^ 120)]"

lemma float32_limits:
  "float32 (hundredth 250) < 3 * 2 ^ 120" "3 * 2 ^ 120 \<le> float32 (hundredth 300)" "float32 (hundredth 350) < 4 * 2 ^ 120"
  "4 * 2 ^ 120 \<le> float32 (hundredth 400)" "float32 (hundredth 5) < float32 (hundredth 10)"
  "0 \<le> hundredth 250" "0 \<le> hundredth 350" "0 \<le> hundredth 5" "hundredth 300 \<le> hundredth 550"
  "hundredth 400 \<le> hundredth 600" "hundredth 10 \<le> hundredth 50"
  by code_simp+

lemma deciding_columns:
  "list_all (\<lambda>(j, t). j < N_FEATURES \<and> BENIGN_COLUMNS ! j \<noteq> Zeros \<and> MALICIOUS_COLUMNS ! j \<noteq> Zeros \<and>
     column_below t (BENIGN_COLUMNS ! j) \<and> column_from t (MALICIOUS_COLUMNS ! j)) DECIDING"
  using float32_limits
  by (simp add: DECIDING_def N_FEATURES_def FEATURE_NAMES_def BENIGN_COLUMNS_def MALICIOUS_COLUMNS_def column_below_def
      column_from_def)

lemma generate_nth:
  assumes "k < nb + nm" "generate_samples gen nb nm = (X, y)"
  shows "X ! k = (if k < nb then sample_row gen 0 BENIGN_COLUMNS k else sample_row gen 10 MALICIOUS_COLUMNS (k - nb))"
    "y ! k = (if k < nb then 0 else 1)" "length X = nb + nm"
  using assms by (auto simp: generate_samples_def nth_append)

subsection \<open>Against the agent's features\<close>

text \<open>The agent's features in the order of the training columns; two of its 24 features have no column.\<close>

definition feature_vector :: "features \<Rightarrow> real list" where
  "feature_vector f =
     [real (f_method_encoded f), real (f_uri_length f), real (f_query_length f), real (f_header_count f),
      real (f_body_length f), f_uri_entropy f, f_query_entropy f, f_body_entropy f,
      real_of_int (f_special_char_ratio f) / 2 ^ 120, real (f_encoded_char_count f), of_bool (f_double_encoded f),
      of_bool (f_null_bytes f), of_bool (f_unicode_escape f), of_bool (f_has_base64_body f), real (f_param_count f),
      of_bool (f_excessive_params f), real (f_ua_length f), of_bool (f_ua_has_scanner f), of_bool (f_ua_empty f),
      of_bool (f_ua_suspicious f), of_bool (f_unusual_method f), of_bool (f_has_proxy_headers f)]"

text \<open>A value in the range a column is drawn from, after the rounding to 32 bits.\<close>

definition in_column :: "draw \<Rightarrow> real \<Rightarrow> bool" where
  "in_column d x \<longleftrightarrow>
     (case d of
        Zeros \<Rightarrow> x = 0
      | Choice cs \<Rightarrow> x \<in> of_int ` set cs
      | Integers lo hi \<Rightarrow> of_int lo \<le> x \<and> x < of_int hi
      | Uniform lo hi \<Rightarrow> of_int (float32 lo) \<le> x * 2 ^ 120 \<and> x * 2 ^ 120 \<le> of_int (float32 hi))"

definition benign_like :: "features \<Rightarrow> bool" where
  "benign_like f \<longleftrightarrow> list_all2 in_column BENIGN_COLUMNS (feature_vector f)"

lemma benign_like_facts:
  assumes "benign_like f"
  shows "\<not> f_null_bytes f" "\<not> f_double_encoded f" "f_encoded_char_count f < 5" "f_uri_length f < 200"
    "f_query_entropy f * 2 ^ 120 \<le> of_int (float32 (hundredth 250))" "f_body_entropy f * 2 ^ 120 \<le> of_int (float32 (hundredth 350))"
    "\<not> f_ua_has_scanner f" "\<not> f_ua_suspicious f" "\<not> f_ua_empty f" "\<not> f_unusual_method f" "\<not> f_has_base64_body f"
    "\<not> f_excessive_params f" "f_special_char_ratio f \<le> float32 (hundredth 5)" "\<not> f_has_proxy_headers f" "\<not> f_unicode_escape f"
    "f_ua_length f = 0"
  using assms
  by (simp_all add: benign_like_def BENIGN_COLUMNS_def feature_vector_def in_column_def eval_nat_numeral)

lemma entropy_limits:
  assumes "benign_like f"
  shows "\<not> 4.5 < f_query_entropy f" "\<not> 5.5 < f_body_entropy f"
proof -
  let ?q = "float32 (hundredth 250)" and ?b = "float32 (hundredth 350)"
  have "?q \<le> 4 * 2 ^ 120" "?b \<le> 4 * 2 ^ 120" by code_simp+
  then have "real_of_int ?q \<le> real_of_int (4 * 2 ^ 120)" "real_of_int ?b \<le> real_of_int (4 * 2 ^ 120)"
    by (simp_all only: of_int_le_iff)
  then have q: "real_of_int ?q \<le> 4 * 2 ^ 120" "real_of_int ?b \<le> 4 * 2 ^ 120" by simp_all
  have "f_query_entropy f * 2 ^ 120 \<le> 4 * 2 ^ 120" "f_body_entropy f * 2 ^ 120 \<le> 4 * 2 ^ 120"
    using benign_like_facts(5,6) [OF assms] q by linarith+
  then have "f_query_entropy f \<le> 4" "f_body_entropy f \<le> 4" by simp_all
  then show "\<not> 4.5 < f_query_entropy f" "\<not> 5.5 < f_body_entropy f" by simp_all
qed

lemma benign_like_score: "benign_like f \<Longrightarrow> compute_score f = (0, [])"
proof -
  assume b: "benign_like f"
  have "float32 (hundredth 5) \<le> hundredths 15" by code_simp
  with benign_like_facts(13) [OF b] have "\<not> hundredths 15 < f_special_char_ratio f" by linarith
  moreover have "min 0 fl_one = 0" by (simp add: fl_one_def)
  ultimately show ?thesis
    using benign_like_facts [OF b] entropy_limits [OF b]
    by (simp add: compute_score_def score_steps_def add_if_def)
qed

lemma benign_like_unreal: "benign_like f \<Longrightarrow> f \<noteq> extract_features r"
proof
  assume b: "benign_like f" and "f = extract_features r"
  then have "f_ua_length f = 0 \<longrightarrow> f_ua_empty f" by (simp add: extract_features_def Let_def)
  with benign_like_facts(9,16) [OF b] show False by simp
qed

text \<open>Every benign row lies in its columns' ranges.\<close>

definition value_of :: "dbl \<Rightarrow> real" where
  "value_of d = real_of_int d / 2 ^ 120"

definition sound_column :: "draw \<Rightarrow> bool" where
  "sound_column d \<longleftrightarrow>
     (case d of
        Zeros \<Rightarrow> True
      | Choice cs \<Rightarrow> cs \<noteq> [] \<and> (\<forall>c \<in> set cs. 0 \<le> c \<and> c \<le> 2 ^ 53)
      | Integers lo hi \<Rightarrow> 0 \<le> lo \<and> lo < hi \<and> hi \<le> 2 ^ 53
      | Uniform lo hi \<Rightarrow> lo \<le> hi)"

lemma benign_columns_sound: "\<forall>d \<in> set BENIGN_COLUMNS. sound_column d"
proof -
  have "hundredth 150 \<le> hundredth 350" by code_simp
  then show ?thesis using float32_limits by (simp add: BENIGN_COLUMNS_def sound_column_def)
qed

lemma value_of_int: "value_of (n * 2 ^ 120) = of_int n"
  by (simp add: value_of_def)

lemma drawn_in_column:
  assumes "numpy_ranges gen" "sound_column d"
  shows "in_column d (value_of (if d = Zeros then 0 else float32 (gen k d i)))"
proof -
  have v: "drawn d (gen k d i)" if "d \<noteq> Zeros"
    using assms that by (cases d) (auto simp: numpy_ranges_def sound_column_def proper_draw_def)
  show ?thesis
  proof (cases d)
    case Zeros
    then show ?thesis by (simp add: in_column_def value_of_def)
  next
    case (Choice cs)
    with v obtain c where c: "c \<in> set cs" "gen k d i = c * 2 ^ 120" by (auto simp: drawn_def)
    with assms(2) Choice have "float32 (c * 2 ^ 120) = c * 2 ^ 120"
      by (intro float32_exact) (auto simp: sound_column_def)
    with c Choice value_of_int [of c] show ?thesis by (auto simp: in_column_def)
  next
    case (Integers lo hi)
    with v obtain n where n: "lo \<le> n" "n < hi" "gen k d i = n * 2 ^ 120" by (auto simp: drawn_def)
    with assms(2) Integers have "float32 (n * 2 ^ 120) = n * 2 ^ 120"
      by (intro float32_exact) (auto simp: sound_column_def)
    with n Integers value_of_int [of n] show ?thesis by (auto simp: in_column_def)
  next
    case (Uniform lo hi)
    with v have "float32 lo \<le> float32 (gen k d i)" "float32 (gen k d i) \<le> float32 hi"
      by (auto simp: drawn_def intro: float32_mono)
    with Uniform show ?thesis by (simp add: in_column_def value_of_def)
  qed
qed

lemma benign_row_in_columns:
  assumes "numpy_ranges gen"
  shows "list_all2 in_column BENIGN_COLUMNS (map value_of (sample_row gen 0 BENIGN_COLUMNS k))"
  unfolding list_all2_conv_all_nth
proof (intro conjI allI impI)
  show "length BENIGN_COLUMNS = length (map value_of (sample_row gen 0 BENIGN_COLUMNS k))"
    by (simp add: sample_row_length)
  fix j assume j: "j < length BENIGN_COLUMNS"
  then have "sound_column (BENIGN_COLUMNS ! j)" using benign_columns_sound by simp
  from drawn_in_column [OF assms this, of "0 + j" k] j
  show "in_column (BENIGN_COLUMNS ! j) (map value_of (sample_row gen 0 BENIGN_COLUMNS k) ! j)"
    by (simp add: sample_row_nth sample_row_length)
qed

subsection \<open>Properties\<close>

text \<open>
  C40: The label can be read off one column. Whatever the generator draws, every sample has the 22 columns,
  and each of six columns (path length, query length, query and body entropy, share of special characters,
  percent signs) alone decides its class: the sample is labelled malicious exactly when the value reaches the column's
  limit. A perfect report on the held-out fifth says nothing about the model.
\<close>

theorem train_column_decides:
  assumes "numpy_ranges gen" "generate_samples gen nb nm = (X, y)" "(j, t) \<in> set DECIDING" "k < nb + nm"
  shows "length X = nb + nm \<and> length (X ! k) = N_FEATURES \<and> (t \<le> X ! k ! j \<longleftrightarrow> y ! k = 1)"
proof -
  note g = generate_nth [OF assms(4,2)]
  have c: "j < N_FEATURES" "BENIGN_COLUMNS ! j \<noteq> Zeros" "MALICIOUS_COLUMNS ! j \<noteq> Zeros"
    "column_below t (BENIGN_COLUMNS ! j)" "column_from t (MALICIOUS_COLUMNS ! j)"
    using deciding_columns assms(3) by (auto simp: list_all_iff)
  have "length (X ! k) = N_FEATURES" unfolding g(1) by (simp add: sample_row_length columns_length)
  moreover have "t \<le> X ! k ! j \<longleftrightarrow> y ! k = 1"
  proof (cases "k < nb")
    case True
    with g c drawn_column(1) [OF assms(1) c(4), of "0 + j" k] columns_length show ?thesis
      by (simp add: sample_row_nth)
  next
    case False
    with g c drawn_column(2) [OF assms(1) c(5), of "10 + j" "k - nb"] columns_length show ?thesis
      by (simp add: sample_row_nth)
  qed
  ultimately show ?thesis using g(3) by simp
qed

text \<open>A generator that always returns the lower end of a range.\<close>

definition lowest :: np_gen where
  "lowest k d i = (case d of Zeros \<Rightarrow> 0 | Choice cs \<Rightarrow> hd cs * 2 ^ 120 | Integers lo hi \<Rightarrow> lo * 2 ^ 120 | Uniform lo hi \<Rightarrow> lo)"

lemma lowest_ranges: "numpy_ranges lowest"
  by (auto simp: numpy_ranges_def proper_draw_def lowest_def drawn_def split: draw.splits)

theorem train_column_decides_witness:
  "200 * 2 ^ 120 \<le> fst (generate_samples lowest 3 2) ! 3 ! 1 \<and> \<not> 200 * 2 ^ 120 \<le> fst (generate_samples lowest 3 2) ! 2 ! 1"
proof -
  have g: "generate_samples lowest 3 2 = (fst (generate_samples lowest 3 2), snd (generate_samples lowest 3 2))" by simp
  have d: "(1, 200 * 2 ^ 120) \<in> set DECIDING" by (simp add: DECIDING_def)
  have "snd (generate_samples lowest 3 2) = [0, 0, 0, 1, 1]" by (simp add: generate_samples_def numeral_2_eq_2 numeral_3_eq_3)
  then have "snd (generate_samples lowest 3 2) ! 3 = 1" "snd (generate_samples lowest 3 2) ! 2 \<noteq> 1" by simp_all
  moreover have "(3::nat) < 3 + 2" "(2::nat) < 3 + 2" by simp_all
  ultimately show ?thesis using train_column_decides [OF lowest_ranges g d] by blast
qed

text \<open>
  The benign class is not one of requests. No request has the features of a benign sample: all twelve later
  columns of a benign row are zero, among them the length of the User-Agent and the flag for an empty one. To the
  agent's own scorer every benign row looks perfectly clean: features with its values get the score 0.
\<close>

theorem train_benign_unreal:
  assumes "numpy_ranges gen" "generate_samples gen nb nm = (X, y)" "k < nb" "feature_vector f = map value_of (X ! k)"
  shows "f \<noteq> extract_features r \<and> compute_score f = (0, [])"
proof -
  have "benign_like f"
    using benign_row_in_columns [OF assms(1), of k] generate_nth(1) [OF _ assms(2), of k] assms(3,4)
    by (simp add: benign_like_def)
  then show ?thesis using benign_like_unreal benign_like_score by blast
qed

definition lowest_features :: features where
  "lowest_features = quiet_features\<lparr>f_uri_length := 5, f_header_count := 3, f_uri_entropy := 1.5\<rparr>"

theorem train_benign_unreal_witness:
  "lowest_features \<noteq> extract_features empty_request \<and> compute_score lowest_features = (0, [])"
proof -
  have e: "float32 (hundredth 150) = 3 * 2 ^ 119" "float32 0 = 0" "float32 (5 * 2 ^ 120) = 5 * 2 ^ 120"
    "float32 (3 * 2 ^ 120) = 3 * 2 ^ 120" by code_simp+
  have "sample_row lowest 0 BENIGN_COLUMNS 0 =
      [0, 5 * 2 ^ 120, 0, 3 * 2 ^ 120, 0, 3 * 2 ^ 119, 0, 0, 0, 0] @ replicate 12 0"
    using e by (simp add: sample_row_def BENIGN_COLUMNS_def lowest_def eval_nat_numeral)
  moreover have "fst (generate_samples lowest 1 0) ! 0 = sample_row lowest 0 BENIGN_COLUMNS 0"
    by (simp add: generate_samples_def)
  ultimately have v: "feature_vector lowest_features = map value_of (fst (generate_samples lowest 1 0) ! 0)"
    by (simp add: feature_vector_def lowest_features_def quiet_features_def value_of_def eval_nat_numeral)
  show ?thesis
    by (rule train_benign_unreal [OF lowest_ranges _ _ v, where nb = 1 and nm = 0 and y = "snd (generate_samples lowest 1 0)"])
      simp_all
qed

end
