(* ===== verification/RateLimit.thy ===== *)
theory RateLimit
  imports Prelude "HOL-Library.AList"
begin

text \<open>
  The rate limiter, \<open>server/app/middleware/rate_limit.py\<close>: a sliding window per client key. Times
  are microseconds of the monotonic clock; a deque is a list with the oldest time first.
\<close>

subsection \<open>The limiter\<close>

record limiter =
  lm_limit :: nat
  lm_window :: int
  lm_store :: "(pystr \<times> int list) list"

definition new_limiter :: "nat \<Rightarrow> limiter" where
  "new_limiter n = \<lparr>lm_limit = n, lm_window = 60 * 1000000, lm_store = []\<rparr>"

definition times_of :: "limiter \<Rightarrow> pystr \<Rightarrow> int list" where
  "times_of l key = dict_get (lm_store l) key []"

text \<open>The eviction loop \<open>while dq and dq[0] < cutoff: dq.popleft()\<close>.\<close>

definition evict :: "int \<Rightarrow> int list \<Rightarrow> int list" where
  "evict cutoff dq = dropWhile (\<lambda>t. t < cutoff) dq"

definition is_allowed :: "pystr \<Rightarrow> int \<Rightarrow> limiter \<Rightarrow> (bool \<times> nat) \<times> limiter" where
  "is_allowed key now l =
     (let dq = evict (now - lm_window l) (times_of l key)
      in if lm_limit l \<le> length dq then
           ((False, 0), l\<lparr>lm_store := AList.update key dq (lm_store l)\<rparr>)
         else
           ((True, lm_limit l - length (dq @ [now])),
            l\<lparr>lm_store := AList.update key (dq @ [now]) (lm_store l)\<rparr>))"

subsection \<open>The middleware\<close>

record http_request =
  hr_path :: pystr
  hr_real_ip :: "pystr option"
  hr_forwarded_for :: "pystr option"
  hr_peer :: pystr

text \<open>\<open>X-Real-IP\<close>, else the first \<open>X-Forwarded-For\<close> entry, else the peer, else \<open>unknown\<close>.\<close>

definition client_key :: "http_request \<Rightarrow> pystr" where
  "client_key r =
     or_else (case hr_real_ip r of None \<Rightarrow> [] | Some x \<Rightarrow> x)
       (or_else (strip (before_first 44 (case hr_forwarded_for r of None \<Rightarrow> [] | Some x \<Rightarrow> x)))
         (or_else (hr_peer r) (lit ''unknown'')))"

record rate_limits =
  rl_global :: limiter
  rl_auth :: limiter
  rl_telemetry :: limiter

definition new_rate_limits :: "nat \<Rightarrow> rate_limits" where
  "new_rate_limits n =
     \<lparr>rl_global = new_limiter n, rl_auth = new_limiter 10, rl_telemetry = new_limiter 1200\<rparr>"

datatype limit_class = AuthLimit | TelemetryLimit | GlobalLimit

definition limit_type :: "pystr \<Rightarrow> limit_class" where
  "limit_type path =
     (if startswith path (lit ''/v1/auth'') \<or> startswith path (lit ''/v1/agents/register'') then AuthLimit
      else if startswith path (lit ''/v1/telemetry'') then TelemetryLimit
      else GlobalLimit)"

text \<open>\<open>dispatch\<close>: \<open>None\<close> is the 429 response, \<open>Some n\<close> the remaining count put on the response.\<close>

definition rate_dispatch :: "int \<Rightarrow> http_request \<Rightarrow> rate_limits \<Rightarrow> nat option \<times> rate_limits" where
  "rate_dispatch now r ls =
     (let key = client_key r
      in case limit_type (hr_path r) of
           AuthLimit \<Rightarrow>
             (case is_allowed key now (rl_auth ls) of
                ((ok, n), l) \<Rightarrow> ((if ok then Some n else None), ls\<lparr>rl_auth := l\<rparr>))
         | TelemetryLimit \<Rightarrow>
             (case is_allowed key now (rl_telemetry ls) of
                ((ok, n), l) \<Rightarrow> ((if ok then Some n else None), ls\<lparr>rl_telemetry := l\<rparr>))
         | GlobalLimit \<Rightarrow>
             (case is_allowed key now (rl_global ls) of
                ((ok, n), l) \<Rightarrow> ((if ok then Some n else None), ls\<lparr>rl_global := l\<rparr>)))"

subsection \<open>Lemmas\<close>

lemma times_of_update:
  "times_of (l\<lparr>lm_store := AList.update key dq (lm_store l)\<rparr>) k = (if k = key then dq else times_of l k)"
  by (simp add: times_of_def dict_get_def update_conv')

lemma is_allowed_params [simp]:
  "lm_limit (snd (is_allowed key now l)) = lm_limit l"
  "lm_window (snd (is_allowed key now l)) = lm_window l"
  by (simp_all add: is_allowed_def Let_def)

lemma is_allowed_times:
  "times_of (snd (is_allowed key now l)) k =
     (if k = key then evict (now - lm_window l) (times_of l key) @
        (if fst (fst (is_allowed key now l)) then [now] else [])
      else times_of l k)"
  by (simp add: is_allowed_def Let_def times_of_update)

text \<open>
  A run of one limiter: calls in the order of their times, with the times of the allowed calls of
  each key so far.
\<close>

inductive limiter_run :: "nat \<Rightarrow> int \<Rightarrow> (pystr \<Rightarrow> int list) \<Rightarrow> int \<Rightarrow> limiter \<Rightarrow> bool" for n w where
  run_start: "limiter_run n w (\<lambda>k. []) t0 \<lparr>lm_limit = n, lm_window = w, lm_store = []\<rparr>"
| run_call: "limiter_run n w hist t l \<Longrightarrow> t \<le> now \<Longrightarrow> is_allowed key now l = ((ok, left), l') \<Longrightarrow>
    limiter_run n w (if ok then hist(key := hist key @ [now]) else hist) now l'"

definition in_last :: "int \<Rightarrow> int \<Rightarrow> int list \<Rightarrow> int list" where
  "in_last w now ts = filter (\<lambda>t. now - w \<le> t) ts"

definition limiter_inv :: "nat \<Rightarrow> int \<Rightarrow> (pystr \<Rightarrow> int list) \<Rightarrow> int \<Rightarrow> limiter \<Rightarrow> bool" where
  "limiter_inv n w hist t l \<longleftrightarrow>
     lm_limit l = n \<and> lm_window l = w \<and>
     (\<forall>k. sorted (hist k) \<and> (\<forall>x \<in> set (hist k). x \<le> t) \<and>
        (\<exists>m. times_of l k = drop m (hist k) \<and> (\<forall>x \<in> set (take m (hist k)). x < t - w)))"

lemma evict_sorted: "sorted ts \<Longrightarrow> evict c ts = filter (\<lambda>t. c \<le> t) ts"
  using filter_ge_dropWhile [of "\<lambda>t. t" ts c] by (simp add: evict_def)

lemma evicted_is_recent:
  assumes "limiter_inv n w hist t l" "t \<le> now"
  shows "evict (now - w) (times_of l k) = in_last w now (hist k)"
proof -
  obtain m where m: "times_of l k = drop m (hist k)" "\<forall>x \<in> set (take m (hist k)). x < t - w"
    and s: "sorted (hist k)" using assms(1) unfolding limiter_inv_def by blast
  have "evict (now - w) (times_of l k) = filter (\<lambda>x. now - w \<le> x) (drop m (hist k))"
    unfolding m(1) using s by (intro evict_sorted) (rule sorted_wrt_drop)
  moreover have "filter (\<lambda>x. now - w \<le> x) (take m (hist k)) = []"
    using m(2) assms(2) by (auto simp: filter_empty_conv)
  then have "filter (\<lambda>x. now - w \<le> x) (hist k) = filter (\<lambda>x. now - w \<le> x) (drop m (hist k))"
    by (metis append_Nil append_take_drop_id filter_append)
  ultimately show ?thesis by (simp add: in_last_def)
qed

lemma evict_is_drop:
  assumes "limiter_inv n w hist t l" "t \<le> now"
  shows "\<exists>m. evict (now - w) (times_of l k) = drop m (hist k) \<and>
    (\<forall>x \<in> set (take m (hist k)). x < now - w)"
proof -
  let ?ts = "hist k"
  have "sorted ?ts" using assms(1) unfolding limiter_inv_def by blast
  then have "in_last w now ?ts = dropWhile (\<lambda>x. x < now - w) ?ts"
    using evict_sorted [of ?ts "now - w"] by (simp add: in_last_def evict_def)
  also have "\<dots> = drop (length (takeWhile (\<lambda>x. x < now - w) ?ts)) ?ts" by (rule dropWhile_eq_drop)
  finally have "evict (now - w) (times_of l k) = drop (length (takeWhile (\<lambda>x. x < now - w) ?ts)) ?ts"
    using evicted_is_recent [OF assms] by simp
  moreover have "take (length (takeWhile (\<lambda>x. x < now - w) ?ts)) ?ts = takeWhile (\<lambda>x. x < now - w) ?ts"
    by (metis takeWhile_eq_take)
  ultimately show ?thesis by (metis set_takeWhileD)
qed

lemma limiter_inv_step:
  assumes "limiter_inv n w hist t l" "t \<le> now" "is_allowed key now l = ((ok, left), l')"
  shows "limiter_inv n w (if ok then hist(key := hist key @ [now]) else hist) now l'"
proof -
  let ?h = "if ok then hist(key := hist key @ [now]) else hist"
  have l': "l' = snd (is_allowed key now l)" and ok: "ok = fst (fst (is_allowed key now l))"
    using assms(3) by simp_all
  have lw: "lm_window l = w" "lm_limit l = n" using assms(1) by (simp_all add: limiter_inv_def)
  have s: "sorted (hist k)" for k using assms(1) unfolding limiter_inv_def by blast
  have le: "\<forall>x \<in> set (hist k). x \<le> now" for k
    using assms(1,2) unfolding limiter_inv_def by (meson order_trans)
  have "sorted (?h k) \<and> (\<forall>x \<in> set (?h k). x \<le> now) \<and>
      (\<exists>m. times_of l' k = drop m (?h k) \<and> (\<forall>x \<in> set (take m (?h k)). x < now - w))" for k
  proof (cases "k = key")
    case True
    obtain m where m: "evict (now - w) (times_of l key) = drop m (hist key)"
      "\<forall>x \<in> set (take m (hist key)). x < now - w" using evict_is_drop [OF assms(1,2)] by blast
    let ?m = "min m (length (hist key))"
    have "drop ?m (hist key) = drop m (hist key)" "take ?m (hist key) = take m (hist key)"
      by (simp_all add: min_def)
    then have "times_of l' key = drop ?m (?h key)" "\<forall>x \<in> set (take ?m (?h key)). x < now - w"
      using m is_allowed_times [of key now l key] unfolding l' ok lw by auto
    then have "\<exists>m. times_of l' k = drop m (?h k) \<and> (\<forall>x \<in> set (take m (?h k)). x < now - w)"
      using True by blast
    moreover have "sorted (?h k)" "\<forall>x \<in> set (?h k). x \<le> now"
      using True s [of key] le [of key] by (auto simp: sorted_append)
    ultimately show ?thesis by blast
  next
    case False
    then have "times_of l' k = times_of l k" unfolding l' by (simp add: is_allowed_times)
    moreover obtain m where "times_of l k = drop m (hist k)" "\<forall>x \<in> set (take m (hist k)). x < t - w"
      using assms(1) unfolding limiter_inv_def by blast
    ultimately show ?thesis
      using False s [of k] le [of k] assms(2) by (intro conjI exI [of _ m]) auto
  qed
  moreover have "lm_limit l' = n" "lm_window l' = w" unfolding l' using lw by simp_all
  ultimately show ?thesis unfolding limiter_inv_def by blast
qed

lemma limiter_run_inv: "limiter_run n w hist t l \<Longrightarrow> limiter_inv n w hist t l"
proof (induction rule: limiter_run.induct)
  case (run_start t0)
  then show ?case by (auto simp: limiter_inv_def times_of_def dict_get_def)
next
  case (run_call hist t l now key ok left l')
  then show ?case by (blast intro: limiter_inv_step)
qed

lemma allowed_iff:
  assumes "limiter_run n w hist t l" "t \<le> now" "is_allowed key now l = ((ok, left), l')"
  shows "(ok \<longleftrightarrow> length (in_last w now (hist key)) < n) \<and>
    (ok \<longrightarrow> left = n - Suc (length (in_last w now (hist key))))"
proof -
  have inv: "limiter_inv n w hist t l" using assms(1) by (rule limiter_run_inv)
  then have "lm_limit l = n" "lm_window l = w" by (simp_all add: limiter_inv_def)
  with assms(3) evicted_is_recent [OF inv assms(2), of key] show ?thesis
    by (auto simp: is_allowed_def Let_def split: if_splits)
qed

lemma window_count:
  assumes "limiter_run n w hist t l"
  shows "length (filter (\<lambda>x. start \<le> x \<and> x \<le> start + w) (hist k)) \<le> n"
  using assms
proof (induction arbitrary: k rule: limiter_run.induct)
  case (run_call hist t l now key ok left l')
  have "length (filter (\<lambda>x. start \<le> x \<and> x \<le> start + w) (hist key @ [now])) \<le> n" if ok
  proof (cases "start \<le> now \<and> now \<le> start + w")
    case True
    have "filter (\<lambda>x. start \<le> x \<and> x \<le> start + w) (hist key) =
        filter (\<lambda>x. start \<le> x \<and> x \<le> start + w) (in_last w now (hist key))"
      unfolding in_last_def filter_filter using True by (intro filter_cong) auto
    then have "length (filter (\<lambda>x. start \<le> x \<and> x \<le> start + w) (hist key)) \<le> length (in_last w now (hist key))"
      by simp
    moreover have "length (in_last w now (hist key)) < n"
      using allowed_iff [OF run_call.hyps(1,2,3)] that by simp
    ultimately show ?thesis using True by simp
  next
    case False
    then show ?thesis using run_call.IH [of key] by auto
  qed
  then show ?case using run_call.IH [of k] by auto
qed simp

subsection \<open>Properties\<close>

text \<open>
  C19: The limiter is exact: a call is allowed exactly when fewer than \<open>limit\<close> calls of the same key were
  allowed during the last window, and the number it returns is what is left after it. As a
  consequence no interval of the window's length, wherever it starts, holds more than \<open>limit\<close> allowed
  calls of one key, whatever the calls of other keys.
\<close>

theorem rate_limit_exact:
  assumes "limiter_run n w hist t l" "t \<le> now" "is_allowed key now l = ((ok, left), l')"
  shows "(ok \<longleftrightarrow> length (in_last w now (hist key)) < n) \<and>
    (ok \<longrightarrow> left = n - Suc (length (in_last w now (hist key)))) \<and>
    length (filter (\<lambda>x. start \<le> x \<and> x \<le> start + w)
      (if ok then hist key @ [now] else hist key)) \<le> n"
  using allowed_iff [OF assms] window_count [OF run_call [OF assms], of start key]
  by (cases ok) auto

theorem rate_limit_exact_witness:
  "fst (fst (is_allowed [1] 5 \<lparr>lm_limit = 1, lm_window = 10, lm_store = [([1], [3])]\<rparr>)) = False"
proof -
  let ?l0 = "\<lparr>lm_limit = 1, lm_window = 10, lm_store = []\<rparr>"
  let ?l1 = "\<lparr>lm_limit = 1, lm_window = 10, lm_store = [([1], [3])]\<rparr>"
  have "is_allowed [1] 3 ?l0 = ((True, 0), ?l1)" by code_simp
  from run_call [OF run_start [of 1 10 0] _ this] have
    r: "limiter_run 1 10 ((\<lambda>k. [])([1] := [3])) 3 ?l1" by simp
  obtain ok left l' where a: "is_allowed [1] 5 ?l1 = ((ok, left), l')" by (metis surj_pair)
  from rate_limit_exact [OF r _ a, of 0] have "\<not> ok" by (simp add: in_last_def)
  then show ?thesis unfolding a by simp
qed

fun dispatch_all :: "(int \<times> http_request) list \<Rightarrow> rate_limits \<Rightarrow> nat option list" where
  "dispatch_all [] ls = []"
| "dispatch_all ((now, r) # rs) ls =
     (let (res, ls') = rate_dispatch now r ls in res # dispatch_all rs ls')"

definition unseen :: "pystr \<Rightarrow> rate_limits \<Rightarrow> bool" where
  "unseen ip ls \<longleftrightarrow>
     times_of (rl_global ls) ip = [] \<and> times_of (rl_auth ls) ip = [] \<and> times_of (rl_telemetry ls) ip = []"

definition positive_limits :: "rate_limits \<Rightarrow> bool" where
  "positive_limits ls \<longleftrightarrow>
     0 < lm_limit (rl_global ls) \<and> 0 < lm_limit (rl_auth ls) \<and> 0 < lm_limit (rl_telemetry ls)"

lemma is_allowed_unseen: "times_of l key = [] \<Longrightarrow> 0 < lm_limit l \<Longrightarrow> fst (fst (is_allowed key now l))"
  by (simp add: is_allowed_def Let_def evict_def)

lemma dispatch_unseen:
  assumes "unseen (client_key r) ls" "positive_limits ls" "rate_dispatch now r ls = (res, ls')"
  shows "res \<noteq> None \<and> positive_limits ls' \<and> (\<forall>ip. ip \<noteq> client_key r \<longrightarrow> unseen ip ls \<longrightarrow> unseen ip ls')"
proof -
  obtain okG nG lG where G: "is_allowed (client_key r) now (rl_global ls) = ((okG, nG), lG)" by (metis surj_pair)
  obtain okA nA lA where A: "is_allowed (client_key r) now (rl_auth ls) = ((okA, nA), lA)" by (metis surj_pair)
  obtain okT nT lT where T: "is_allowed (client_key r) now (rl_telemetry ls) = ((okT, nT), lT)" by (metis surj_pair)
  have "okG" "okA" "okT"
    using is_allowed_unseen [of "rl_global ls" "client_key r" now]
      is_allowed_unseen [of "rl_auth ls" "client_key r" now]
      is_allowed_unseen [of "rl_telemetry ls" "client_key r" now] assms(1,2) G A T
    by (auto simp: unseen_def positive_limits_def)
  moreover have "lm_limit lG = lm_limit (rl_global ls)" "lm_limit lA = lm_limit (rl_auth ls)"
    "lm_limit lT = lm_limit (rl_telemetry ls)"
    using is_allowed_params(1) G A T by (metis snd_conv)+
  moreover have "times_of lG ip = times_of (rl_global ls) ip" "times_of lA ip = times_of (rl_auth ls) ip"
    "times_of lT ip = times_of (rl_telemetry ls) ip" if "ip \<noteq> client_key r" for ip
    using is_allowed_times [of "client_key r" now _ ip] G A T that by (metis snd_conv)+
  ultimately show ?thesis
    using assms(2,3) G A T
    by (auto simp: rate_dispatch_def Let_def unseen_def positive_limits_def split: limit_class.splits)
qed

lemma client_key_real_ip: "hr_real_ip r = Some ip \<Longrightarrow> ip \<noteq> [] \<Longrightarrow> client_key r = ip"
  by (simp add: client_key_def or_else_def)

text \<open>
  The limit binds only clients that keep their headers: any number of requests, from one peer and
  to any paths (the authentication paths included), is let through when each carries a new value in
  its \<open>X-Real-IP\<close> header, because the header names the key before the peer's address does.
\<close>

theorem rate_limit_header_bypass:
  assumes "positive_limits ls"
    and "map (\<lambda>(now, r). hr_real_ip r) rs = map Some ips" "distinct ips"
    and "\<forall>ip \<in> set ips. ip \<noteq> [] \<and> unseen ip ls"
  shows "None \<notin> set (dispatch_all rs ls)"
  using assms
proof (induction rs arbitrary: ips ls)
  case (Cons nr rs)
  obtain now r where nr: "nr = (now, r)" by (cases nr)
  with Cons.prems(2) obtain ip ips' where ips: "ips = ip # ips'" "hr_real_ip r = Some ip"
    "map (\<lambda>(now, r). hr_real_ip r) rs = map Some ips'" by (cases ips) auto
  then have k: "client_key r = ip" using Cons.prems(4) by (simp add: client_key_real_ip)
  obtain res ls' where d: "rate_dispatch now r ls = (res, ls')" by (cases "rate_dispatch now r ls")
  have "unseen (client_key r) ls" using Cons.prems(4) ips k by simp
  note n = dispatch_unseen [OF this Cons.prems(1) d]
  have "\<forall>ip' \<in> set ips'. ip' \<noteq> [] \<and> unseen ip' ls'"
  proof
    fix ip' assume m: "ip' \<in> set ips'"
    then have "ip' \<noteq> client_key r" using Cons.prems(3) ips k by auto
    then show "ip' \<noteq> [] \<and> unseen ip' ls'" using n m Cons.prems(4) ips by auto
  qed
  then have "None \<notin> set (dispatch_all rs ls')"
    using Cons.IH [of ls' ips'] n ips Cons.prems(3) by simp
  then show ?case using n d nr by auto
qed simp

theorem rate_limit_header_bypass_witness:
  "None \<notin> set (dispatch_all
     [(0, \<lparr>hr_path = lit ''/v1/auth/token'', hr_real_ip = Some [1], hr_forwarded_for = None, hr_peer = [9]\<rparr>),
      (1, \<lparr>hr_path = lit ''/v1/auth/token'', hr_real_ip = Some [2], hr_forwarded_for = None, hr_peer = [9]\<rparr>)]
     (new_rate_limits 1000))"
  by (rule rate_limit_header_bypass [where ips = "[[1], [2]]"])
    (simp_all add: positive_limits_def new_rate_limits_def new_limiter_def unseen_def times_of_def dict_get_def)

end
