(* ===== verification/AuditLog.thy ===== *)
theory AuditLog
  imports PyLib
begin

text \<open>
  The audit log, \<open>server/app/middleware/audit.py\<close> and \<open>server/app/routers/audit.py\<close>: the entry a
  request leaves, the HMAC chain, its verification, the purge, the reset and the restart.

  Times are microseconds since 1970 in UTC (theory \<open>PyLib\<close>). The parameters are \<open>hm\<close>, the hexadecimal HMAC-SHA256 of
  the encoded key and text, and \<open>row_iso\<close>, \<open>isoformat\<close> of the datetime the database driver returns for
  a stored time (the code relies on its being the text that was sealed).
\<close>

subsection \<open>What a request leaves\<close>

record audit_request =
  aq_path :: pystr
  aq_method :: pystr
  aq_query :: pystr
  aq_request_id :: "pystr option"
  aq_api_key :: "pystr option"
  aq_authorization :: "pystr option"
  aq_real_ip :: "pystr option"
  aq_peer :: "pystr option"
  aq_user_agent :: "pystr option"

record audit_entry =
  ae_id :: pystr
  ae_actor :: pystr
  ae_client_ip :: pystr
  ae_method :: pystr
  ae_path :: pystr
  ae_query :: pystr
  ae_status :: int
  ae_elapsed :: real
  ae_user_agent :: pystr

record audit_row = audit_entry +
  ar_time :: int
  ar_prev :: pystr
  ar_chain :: pystr

definition SKIP_PATHS :: "pystr list" where
  "SKIP_PATHS = map lit [''/health'', ''/metrics'', ''/docs'', ''/redoc'', ''/openapi.json'']"

abbreviation header_or :: "pystr option \<Rightarrow> pystr \<Rightarrow> pystr" where
  "header_or h d \<equiv> (case h of None \<Rightarrow> d | Some x \<Rightarrow> x)"

definition audit_actor :: "audit_request \<Rightarrow> pystr" where
  "audit_actor r =
     or_else (header_or (aq_api_key r) [])
       (or_else (take 20 (header_or (aq_authorization r) [])) (lit ''anonymous''))"

text \<open>
  \<open>dispatch\<close> up to the hand-over to the thread pool; \<open>uuid\<close> is the fresh identifier used when the client
  sends none, \<open>status\<close> and \<open>elapsed\<close> come from the response.
\<close>

definition dispatch_entry :: "pystr \<Rightarrow> int \<Rightarrow> real \<Rightarrow> audit_request \<Rightarrow> audit_entry option" where
  "dispatch_entry uuid status elapsed r =
     (if aq_path r \<in> set SKIP_PATHS then None
      else Some \<lparr>ae_id = header_or (aq_request_id r) uuid,
                 ae_actor = take 64 (audit_actor r),
                 ae_client_ip = header_or (aq_real_ip r) (header_or (aq_peer r) []),
                 ae_method = aq_method r,
                 ae_path = take 1024 (aq_path r),
                 ae_query = take 512 (aq_query r),
                 ae_status = status,
                 ae_elapsed = elapsed,
                 ae_user_agent = take 256 (header_or (aq_user_agent r) [])\<rparr>)"

subsection \<open>The chain\<close>

record audit_state =
  as_rows :: "audit_row list"
  as_last :: pystr

definition GENESIS :: pystr where
  "GENESIS = lit ''GENESIS''"

definition seal_text :: "pystr \<Rightarrow> pystr \<Rightarrow> pystr \<Rightarrow> pystr \<Rightarrow> pystr \<Rightarrow> int \<Rightarrow> pystr" where
  "seal_text prev ts actor mth path status =
     prev @ [124] @ ts @ [124] @ actor @ [124] @ mth @ [124] @ path @ [124] @ dec_int status"

definition compute_chain_hash ::
  "(pystr \<Rightarrow> pystr \<Rightarrow> pystr) \<Rightarrow> pystr \<Rightarrow> pystr \<Rightarrow> pystr \<Rightarrow> pystr \<Rightarrow> pystr \<Rightarrow> pystr \<Rightarrow> int \<Rightarrow> pystr" where
  "compute_chain_hash hm secret prev ts actor mth path status =
     hm secret (seal_text prev ts actor mth path status)"

text \<open>
  \<open>_write_sync\<close>: \<open>io\<close> says whether the database accepts the statement; the primary key and the unique
  chain hash are checked by it. Nothing is stored on failure.
\<close>

definition write_sync :: "bool \<Rightarrow> audit_row \<Rightarrow> audit_row list \<Rightarrow> bool \<times> audit_row list" where
  "write_sync io e rows =
     (if io \<and> ae_id e \<notin> ae_id ` set rows \<and> ar_chain e \<notin> ar_chain ` set rows
      then (True, rows @ [e]) else (False, rows))"

definition append_to_chain ::
  "(pystr \<Rightarrow> pystr \<Rightarrow> pystr) \<Rightarrow> pystr \<Rightarrow> int \<Rightarrow> bool \<Rightarrow> audit_entry \<Rightarrow> audit_state \<Rightarrow> audit_state" where
  "append_to_chain hm secret now io partial s =
     (let prev = as_last s;
          chain = compute_chain_hash hm secret prev (iso_utc now) (ae_actor partial)
                    (ae_method partial) (ae_path partial) (ae_status partial);
          entry = audit_entry.extend partial \<lparr>ar_time = now, ar_prev = prev, ar_chain = chain\<rparr>
      in case write_sync io entry (as_rows s) of
           (ok, rows) \<Rightarrow> \<lparr>as_rows = rows, as_last = (if ok then chain else prev)\<rparr>)"

text \<open>
  \<open>_load_last_chain_hash\<close> at start-up: the hash of the newest row, \<open>GENESIS\<close> when the table is empty
  or cannot be read. Among rows of one time the database may take any; the last one stored is
  taken here.
\<close>

definition load_last_chain_hash :: "bool \<Rightarrow> audit_row list \<Rightarrow> pystr" where
  "load_last_chain_hash readable rows =
     (if readable \<and> rows \<noteq> [] then ar_chain (last (sort_key ar_time rows)) else GENESIS)"

definition restart :: "bool \<Rightarrow> audit_state \<Rightarrow> audit_state" where
  "restart readable s = s\<lparr>as_last := load_last_chain_hash readable (as_rows s)\<rparr>"

subsection \<open>The router\<close>

record verify_result =
  vr_ok :: bool
  vr_checked :: nat
  vr_broken :: "pystr option"

definition row_text :: "(int \<Rightarrow> pystr) \<Rightarrow> audit_row \<Rightarrow> pystr" where
  "row_text row_iso r =
     seal_text (ar_prev r) (row_iso (ar_time r)) (ae_actor r) (ae_method r) (ae_path r) (ae_status r)"

text \<open>The loop over the rows: position and identifier of the first broken one.\<close>

fun verify_rows ::
  "(pystr \<Rightarrow> pystr \<Rightarrow> pystr) \<Rightarrow> pystr \<Rightarrow> (int \<Rightarrow> pystr) \<Rightarrow> nat \<Rightarrow> pystr \<Rightarrow> audit_row list \<Rightarrow> (nat \<times> pystr) option"
where
  "verify_rows hm secret row_iso i prev [] = None"
| "verify_rows hm secret row_iso i prev (r # rs) =
     (if ar_chain r \<noteq> hm secret (row_text row_iso r) \<or> ar_prev r \<noteq> prev then Some (i, ae_id r)
      else verify_rows hm secret row_iso (Suc i) (ar_chain r) rs)"

definition verify_chain ::
  "(pystr \<Rightarrow> pystr \<Rightarrow> pystr) \<Rightarrow> pystr \<Rightarrow> (int \<Rightarrow> pystr) \<Rightarrow> audit_row list \<Rightarrow> verify_result" where
  "verify_chain hm secret row_iso rows =
     (case verify_rows hm secret row_iso 0 GENESIS (sort_key ar_time rows) of
        Some (i, rid) \<Rightarrow> \<lparr>vr_ok = False, vr_checked = i + 1, vr_broken = Some rid\<rparr>
      | None \<Rightarrow> \<lparr>vr_ok = True, vr_checked = length rows, vr_broken = None\<rparr>)"

definition list_audit_entries ::
  "nat \<Rightarrow> nat \<Rightarrow> pystr option \<Rightarrow> int option \<Rightarrow> audit_row list \<Rightarrow> audit_row list" where
  "list_audit_entries limit offset actor since rows =
     take limit (drop offset
       (filter (\<lambda>r. (case since of None \<Rightarrow> True | Some t \<Rightarrow> t \<le> ar_time r))
         (filter (\<lambda>r. (case actor of None \<Rightarrow> True | Some a \<Rightarrow> a = [] \<or> ae_actor r = a))
           (rev (sort_key ar_time rows)))))"

definition purge_old_entries :: "int \<Rightarrow> int \<Rightarrow> audit_state \<Rightarrow> audit_state" where
  "purge_old_entries now days s =
     s\<lparr>as_rows := filter (\<lambda>r. \<not> ar_time r < now - days * 86400000000) (as_rows s)\<rparr>"

definition reset_chain :: "bool \<Rightarrow> audit_state \<Rightarrow> nat \<times> audit_state" where
  "reset_chain has_instance s =
     (length (as_rows s), \<lparr>as_rows = [], as_last = (if has_instance then GENESIS else as_last s)\<rparr>)"

subsection \<open>Lemmas\<close>

text \<open>What every appended row satisfies when it is stored.\<close>

definition sealed :: "(pystr \<Rightarrow> pystr \<Rightarrow> pystr) \<Rightarrow> pystr \<Rightarrow> audit_row \<Rightarrow> bool" where
  "sealed hm secret r \<longleftrightarrow> ar_chain r = hm secret (row_text iso_utc r)"

lemma append_cases:
  obtains (same) "append_to_chain hm secret now io e s = s"
  | (added) r where "append_to_chain hm secret now io e s = \<lparr>as_rows = as_rows s @ [r], as_last = ar_chain r\<rparr>"
      "sealed hm secret r" "ar_prev r = as_last s" "ar_time r = now" "ae_id r = ae_id e"
      "ae_id r \<notin> ae_id ` set (as_rows s)" "ar_chain r \<notin> ar_chain ` set (as_rows s)"
proof -
  let ?r = "audit_entry.extend e \<lparr>ar_time = now, ar_prev = as_last s,
      ar_chain = hm secret (seal_text (as_last s) (iso_utc now) (ae_actor e) (ae_method e)
        (ae_path e) (ae_status e))\<rparr>"
  have "append_to_chain hm secret now io e s =
      (case write_sync io ?r (as_rows s) of
         (ok, rows) \<Rightarrow> \<lparr>as_rows = rows, as_last = (if ok then ar_chain ?r else as_last s)\<rparr>)"
    by (simp add: append_to_chain_def Let_def compute_chain_hash_def audit_entry.defs split: prod.split)
  moreover have "sealed hm secret ?r" "ar_prev ?r = as_last s" "ar_time ?r = now" "ae_id ?r = ae_id e"
    by (simp_all add: sealed_def row_text_def audit_entry.defs)
  ultimately show thesis
    using same added [of ?r] unfolding write_sync_def by (auto split: if_splits)
qed

text \<open>The hash a row is linked to, after rows that started at \<open>prev\<close>.\<close>

definition link_after :: "pystr \<Rightarrow> audit_row list \<Rightarrow> pystr" where
  "link_after prev rs = (if rs = [] then prev else ar_chain (last rs))"

lemma link_after_Cons: "link_after prev (r # rs) = link_after (ar_chain r) rs"
  by (simp add: link_after_def)

lemma verify_rows_append:
  "verify_rows hm secret ri i prev (xs @ ys) =
     (case verify_rows hm secret ri i prev xs of
        Some b \<Rightarrow> Some b
      | None \<Rightarrow> verify_rows hm secret ri (i + length xs) (link_after prev xs) ys)"
  by (induction xs arbitrary: i prev) (auto simp: link_after_Cons link_after_def [of _ "[]"] split: option.split)

lemma verify_rows_None_iff_any:
  "verify_rows hm secret ri i prev xs = None \<longleftrightarrow> verify_rows hm secret ri j prev xs = None"
  by (induction xs arbitrary: i j prev) auto

lemma verify_chain_ok:
  "vr_ok (verify_chain hm secret ri rows) \<longleftrightarrow> verify_rows hm secret ri 0 GENESIS (sort_key ar_time rows) = None"
  by (auto simp: verify_chain_def split: option.splits)

lemma sort_key_strict: "sorted_wrt (<) (map ar_time rows) \<Longrightarrow> sort_key ar_time rows = rows"
  by (metis sort_key_id_if_sorted strict_sorted_iff)

subsection \<open>Reachable logs\<close>

text \<open>
  The states of a running server: requests are appended in the order in which their tasks take the
  chain lock, each with a later clock reading than the one before, whether or not the database
  accepts the write; the server may restart and the chain may be reset at any time.
\<close>

inductive audit_reach :: "(pystr \<Rightarrow> pystr \<Rightarrow> pystr) \<Rightarrow> pystr \<Rightarrow> int \<Rightarrow> audit_state \<Rightarrow> bool" for hm secret where
  reach_start: "audit_reach hm secret t \<lparr>as_rows = [], as_last = GENESIS\<rparr>"
| reach_append: "audit_reach hm secret t s \<Longrightarrow> t < now \<Longrightarrow>
    audit_reach hm secret now (append_to_chain hm secret now io e s)"
| reach_restart: "audit_reach hm secret t s \<Longrightarrow> audit_reach hm secret t (restart True s)"
| reach_reset: "audit_reach hm secret t s \<Longrightarrow> audit_reach hm secret t (snd (reset_chain True s))"

definition audit_inv :: "(pystr \<Rightarrow> pystr \<Rightarrow> pystr) \<Rightarrow> pystr \<Rightarrow> int \<Rightarrow> audit_state \<Rightarrow> bool" where
  "audit_inv hm secret t s \<longleftrightarrow>
     sorted_wrt (<) (map ar_time (as_rows s)) \<and> (\<forall>r \<in> set (as_rows s). ar_time r \<le> t) \<and>
     distinct (map ae_id (as_rows s)) \<and> distinct (map ar_chain (as_rows s)) \<and>
     (\<forall>r \<in> set (as_rows s). sealed hm secret r) \<and>
     verify_rows hm secret iso_utc 0 GENESIS (as_rows s) = None \<and>
     as_last s = link_after GENESIS (as_rows s)"

lemma audit_inv_append:
  assumes "audit_inv hm secret t s" "t < now"
  shows "audit_inv hm secret now (append_to_chain hm secret now io e s)"
proof (cases rule: append_cases [of hm secret now io e s])
  case same
  with assms show ?thesis unfolding audit_inv_def by force
next
  case (added r)
  then show ?thesis using assms
    by (auto simp: audit_inv_def sorted_wrt_append verify_rows_append sealed_def link_after_def
        intro: order_trans less_imp_le)
qed

lemma audit_reach_inv: "audit_reach hm secret t s \<Longrightarrow> audit_inv hm secret t s"
proof (induction rule: audit_reach.induct)
  case (reach_start t)
  then show ?case by (simp add: audit_inv_def link_after_def)
next
  case (reach_append t s now io e)
  then show ?case by (blast intro: audit_inv_append)
next
  case (reach_restart t s)
  then have "load_last_chain_hash True (as_rows s) = as_last s"
    by (auto simp: audit_inv_def load_last_chain_hash_def link_after_def sort_key_strict)
  then show ?case using reach_restart by (simp add: restart_def)
next
  case (reach_reset t s)
  then show ?case by (simp add: reset_chain_def audit_inv_def link_after_def)
qed

lemma reach_strict: "audit_reach hm secret t s \<Longrightarrow> sort_key ar_time (as_rows s) = as_rows s"
  by (auto simp: audit_inv_def sort_key_strict dest: audit_reach_inv)

lemma hexdigest_not_genesis: "hexdigest h \<Longrightarrow> h \<noteq> GENESIS"
  by (auto simp: hexdigest_def GENESIS_def lit_def)

lemma no_bar: "h = GENESIS \<or> hexdigest h \<Longrightarrow> 124 \<notin> set h"
  by (auto simp: hexdigest_def GENESIS_def lit_def)

lemma seal_text_prev: "124 \<notin> set (ar_prev r) \<Longrightarrow> before_first 124 (row_text ri r) = ar_prev r"
  by (simp add: row_text_def seal_text_def before_first_simps)

subsection \<open>Properties\<close>


definition audit_example :: audit_request where
  "audit_example = \<lparr>aq_path = lit ''/v1/stats'', aq_method = lit ''GET'', aq_query = [],
     aq_request_id = Some [49], aq_api_key = None, aq_authorization = None, aq_real_ip = None,
     aq_peer = None, aq_user_agent = None\<rparr>"

definition example_entry :: "pystr \<Rightarrow> audit_entry" where
  "example_entry i = \<lparr>ae_id = i, ae_actor = lit ''k'', ae_client_ip = [], ae_method = lit ''GET'',
     ae_path = lit ''/v1/stats'', ae_query = [], ae_status = 200, ae_elapsed = 0, ae_user_agent = []\<rparr>"

definition example_log :: audit_state where
  "example_log =
     append_to_chain toy_hmac [1] 2000000 True (example_entry [50])
       (append_to_chain toy_hmac [1] 1000000 True (example_entry [49]) \<lparr>as_rows = [], as_last = GENESIS\<rparr>)"

lemma example_log_reach: "audit_reach toy_hmac [1] 2000000 example_log"
  unfolding example_log_def by (intro reach_append [of _ _ 1000000] reach_append [of _ _ 0] reach_start) simp_all


lemma link_no_bar:
  assumes "\<And>p. hexdigest (hm secret p)" "verify_rows hm secret ri i GENESIS xs = None"
  shows "124 \<notin> set (link_after GENESIS xs)"
proof (cases xs rule: rev_cases)
  case Nil
  then show ?thesis by (simp add: link_after_def no_bar)
next
  case (snoc ys y)
  with assms(2) have "ar_chain y = hm secret (row_text ri y)"
    by (auto simp: verify_rows_append split: option.splits if_splits)
  with snoc assms(1) show ?thesis by (simp add: link_after_def no_bar)
qed

lemma link_eq_texts:
  assumes hex: "\<And>p. hexdigest (hm secret p)"
    and "verify_rows hm secret ri i GENESIS xs = None" "verify_rows hm secret ri j GENESIS ys = None"
    and "link_after GENESIS xs = link_after GENESIS ys"
  shows "map (row_text ri) xs = map (row_text ri) ys \<or>
    (\<exists>x \<in> set xs. \<exists>y \<in> set ys. row_text ri x \<noteq> row_text ri y \<and>
       hm secret (row_text ri x) = hm secret (row_text ri y))"
  using assms(2-)
proof (induction xs arbitrary: ys rule: rev_induct)
  case Nil
  show ?case
  proof (cases ys rule: rev_cases)
    case (snoc ys' y)
    with Nil have "hm secret (row_text ri y) = GENESIS"
      by (auto simp: verify_rows_append link_after_def split: option.splits if_splits)
    with hex hexdigest_not_genesis show ?thesis by blast
  qed simp
next
  case (snoc x xs)
  have x: "verify_rows hm secret ri i GENESIS xs = None" "ar_prev x = link_after GENESIS xs"
    "ar_chain x = hm secret (row_text ri x)"
    using snoc.prems(1) by (auto simp: verify_rows_append split: option.splits if_splits)
  show ?case
  proof (cases ys rule: rev_cases)
    case Nil
    with snoc.prems x have "hm secret (row_text ri x) = GENESIS" by (simp add: link_after_def)
    with hex hexdigest_not_genesis show ?thesis by blast
  next
    case Y: (snoc ys' y)
    have y: "verify_rows hm secret ri j GENESIS ys' = None" "ar_prev y = link_after GENESIS ys'"
      "ar_chain y = hm secret (row_text ri y)"
      using snoc.prems(2) Y by (auto simp: verify_rows_append split: option.splits if_splits)
    have same: "hm secret (row_text ri x) = hm secret (row_text ri y)"
      using snoc.prems(3) Y x(3) y(3) by (simp add: link_after_def)
    show ?thesis
    proof (cases "row_text ri x = row_text ri y")
      case True
      have "ar_prev x = before_first 124 (row_text ri x)" "ar_prev y = before_first 124 (row_text ri y)"
        using seal_text_prev link_no_bar [OF hex x(1)] link_no_bar [OF hex y(1)] x(2) y(2) by metis+
      with True x(2) y(2) have "link_after GENESIS xs = link_after GENESIS ys'" by metis
      with snoc.IH [OF x(1) y(1)] True Y show ?thesis by auto
    next
      case False
      with same Y show ?thesis by auto
    qed
  qed
qed

text \<open>
  C8: The log is tamper-evident up to its anchor: when two tables both verify and their newest rows
  carry the same chain hash (the value the server resumes from), they have the same sealed texts,
  row by row, unless the two tables themselves exhibit a collision of the HMAC. So nobody can
  rewrite, insert, drop or reorder older entries of a log whose newest hash is known.
\<close>

theorem audit_tamper_evident:
  assumes hex: "\<And>p. hexdigest (hm secret p)"
    and "vr_ok (verify_chain hm secret row_iso rows)" "vr_ok (verify_chain hm secret row_iso rows')"
    and "load_last_chain_hash True rows = load_last_chain_hash True rows'"
  shows "map (row_text row_iso) (sort_key ar_time rows) = map (row_text row_iso) (sort_key ar_time rows') \<or>
    (\<exists>x \<in> set rows. \<exists>y \<in> set rows'. row_text row_iso x \<noteq> row_text row_iso y \<and>
       hm secret (row_text row_iso x) = hm secret (row_text row_iso y))"
proof -
  have "load_last_chain_hash True xs = link_after GENESIS (sort_key ar_time xs)" for xs
    by (auto simp: load_last_chain_hash_def link_after_def dest: arg_cong [where f = length])
  with link_eq_texts [of hm secret row_iso 0 "sort_key ar_time rows" 0 "sort_key ar_time rows'"] assms
  show ?thesis by (simp add: verify_chain_ok)
qed

theorem audit_tamper_evident_witness:
  "map (row_text iso_utc) (sort_key ar_time (as_rows example_log)) = map (row_text iso_utc) (as_rows example_log) \<or>
   (\<exists>x \<in> set (as_rows example_log). \<exists>y \<in> set (rev (as_rows example_log)). row_text iso_utc x \<noteq> row_text iso_utc y \<and>
       toy_hmac [1] (row_text iso_utc x) = toy_hmac [1] (row_text iso_utc y))"
proof -
  have "sort_key ar_time (rev (as_rows example_log)) = as_rows example_log" by code_simp
  moreover have "vr_ok (verify_chain toy_hmac [1] iso_utc (as_rows example_log))"
    "vr_ok (verify_chain toy_hmac [1] iso_utc (rev (as_rows example_log)))"
    "load_last_chain_hash True (as_rows example_log) = load_last_chain_hash True (rev (as_rows example_log))"
    by code_simp+
  ultimately show ?thesis
    using audit_tamper_evident [of toy_hmac "[1]" iso_utc "as_rows example_log" "rev (as_rows example_log)",
        OF toy_hexdigest] by simp
qed

text \<open>
  What the verification cannot see: a rewriting of the table that leaves the time, the hashes and the
  sealed text of every row alone verifies as before, whatever it does to the identifiers, client
  addresses, query strings and user agents, and even if it moves text between actor, method and path
  across the separator; and any number of the newest rows may be deleted from a table that verifies.
\<close>

theorem audit_unsealed_changes:
  assumes "\<And>r. ar_time (f r) = ar_time r" "\<And>r. ar_prev (f r) = ar_prev r" "\<And>r. ar_chain (f r) = ar_chain r"
    and "\<And>r. row_text row_iso (f r) = row_text row_iso r"
  shows "vr_ok (verify_chain hm secret row_iso (map f rows)) = vr_ok (verify_chain hm secret row_iso rows) \<and>
    (vr_ok (verify_chain hm secret row_iso rows) \<longrightarrow>
       vr_ok (verify_chain hm secret row_iso (take k (sort_key ar_time rows))))"
proof -
  have "verify_rows hm secret row_iso i prev (map f xs) = None \<longleftrightarrow> verify_rows hm secret row_iso i prev xs = None" for i prev xs
    by (induction xs arbitrary: i prev) (simp_all add: assms)
  moreover have "sort_key ar_time (map f rows) = map f (sort_key ar_time rows)"
    by (rule sort_key_map) (rule assms(1))
  moreover have "sort_key ar_time (take k (sort_key ar_time rows)) = take k (sort_key ar_time rows)"
    by (intro sort_key_id_if_sorted) (simp add: take_map [symmetric] sorted_wrt_take)
  moreover have "verify_rows hm secret row_iso 0 GENESIS (take k xs) = None"
    if "verify_rows hm secret row_iso 0 GENESIS xs = None" for xs
    using that verify_rows_append [of hm secret row_iso 0 GENESIS "take k xs" "drop k xs"]
    by (simp split: option.splits)
  ultimately show ?thesis by (simp add: verify_chain_ok)
qed

text \<open>The example hides who asked and from where: \<open>k|GET\<close>, \<open>POST\<close>, \<open>/x\<close> becomes \<open>k\<close>, \<open>GET\<close>, \<open>POST|/x\<close>.\<close>

definition forge :: "audit_row \<Rightarrow> audit_row" where
  "forge r =
     (if contains [124] (ae_actor r)
      then r\<lparr>ae_client_ip := lit ''10.0.0.1'', ae_actor := before_first 124 (ae_actor r),
             ae_method := after_first 124 (ae_actor r), ae_path := ae_method r @ [124] @ ae_path r\<rparr>
      else r)"

lemma before_after: "d \<in> set s \<Longrightarrow> before_first d s @ d # after_first d s = s"
  unfolding before_first_def after_first_def by (induction s) auto

lemma forge_keeps:
  "ar_time (forge r) = ar_time r" "ar_prev (forge r) = ar_prev r" "ar_chain (forge r) = ar_chain r"
  "row_text row_iso (forge r) = row_text row_iso r"
proof -
  have "124 \<in> set (ae_actor r)" if "contains [124] (ae_actor r)"
    using that by (auto simp: contains_iff)
  then show "row_text row_iso (forge r) = row_text row_iso r"
    using before_after [of 124 "ae_actor r"]
    by (auto simp: forge_def row_text_def seal_text_def)
qed (simp_all add: forge_def)

definition forged_row :: audit_row where
  "forged_row =
     (let p = seal_text GENESIS (iso_utc 0) (lit ''k|GET'') (lit ''POST'') (lit ''/x'') 403
      in \<lparr>ae_id = [49], ae_actor = lit ''k|GET'', ae_client_ip = lit ''6.6.6.6'', ae_method = lit ''POST'',
          ae_path = lit ''/x'', ae_query = [], ae_status = 403, ae_elapsed = 0, ae_user_agent = [],
          ar_time = 0, ar_prev = GENESIS, ar_chain = toy_hmac [1] p\<rparr>)"

theorem audit_unsealed_changes_witness:
  "vr_ok (verify_chain toy_hmac [1] iso_utc [forge forged_row]) \<and>
   ae_actor (forge forged_row) = lit ''k'' \<and> ae_client_ip (forge forged_row) = lit ''10.0.0.1''"
proof -
  have "vr_ok (verify_chain toy_hmac [1] iso_utc [forged_row])" by code_simp
  moreover have "ae_actor (forge forged_row) = lit ''k''" "ae_client_ip (forge forged_row) = lit ''10.0.0.1''"
    by code_simp+
  ultimately show ?thesis
    using audit_unsealed_changes [OF forge_keeps, of toy_hmac "[1]" iso_utc "[forged_row]"] by simp
qed

subsection \<open>Appending after a purge, repeated identifiers, a clock that steps back\<close>

fun append_all ::
  "(pystr \<Rightarrow> pystr \<Rightarrow> pystr) \<Rightarrow> pystr \<Rightarrow> (int \<times> bool \<times> audit_entry) list \<Rightarrow> audit_state \<Rightarrow> audit_state" where
  "append_all hm secret [] s = s"
| "append_all hm secret ((now, io, e) # es) s = append_all hm secret es (append_to_chain hm secret now io e s)"

definition cut_off :: "int \<Rightarrow> audit_state \<Rightarrow> bool" where
  "cut_off t s \<longleftrightarrow>
     sorted_wrt (<) (map ar_time (as_rows s)) \<and> (\<forall>r \<in> set (as_rows s). ar_time r \<le> t) \<and>
     (if as_rows s = [] then as_last s else ar_prev (hd (as_rows s))) \<noteq> GENESIS"

lemma cut_off_append:
  assumes "cut_off t s" "t < now"
  shows "cut_off now (append_to_chain hm secret now io e s)"
proof (cases rule: append_cases [of hm secret now io e s])
  case same
  with assms show ?thesis unfolding cut_off_def by force
next
  case (added r)
  with assms show ?thesis by (auto simp: cut_off_def sorted_wrt_append hd_append split: if_splits)
qed

lemma cut_off_append_all:
  "cut_off t s \<Longrightarrow> sorted_wrt (<) (t # map fst es) \<Longrightarrow> \<exists>t'. cut_off t' (append_all hm secret es s)"
proof (induction es arbitrary: t s)
  case (Cons x es)
  obtain now io e where x: "x = (now, io, e)" by (metis surj_pair)
  have "cut_off now (append_to_chain hm secret now io e s)" using Cons.prems x by (intro cut_off_append) auto
  then show ?case using Cons.IH Cons.prems(2) x by simp
qed auto

lemma cut_off_purge:
  assumes "audit_reach hm secret t s" "\<And>p. hexdigest (hm secret p)"
    and "r \<in> set (as_rows s)" "ar_time r < now - days * 86400000000"
  shows "cut_off t (purge_old_entries now days s)"
proof -
  have inv: "audit_inv hm secret t s" using assms(1) by (rule audit_reach_inv)
  let ?c = "now - days * 86400000000" and ?rows = "as_rows s"
  define A where "A = takeWhile (\<lambda>r. ar_time r < ?c) ?rows"
  define B where "B = dropWhile (\<lambda>r. ar_time r < ?c) ?rows"
  have AB: "?rows = A @ B" by (simp add: A_def B_def)
  have sorted: "sorted (map ar_time ?rows)" using inv strict_sorted_imp_sorted by (auto simp: audit_inv_def)
  have B: "as_rows (purge_old_entries now days s) = B"
    using filter_ge_dropWhile [OF sorted, of ?c] by (simp add: purge_old_entries_def B_def not_less)
  have "hd ?rows \<in> set ?rows" "ar_time (hd ?rows) \<le> ar_time r"
    using assms(3) sorted by (cases ?rows; auto)+
  with assms(3,4) have A: "A \<noteq> []" unfolding A_def by (cases ?rows) auto
  have link: "link_after GENESIS xs \<noteq> GENESIS" if "xs \<noteq> []" "verify_rows hm secret iso_utc 0 GENESIS xs = None" for xs
  proof -
    have "ar_chain (last xs) = hm secret (row_text iso_utc (last xs))"
      using that by (cases xs rule: rev_cases) (auto simp: verify_rows_append split: option.splits if_splits)
    then show ?thesis using that(1) assms(2) hexdigest_not_genesis by (auto simp: link_after_def)
  qed
  have v: "verify_rows hm secret iso_utc 0 GENESIS (A @ B) = None" using inv AB by (simp add: audit_inv_def)
  have "(if B = [] then as_last s else ar_prev (hd B)) \<noteq> GENESIS"
  proof (cases B)
    case Nil
    then show ?thesis using link [of "A @ B"] v A inv AB by (simp add: audit_inv_def)
  next
    case (Cons b B')
    then show ?thesis using link [OF A] v by (auto simp: verify_rows_append split: option.splits if_splits)
  qed
  then show ?thesis using inv B
    by (auto simp: cut_off_def audit_inv_def purge_old_entries_def sorted_wrt_filter AB sorted_wrt_append)
qed

text \<open>
  Retention breaks the log: once a purge has removed at least one entry of a healthy log, the
  verification reports a break at the first entry that is left (or, when none was left, at the first
  one written later), and goes on doing so whatever is appended.
\<close>

theorem audit_purge_breaks:
  assumes "audit_reach hm secret t s" "\<And>p. hexdigest (hm secret p)"
    and "r \<in> set (as_rows s)" "ar_time r < now - days * 86400000000"
    and "sorted_wrt (<) (t # map fst es)"
    and "s' = append_all hm secret es (purge_old_entries now days s)" "as_rows s' \<noteq> []"
  shows "verify_chain hm secret row_iso (as_rows s') =
    \<lparr>vr_ok = False, vr_checked = 1, vr_broken = Some (ae_id (hd (as_rows s')))\<rparr>"
proof -
  obtain t' where "cut_off t' s'"
    using cut_off_append_all [OF cut_off_purge [OF assms(1-4)] assms(5)] assms(6) by blast
  then have "sort_key ar_time (as_rows s') = as_rows s'" "ar_prev (hd (as_rows s')) \<noteq> GENESIS"
    using assms(7) by (simp_all add: cut_off_def sort_key_strict)
  with assms(7) show ?thesis by (cases "as_rows s'") (simp_all add: verify_chain_def)
qed

theorem audit_purge_breaks_witness:
  "verify_chain toy_hmac [1] iso_utc
     (as_rows (append_all toy_hmac [1] [(3000000, True, example_entry [51])]
        (purge_old_entries (180 * 86400000000 + 1500000) 180 example_log))) =
   \<lparr>vr_ok = False, vr_checked = 1, vr_broken = Some [50]\<rparr>"
proof -
  let ?s = "append_all toy_hmac [1] [(3000000, True, example_entry [51])]
        (purge_old_entries (180 * 86400000000 + 1500000) 180 example_log)"
  have h: "as_rows ?s \<noteq> [] \<and> ae_id (hd (as_rows ?s)) = [50]" by code_simp
  have "as_rows example_log \<noteq> [] \<and> ar_time (hd (as_rows example_log)) = 1000000" by code_simp
  then have "hd (as_rows example_log) \<in> set (as_rows example_log)"
    "ar_time (hd (as_rows example_log)) < 180 * 86400000000 + 1500000 - 180 * 86400000000" by simp_all
  from audit_purge_breaks [OF example_log_reach toy_hexdigest this, of "[(3000000, True, example_entry [51])]"] h
  show ?thesis by simp
qed

text \<open>One request through the middleware, with the response that \<open>call_next\<close> gave.\<close>

definition audit_step ::
  "(pystr \<Rightarrow> pystr \<Rightarrow> pystr) \<Rightarrow> pystr \<Rightarrow> int \<Rightarrow> bool \<Rightarrow> pystr \<Rightarrow> int \<Rightarrow> real \<Rightarrow> audit_request \<Rightarrow> audit_state \<Rightarrow> audit_state"
where
  "audit_step hm secret now io uuid status elapsed r s =
     (case dispatch_entry uuid status elapsed r of
        None \<Rightarrow> s
      | Some e \<Rightarrow> append_to_chain hm secret now io e s)"

fun audit_all ::
  "(pystr \<Rightarrow> pystr \<Rightarrow> pystr) \<Rightarrow> pystr \<Rightarrow> (int \<times> bool \<times> pystr \<times> int \<times> real \<times> audit_request) list \<Rightarrow> audit_state \<Rightarrow> audit_state"
where
  "audit_all hm secret [] s = s"
| "audit_all hm secret ((now, io, uuid, status, elapsed, r) # qs) s =
     audit_all hm secret qs (audit_step hm secret now io uuid status elapsed r s)"

lemma audit_step_repeated:
  assumes "aq_request_id r = Some i"
  shows "audit_step hm secret now io uuid status elapsed r s = s \<or>
    i \<notin> ae_id ` set (as_rows s) \<and>
    (\<exists>x. as_rows (audit_step hm secret now io uuid status elapsed r s) = as_rows s @ [x] \<and> ae_id x = i)"
proof (cases "dispatch_entry uuid status elapsed r")
  case None
  then show ?thesis by (simp add: audit_step_def)
next
  case (Some e)
  then have "ae_id e = i" using assms by (auto simp: dispatch_entry_def split: if_splits)
  with Some show ?thesis
    by (cases rule: append_cases [of hm secret now io e s]) (auto simp: audit_step_def)
qed

lemma audit_all_seen:
  "i \<in> ae_id ` set (as_rows s) \<Longrightarrow> \<forall>(now, io, uuid, status, elapsed, r) \<in> set qs. aq_request_id r = Some i \<Longrightarrow>
   audit_all hm secret qs s = s"
proof (induction qs)
  case (Cons q qs)
  obtain now io uuid status elapsed r where q: "q = (now, io, uuid, status, elapsed, r)" by (metis surj_pair)
  then have "audit_step hm secret now io uuid status elapsed r s = s"
    using audit_step_repeated [of r i hm secret now io uuid status elapsed s] Cons.prems by auto
  with Cons q show ?case by simp
qed simp

text \<open>
  A client can keep its requests out of the log: of any number of requests that carry the same
  \<open>X-Request-ID\<close>, to whatever paths and with whatever outcome, at most one is logged; when an entry of
  the log already has that identifier, none is, and the log (which still verifies) does not change.
\<close>

theorem audit_repeated_id_unlogged:
  assumes "\<forall>(now, io, uuid, status, elapsed, r) \<in> set qs. aq_request_id r = Some i"
  shows "length (as_rows (audit_all hm secret qs s)) \<le> Suc (length (as_rows s)) \<and>
    (i \<in> ae_id ` set (as_rows s) \<longrightarrow> audit_all hm secret qs s = s)"
proof -
  have "length (as_rows (audit_all hm secret qs s)) \<le> Suc (length (as_rows s))"
    using assms
  proof (induction qs arbitrary: s)
    case (Cons q qs)
    obtain now io uuid status elapsed r where q: "q = (now, io, uuid, status, elapsed, r)" by (metis surj_pair)
    let ?s = "audit_step hm secret now io uuid status elapsed r s"
    from audit_step_repeated [of r i hm secret now io uuid status elapsed s] Cons.prems q
    have "?s = s \<or> (\<exists>x. as_rows ?s = as_rows s @ [x] \<and> ae_id x = i)" by auto
    then show ?case
    proof
      assume "?s = s"
      with Cons q show ?thesis by simp
    next
      assume x: "\<exists>x. as_rows ?s = as_rows s @ [x] \<and> ae_id x = i"
      then have "audit_all hm secret qs ?s = ?s" using Cons.prems by (intro audit_all_seen) auto
      with x q show ?thesis by auto
    qed
  qed simp
  with audit_all_seen assms show ?thesis by blast
qed

theorem audit_repeated_id_unlogged_witness:
  "audit_all toy_hmac [1] [(5000000, True, [9], 200, 0, audit_example), (6000000, True, [8], 403, 0, audit_example)]
     example_log = example_log"
proof -
  have "[49] \<in> ae_id ` set (as_rows example_log)" by code_simp
  with audit_repeated_id_unlogged [of "[(5000000, True, [9], 200, 0, audit_example), (6000000, True, [8], 403, 0, audit_example)]" "[49]"]
  show ?thesis by (simp add: audit_example_def)
qed

text \<open>
  The clock must not step back: if an entry is stored with a clock reading earlier than the newest
  entry's (the wall clock is used, not the monotonic one), the log no longer verifies although nobody
  touched it.
\<close>

theorem audit_clock_step_breaks:
  assumes "audit_reach hm secret t s" "\<And>p. hexdigest (hm secret p)"
    and "as_rows s \<noteq> []" "now < ar_time (last (as_rows s))"
    and "s' = append_to_chain hm secret now io e s" "as_rows s' \<noteq> as_rows s"
  shows "\<not> vr_ok (verify_chain hm secret row_iso (as_rows s'))"
proof
  assume ok: "vr_ok (verify_chain hm secret row_iso (as_rows s'))"
  have inv: "audit_inv hm secret t s" using assms(1) by (rule audit_reach_inv)
  let ?l = "last (as_rows s)"
  obtain r where r: "as_rows s' = as_rows s @ [r]" "ar_prev r = as_last s" "ar_time r = now"
    "ar_chain r \<notin> ar_chain ` set (as_rows s)"
    using assms(5,6) append_cases [of hm secret now io e s] by (metis audit_state.select_convs(1))
  let ?L = "sort_key ar_time (as_rows s')"
  have "r \<in> set ?L" using r(1) by simp
  then obtain A B where AB: "?L = A @ r # B" by (metis split_list)
  have v: "verify_rows hm secret row_iso 0 GENESIS (A @ r # B) = None" using ok AB by (simp add: verify_chain_ok)
  then have link: "as_last s = link_after GENESIS A" using r(2)
    by (auto simp: verify_rows_append split: option.splits if_splits)
  have last: "as_last s = ar_chain ?l" "sealed hm secret ?l" using inv assms(3) by (auto simp: audit_inv_def link_after_def)
  then have "as_last s \<noteq> GENESIS" using assms(2) hexdigest_not_genesis by (auto simp: sealed_def)
  with link have A: "A \<noteq> []" "ar_chain (last A) = ar_chain ?l" using last by (auto simp: link_after_def)
  have "set ?L = insert r (set (as_rows s))" using r(1) by simp
  then have "last A \<in> insert r (set (as_rows s))" using AB A(1) by (metis UnI1 last_in_set set_append)
  moreover have "last A \<noteq> r" using A(2) r(4) assms(3) by auto
  ultimately have "last A = ?l"
    using A(2) inv assms(3) unfolding audit_inv_def by (metis insertE inj_onD distinct_map last_in_set)
  moreover have "sorted (map ar_time (A @ r # B))" using AB by (metis sorted_sort_key)
  then have "ar_time (last A) \<le> ar_time r" using A(1) by (auto simp: sorted_append)
  ultimately show False using assms(4) r(3) by simp
qed

theorem audit_clock_step_breaks_witness:
  "\<not> vr_ok (verify_chain toy_hmac [1] iso_utc
     (as_rows (append_to_chain toy_hmac [1] 1999999 True (example_entry [51]) example_log)))"
proof (rule audit_clock_step_breaks [OF example_log_reach toy_hexdigest])
  show "as_rows example_log \<noteq> []" "1999999 < ar_time (last (as_rows example_log))" by code_simp+
  show "as_rows (append_to_chain toy_hmac [1] 1999999 True (example_entry [51]) example_log) \<noteq> as_rows example_log"
    by code_simp
qed (rule refl)

end
