(* ===== verification/Auth.thy ===== *)
theory Auth
  imports PyLib
begin

text \<open>
  Authentication and roles, \<open>server/app/auth.py\<close>, \<open>server/app/routers/auth.py\<close> and the bootstrap key of
  \<open>server/app/main.py\<close>. An HTTP error is its status code on the left of a sum. Times are microseconds,
  the times inside a token seconds, as the JWT library writes them.
\<close>

subsection \<open>Settings, keys, libraries\<close>

type_synonym 'a http = "nat + 'a"

record settings =
  st_environment :: pystr
  st_secret :: pystr
  st_algorithm :: pystr
  st_expire_minutes :: int

definition default_settings :: settings where
  "default_settings = \<lparr>st_environment = lit ''development'',
     st_secret = lit ''CHANGE_ME_IN_PRODUCTION_USE_256_BIT_KEY'',
     st_algorithm = lit ''HS256'', st_expire_minutes = 30\<rparr>"

record claims =
  cl_sub :: "pystr option"
  cl_role :: "pystr option"
  cl_iat :: int
  cl_exp :: int
  cl_iss :: pystr

text \<open>
  What is not under \<open>src/\<close>: the hexadecimal HMAC-SHA256, and \<open>jwt.encode\<close> and \<open>jwt.decode\<close> of python-jose
  (key, algorithm, and for decoding the time in seconds; \<open>None\<close> is a \<open>JWTError\<close>).
\<close>

record auth_lib =
  al_hmac :: "pystr \<Rightarrow> pystr \<Rightarrow> pystr"
  al_encode :: "pystr \<Rightarrow> pystr \<Rightarrow> claims \<Rightarrow> pystr"
  al_decode :: "pystr \<Rightarrow> pystr \<Rightarrow> int \<Rightarrow> pystr \<Rightarrow> claims option"

record pem_files =
  pf_private :: "pystr option"
  pf_public :: "pystr option"

text \<open>
  \<open>_load_or_generate_jwt_keys\<close>: the pair in memory and the files afterwards; \<open>fresh\<close> is the pair that
  would be generated, \<open>writable\<close> whether the directory can be written.
\<close>

definition load_or_generate_jwt_keys ::
  "pystr \<times> pystr \<Rightarrow> bool \<Rightarrow> pem_files \<Rightarrow> (pystr \<times> pystr) \<times> pem_files" where
  "load_or_generate_jwt_keys fresh writable fs =
     (case (pf_private fs, pf_public fs) of
        (Some priv, Some pub) \<Rightarrow> ((priv, pub), fs)
      | _ \<Rightarrow> (fresh, if writable then \<lparr>pf_private = Some (fst fresh), pf_public = Some (snd fresh)\<rparr> else fs))"

definition hash_api_key :: "auth_lib \<Rightarrow> settings \<Rightarrow> pystr \<Rightarrow> pystr" where
  "hash_api_key lib st raw = al_hmac lib (st_secret st) raw"

definition jwt_algorithm :: "settings \<Rightarrow> pystr" where
  "jwt_algorithm st = (if py_upper (st_algorithm st) = lit ''RS256'' then lit ''RS256'' else lit ''HS256'')"

definition create_access_token ::
  "auth_lib \<Rightarrow> settings \<Rightarrow> pystr \<times> pystr \<Rightarrow> int \<Rightarrow> pystr \<Rightarrow> pystr \<Rightarrow> int \<Rightarrow> pystr" where
  "create_access_token lib st pem now subject role minutes =
     (let m = (if minutes = 0 then st_expire_minutes st else minutes);
          alg = jwt_algorithm st;
          signing_key = (if alg = lit ''RS256'' then fst pem else st_secret st)
      in al_encode lib signing_key alg
           \<lparr>cl_sub = Some subject, cl_role = Some role, cl_iat = now div 1000000,
            cl_exp = (now + m * 60000000) div 1000000, cl_iss = lit ''aiss-server''\<rparr>)"

definition decode_access_token ::
  "auth_lib \<Rightarrow> settings \<Rightarrow> pystr \<times> pystr \<Rightarrow> int \<Rightarrow> pystr \<Rightarrow> claims http" where
  "decode_access_token lib st pem now token =
     (let alg = jwt_algorithm st;
          verify_key = (if alg = lit ''RS256'' then snd pem else st_secret st)
      in case al_decode lib verify_key alg (now div 1000000) token of
           Some c \<Rightarrow> Inr c
         | None \<Rightarrow> Inl 401)"

subsection \<open>Credentials\<close>

record credentials =
  cr_api_key :: "pystr option"
  cr_authorization :: "pystr option"

definition extract_bearer :: "pystr option \<Rightarrow> pystr option" where
  "extract_bearer h =
     (case h of
        None \<Rightarrow> None
      | Some s \<Rightarrow>
          if s = [] then None
          else case split_ws s of
                 [kind, token] \<Rightarrow> if py_lower kind = lit ''bearer'' then Some token else None
               | _ \<Rightarrow> None)"

text \<open>\<open>x_api_key or _extract_bearer(authorization)\<close>, where an empty text counts as absent.\<close>

definition presented :: "credentials \<Rightarrow> pystr option" where
  "presented c =
     (case (case cr_api_key c of
              Some k \<Rightarrow> if k = [] then extract_bearer (cr_authorization c) else Some k
            | None \<Rightarrow> extract_bearer (cr_authorization c)) of
        Some raw \<Rightarrow> if raw = [] then None else Some raw
      | None \<Rightarrow> None)"

record api_key_row =
  k_hash :: pystr
  k_description :: pystr
  k_agent_id :: "pystr option"
  k_role :: pystr
  k_active :: bool
  k_expires :: "int option"

definition key_actor :: "pystr \<Rightarrow> api_key_row \<Rightarrow> pystr" where
  "key_actor raw r = or_else (case k_agent_id r of None \<Rightarrow> [] | Some a \<Rightarrow> a) (take 12 raw @ lit ''...'')"

definition lookup_api_key ::
  "auth_lib \<Rightarrow> settings \<Rightarrow> api_key_row list \<Rightarrow> int \<Rightarrow> pystr \<Rightarrow> (pystr \<times> pystr) http" where
  "lookup_api_key lib st rows now raw =
     (if raw = st_secret st then Inr (lit ''bootstrap-admin'', lit ''admin'')
      else case first_match (\<lambda>r. k_hash r = hash_api_key lib st raw \<and> k_active r) rows of
             None \<Rightarrow> Inl 403
           | Some r \<Rightarrow>
               (case k_expires r of
                  Some e \<Rightarrow>
                    if e < now then Inl 403
                    else Inr (key_actor raw r, or_else (k_role r) (lit ''agent''))
                | None \<Rightarrow> Inr (key_actor raw r, or_else (k_role r) (lit ''agent''))))"

definition text_or :: "pystr option \<Rightarrow> pystr \<Rightarrow> pystr" where
  "text_or x d = (case x of None \<Rightarrow> d | Some s \<Rightarrow> s)"

definition verify_api_key ::
  "auth_lib \<Rightarrow> settings \<Rightarrow> pystr \<times> pystr \<Rightarrow> api_key_row list \<Rightarrow> int \<Rightarrow> credentials \<Rightarrow> pystr http" where
  "verify_api_key lib st pem rows now c =
     (case presented c of
        None \<Rightarrow> Inl 401
      | Some raw \<Rightarrow>
          if st_environment st = lit ''development'' then Inr raw
          else if startswith raw (lit ''eyJ'') then
            (case decode_access_token lib st pem now raw of
               Inl e \<Rightarrow> Inl e
             | Inr p \<Rightarrow> Inr (text_or (cl_sub p) (lit ''unknown'')))
          else case lookup_api_key lib st rows now raw of
                 Inl e \<Rightarrow> Inl e
               | Inr (actor, role) \<Rightarrow> Inr actor)"

definition verify_api_key_with_role ::
  "auth_lib \<Rightarrow> settings \<Rightarrow> pystr \<times> pystr \<Rightarrow> api_key_row list \<Rightarrow> int \<Rightarrow> credentials \<Rightarrow> (pystr \<times> pystr) http" where
  "verify_api_key_with_role lib st pem rows now c =
     (case presented c of
        None \<Rightarrow> Inl 401
      | Some raw \<Rightarrow>
          if st_environment st = lit ''development'' then Inr (raw, lit ''admin'')
          else if startswith raw (lit ''eyJ'') then
            (case decode_access_token lib st pem now raw of
               Inl e \<Rightarrow> Inl e
             | Inr p \<Rightarrow> Inr (text_or (cl_sub p) (lit ''unknown''), text_or (cl_role p) (lit ''viewer'')))
          else lookup_api_key lib st rows now raw)"

definition require_role ::
  "auth_lib \<Rightarrow> settings \<Rightarrow> pystr \<times> pystr \<Rightarrow> api_key_row list \<Rightarrow> int \<Rightarrow> pystr list \<Rightarrow> credentials \<Rightarrow> pystr http" where
  "require_role lib st pem rows now allowed c =
     (case verify_api_key_with_role lib st pem rows now c of
        Inl e \<Rightarrow> Inl e
      | Inr (actor, role) \<Rightarrow> if role \<notin> set allowed then Inl 403 else Inr actor)"

subsection \<open>The router and the bootstrap key\<close>

record key_request =
  kr_description :: "pystr option"
  kr_agent_id :: "pystr option"
  kr_role :: "pystr option"
  kr_days :: "int option"

definition requested_role :: "key_request \<Rightarrow> pystr" where
  "requested_role q = text_or (kr_role q) (lit ''agent'')"

text \<open>The constraints of \<open>APIKeyCreateRequestV2\<close>; a violation is answered with 422.\<close>

definition valid_key_request :: "key_request \<Rightarrow> bool" where
  "valid_key_request q \<longleftrightarrow>
     requested_role q \<in> set (map lit [''admin'', ''viewer'', ''agent'']) \<and>
     (case kr_days q of None \<Rightarrow> True | Some d \<Rightarrow> 1 \<le> d \<and> d \<le> 3650)"

definition key_expiry :: "int \<Rightarrow> key_request \<Rightarrow> int option" where
  "key_expiry now q =
     (case kr_days q of
        None \<Rightarrow> None
      | Some d \<Rightarrow> if d > 0 then Some (now + d * 86400000000) else None)"

text \<open>
  \<open>create_api_key\<close>: the dependency is checked before the request; \<open>raw\<close> is the key \<open>secrets\<close> produced.
  The answer is the key, the description and the expiry as text; a duplicate hash makes the commit
  raise (500).
\<close>

definition create_api_key ::
  "auth_lib \<Rightarrow> settings \<Rightarrow> pystr \<times> pystr \<Rightarrow> int \<Rightarrow> pystr \<Rightarrow> key_request \<Rightarrow> credentials \<Rightarrow> api_key_row list \<Rightarrow>
   (pystr \<times> pystr \<times> pystr option) http \<times> api_key_row list" where
  "create_api_key lib st pem now raw q c rows =
     (case require_role lib st pem rows now [lit ''admin''] c of
        Inl e \<Rightarrow> (Inl e, rows)
      | Inr actor \<Rightarrow>
          if \<not> valid_key_request q then (Inl 422, rows)
          else if hash_api_key lib st raw \<in> k_hash ` set rows then (Inl 500, rows)
          else (Inr (raw, text_or (kr_description q) [], map_option iso_utc (key_expiry now q)),
                rows @ [\<lparr>k_hash = hash_api_key lib st raw, k_description = text_or (kr_description q) [],
                         k_agent_id = kr_agent_id q, k_role = requested_role q, k_active = True,
                         k_expires = key_expiry now q\<rparr>]))"

definition exchange_for_token ::
  "auth_lib \<Rightarrow> settings \<Rightarrow> pystr \<times> pystr \<Rightarrow> api_key_row list \<Rightarrow> int \<Rightarrow> pystr \<Rightarrow> (pystr \<times> int \<times> pystr) http" where
  "exchange_for_token lib st pem rows now key =
     (case (if st_environment st = lit ''development''
            then Inr (or_else (take 20 key) (lit ''dev-actor''), lit ''admin'')
            else case lookup_api_key lib st rows now key of Inl e \<Rightarrow> Inl 401 | Inr ar \<Rightarrow> Inr ar) of
        Inl e \<Rightarrow> Inl e
      | Inr (actor, role) \<Rightarrow>
          Inr (create_access_token lib st pem now actor role (st_expire_minutes st),
               st_expire_minutes st * 60, role))"

definition whoami ::
  "auth_lib \<Rightarrow> settings \<Rightarrow> pystr \<times> pystr \<Rightarrow> api_key_row list \<Rightarrow> int \<Rightarrow> credentials \<Rightarrow> pystr http" where
  "whoami lib st pem rows now c = verify_api_key lib st pem rows now c"

definition seed_bootstrap_key :: "auth_lib \<Rightarrow> settings \<Rightarrow> api_key_row list \<Rightarrow> api_key_row list result" where
  "seed_bootstrap_key lib st rows =
     (if st_environment st = lit ''development'' then Inr rows
      else if first_match (\<lambda>r. k_role r = lit ''admin'' \<and> k_active r) rows \<noteq> None then Inr rows
      else if hash_api_key lib st (st_secret st) \<in> k_hash ` set rows then Inl IntegrityError
      else Inr (rows @ [\<lparr>k_hash = hash_api_key lib st (st_secret st),
                    k_description = lit ''Bootstrap admin key (value = AISS_SECRET_KEY env var)'',
                    k_agent_id = Some (lit ''bootstrap-admin''), k_role = lit ''admin'',
                    k_active = True, k_expires = None\<rparr>]))"

subsection \<open>Lemmas\<close>

definition unexpired :: "int \<Rightarrow> api_key_row \<Rightarrow> bool" where
  "unexpired now r \<longleftrightarrow> (case k_expires r of None \<Rightarrow> True | Some e \<Rightarrow> now \<le> e)"

definition role_of_key :: "api_key_row \<Rightarrow> pystr" where
  "role_of_key r = or_else (k_role r) (lit ''agent'')"

text \<open>The row a key stands for; hashes are unique in the table.\<close>

definition key_row :: "auth_lib \<Rightarrow> settings \<Rightarrow> api_key_row list \<Rightarrow> pystr \<Rightarrow> api_key_row \<Rightarrow> bool" where
  "key_row lib st rows raw r \<longleftrightarrow> r \<in> set rows \<and> k_hash r = hash_api_key lib st raw \<and> k_active r"

lemma first_match_unique:
  assumes "r \<in> set rs" "P r" "\<And>x. x \<in> set rs \<Longrightarrow> P x \<Longrightarrow> x = r"
  shows "first_match P rs = Some r"
  using first_match_exists [of r rs P] first_match_SomeD [of P rs] assms by metis

lemma key_row_first:
  assumes "distinct (map k_hash rows)" "key_row lib st rows raw r"
  shows "first_match (\<lambda>r. k_hash r = hash_api_key lib st raw \<and> k_active r) rows = Some r"
proof (rule first_match_unique)
  show "r \<in> set rows" "k_hash r = hash_api_key lib st raw \<and> k_active r"
    using assms(2) by (simp_all add: key_row_def)
  fix x assume "x \<in> set rows" "k_hash x = hash_api_key lib st raw \<and> k_active x"
  moreover have "inj_on k_hash (set rows)" using assms(1) by (simp add: distinct_map)
  ultimately show "x = r" using assms(2) unfolding key_row_def by (metis inj_onD)
qed

lemma lookup_exact:
  assumes "distinct (map k_hash rows)" "raw \<noteq> st_secret st"
  shows "lookup_api_key lib st rows now raw = Inr (actor, role) \<longleftrightarrow>
    (\<exists>r. key_row lib st rows raw r \<and> unexpired now r \<and> role = role_of_key r \<and> actor = key_actor raw r)"
proof (cases "\<exists>r. key_row lib st rows raw r")
  case True
  then obtain r where r: "key_row lib st rows raw r" by blast
  have unique: "x = r" if "key_row lib st rows raw x" for x
    using key_row_first [OF assms(1) r] key_row_first [OF assms(1) that] by simp
  have "lookup_api_key lib st rows now raw =
      (if unexpired now r then Inr (key_actor raw r, role_of_key r) else Inl 403)"
    using key_row_first [OF assms(1) r] assms(2)
    by (simp add: lookup_api_key_def unexpired_def role_of_key_def split: option.split)
  then have "lookup_api_key lib st rows now raw = Inr (actor, role) \<longleftrightarrow>
      unexpired now r \<and> role = role_of_key r \<and> actor = key_actor raw r" by auto
  then show ?thesis using r unique by metis
next
  case False
  then have "first_match (\<lambda>r. k_hash r = hash_api_key lib st raw \<and> k_active r) rows = None"
    by (auto simp: key_row_def scan_simps)
  with False assms(2) show ?thesis by (simp add: lookup_api_key_def)
qed

lemma lookup_error: "lookup_api_key lib st rows now raw = Inl e \<Longrightarrow> e = 403"
  by (auto simp: lookup_api_key_def split: option.splits if_splits)

text \<open>Who a credential speaks for, in the production environment.\<close>

definition grants ::
  "auth_lib \<Rightarrow> settings \<Rightarrow> pystr \<times> pystr \<Rightarrow> api_key_row list \<Rightarrow> int \<Rightarrow> pystr \<Rightarrow> pystr \<Rightarrow> pystr \<Rightarrow> bool" where
  "grants lib st pem rows now raw actor role \<longleftrightarrow>
     (if startswith raw (lit ''eyJ'') then
        (\<exists>c. decode_access_token lib st pem now raw = Inr c \<and>
             actor = text_or (cl_sub c) (lit ''unknown'') \<and> role = text_or (cl_role c) (lit ''viewer''))
      else if raw = st_secret st then actor = lit ''bootstrap-admin'' \<and> role = lit ''admin''
      else (\<exists>r. key_row lib st rows raw r \<and> unexpired now r \<and>
                role = role_of_key r \<and> actor = key_actor raw r))"

lemma with_role_exact:
  assumes "st_environment st \<noteq> lit ''development''" "distinct (map k_hash rows)"
  shows "verify_api_key_with_role lib st pem rows now c = Inr (actor, role) \<longleftrightarrow>
    (\<exists>raw. presented c = Some raw \<and> grants lib st pem rows now raw actor role)"
proof (cases "presented c")
  case None
  then show ?thesis by (simp add: verify_api_key_with_role_def)
next
  case (Some raw)
  show ?thesis
  proof (cases "startswith raw (lit ''eyJ'')")
    case True
    with Some assms(1) show ?thesis
      by (auto simp: verify_api_key_with_role_def grants_def split: sum.splits)
  next
    case False
    have "lookup_api_key lib st rows now raw = Inr (actor, role) \<longleftrightarrow> grants lib st pem rows now raw actor role"
    proof (cases "raw = st_secret st")
      case True
      with False show ?thesis by (auto simp: lookup_api_key_def grants_def)
    next
      case neq: False
      show ?thesis unfolding lookup_exact [OF assms(2) neq] using False neq by (simp add: grants_def)
    qed
    with Some False assms(1) show ?thesis by (simp add: verify_api_key_with_role_def)
  qed
qed

text \<open>The two verification functions agree on the actor.\<close>

lemma verify_api_key_actor:
  assumes "st_environment st \<noteq> lit ''development''"
  shows "verify_api_key lib st pem rows now c = map_sum (\<lambda>e. e) fst (verify_api_key_with_role lib st pem rows now c)"
  using assms
  by (simp add: verify_api_key_def verify_api_key_with_role_def split: option.split sum.split prod.split)

subsection \<open>Properties\<close>

text \<open>
  C12: Access control is exact in production: a request passes \<open>require_role\<close> with some actor exactly when
  the credential it presents is a token that decodes and carries an allowed role, or the server
  secret while the admin role is allowed, or a key whose hash belongs to an active, unexpired row
  with an allowed role; the actor handed on is the one of that token or row. Every other request
  is rejected, with 401 or 403.
\<close>

theorem auth_rbac_exact:
  assumes "st_environment st \<noteq> lit ''development''" "distinct (map k_hash rows)"
  shows "(require_role lib st pem rows now allowed c = Inr actor \<longleftrightarrow>
      (\<exists>raw role. presented c = Some raw \<and> grants lib st pem rows now raw actor role \<and> role \<in> set allowed)) \<and>
    (case require_role lib st pem rows now allowed c of Inl e \<Rightarrow> e = 401 \<or> e = 403 | Inr a \<Rightarrow> True)"
proof
  show "require_role lib st pem rows now allowed c = Inr actor \<longleftrightarrow>
      (\<exists>raw role. presented c = Some raw \<and> grants lib st pem rows now raw actor role \<and> role \<in> set allowed)"
  proof (cases "verify_api_key_with_role lib st pem rows now c")
    case (Inl e)
    then show ?thesis using with_role_exact [OF assms, of lib pem now c]
      by (auto simp: require_role_def)
  next
    case (Inr ar)
    obtain a r where ar: "ar = (a, r)" by (cases ar)
    have "verify_api_key_with_role lib st pem rows now c = Inr (x, y) \<longleftrightarrow> x = a \<and> y = r" for x y
      using Inr ar by auto
    then have "(\<exists>raw. presented c = Some raw \<and> grants lib st pem rows now raw x y) \<longleftrightarrow> x = a \<and> y = r" for x y
      using with_role_exact [OF assms] by metis
    moreover have "require_role lib st pem rows now allowed c = Inr actor \<longleftrightarrow> actor = a \<and> r \<in> set allowed"
      using Inr ar by (auto simp: require_role_def)
    ultimately show ?thesis by metis
  qed
  have "e = 401 \<or> e = 403" if "verify_api_key_with_role lib st pem rows now c = Inl e" for e
    using that lookup_error
    by (fastforce simp: verify_api_key_with_role_def decode_access_token_def Let_def split: option.splits if_splits sum.splits)
  then show "case require_role lib st pem rows now allowed c of Inl e \<Rightarrow> e = 401 \<or> e = 403 | Inr a \<Rightarrow> True"
    by (auto simp: require_role_def split: sum.splits)
qed

text \<open>Stand-ins for the libraries and a production configuration, for the concrete examples.\<close>

definition toy_opt :: "pystr option \<Rightarrow> pystr" where
  "toy_opt x = (case x of None \<Rightarrow> [-1] | Some t \<Rightarrow> int (length t) # t)"

definition toy_read :: "pystr \<Rightarrow> pystr option \<times> pystr" where
  "toy_read xs = (case xs of [] \<Rightarrow> (None, []) | n # r \<Rightarrow> if n < 0 then (None, r) else (Some (take (nat n) r), drop (nat n) r))"

definition toy_encode :: "pystr \<Rightarrow> pystr \<Rightarrow> claims \<Rightarrow> pystr" where
  "toy_encode k alg c =
     lit ''eyJ'' @ toy_opt (Some k) @ toy_opt (cl_sub c) @ toy_opt (cl_role c) @ [cl_iat c, cl_exp c] @ cl_iss c"

definition toy_decode :: "pystr \<Rightarrow> pystr \<Rightarrow> int \<Rightarrow> pystr \<Rightarrow> claims option" where
  "toy_decode k alg now t =
     (case toy_read (drop 3 t) of (k', r) \<Rightarrow>
      case toy_read r of (sub, r) \<Rightarrow>
      case toy_read r of (role, r) \<Rightarrow>
      case r of
        iat # ex # iss \<Rightarrow>
          if k' = Some k \<and> startswith t (lit ''eyJ'') \<and> now \<le> ex
          then Some \<lparr>cl_sub = sub, cl_role = role, cl_iat = iat, cl_exp = ex, cl_iss = iss\<rparr> else None
      | _ \<Rightarrow> None)"

lemma toy_read_opt: "toy_read (toy_opt x @ r) = (x, r)"
  by (cases x) (simp_all add: toy_read_def toy_opt_def)

lemma toy_decode_encode: "toy_decode k alg now (toy_encode k alg c) = (if now \<le> cl_exp c then Some c else None)"
proof -
  have "drop 3 (toy_encode k alg c) =
      toy_opt (Some k) @ toy_opt (cl_sub c) @ toy_opt (cl_role c) @ [cl_iat c, cl_exp c] @ cl_iss c"
    by (simp add: toy_encode_def lit_def)
  moreover have "startswith (toy_encode k alg c) (lit ''eyJ'')" by (simp add: toy_encode_def startswith_append)
  ultimately show ?thesis by (simp add: toy_decode_def toy_read_opt)
qed

definition toy_lib :: auth_lib where
  "toy_lib = \<lparr>al_hmac = toy_hmac, al_encode = toy_encode, al_decode = toy_decode\<rparr>"

definition production :: settings where
  "production = default_settings\<lparr>st_environment := lit ''production'', st_secret := lit ''s3cret''\<rparr>"

definition viewer_row :: api_key_row where
  "viewer_row = \<lparr>k_hash = toy_hmac (lit ''s3cret'') (lit ''key-1''), k_description = [], k_agent_id = Some (lit ''a1''),
     k_role = lit ''viewer'', k_active = True, k_expires = Some 100\<rparr>"

definition api_key_cred :: "pystr \<Rightarrow> credentials" where
  "api_key_cred k = \<lparr>cr_api_key = Some k, cr_authorization = None\<rparr>"

theorem auth_rbac_exact_witness:
  "require_role toy_lib production ([], []) [viewer_row] 100 [lit ''admin'', lit ''viewer''] (api_key_cred (lit ''key-1''))
     = Inr (lit ''a1'') \<and>
   require_role toy_lib production ([], []) [viewer_row] 101 [lit ''admin'', lit ''viewer''] (api_key_cred (lit ''key-1''))
     \<noteq> Inr (lit ''a1'')"
proof -
  have prod: "st_environment production \<noteq> lit ''development''" "distinct (map k_hash [viewer_row])" by code_simp+
  have p: "presented (api_key_cred (lit ''key-1'')) = Some (lit ''key-1'')" by code_simp
  have g: "grants toy_lib production ([], []) [viewer_row] now (lit ''key-1'') a r \<longleftrightarrow>
      now \<le> 100 \<and> r = lit ''viewer'' \<and> a = lit ''a1''" for now a r
  proof -
    have "\<not> startswith (lit ''key-1'') (lit ''eyJ'')" "lit ''key-1'' \<noteq> st_secret production"
      "k_hash viewer_row = hash_api_key toy_lib production (lit ''key-1'')" "k_active viewer_row"
      "role_of_key viewer_row = lit ''viewer''" "key_actor (lit ''key-1'') viewer_row = lit ''a1''"
      "k_expires viewer_row = Some 100" by code_simp+
    then show ?thesis by (auto simp: grants_def key_row_def unexpired_def)
  qed
  have "lit ''viewer'' \<in> set [lit ''admin'', lit ''viewer'']" by simp
  then show ?thesis
    using auth_rbac_exact [OF prod, of toy_lib "([], [])" 100 "[lit ''admin'', lit ''viewer'']" "api_key_cred (lit ''key-1'')" "lit ''a1''"]
      auth_rbac_exact [OF prod, of toy_lib "([], [])" 101 "[lit ''admin'', lit ''viewer'']" "api_key_cred (lit ''key-1'')" "lit ''a1''"]
    by (simp add: p g)
qed

text \<open>What the code relies on in the JWT library: decoding undoes encoding until the expiry, and every token starts with \<open>eyJ\<close>.\<close>

definition jwt_round_trip :: "auth_lib \<Rightarrow> settings \<Rightarrow> pystr \<times> pystr \<Rightarrow> bool" where
  "jwt_round_trip lib st pem \<longleftrightarrow>
     (let alg = jwt_algorithm st;
          sk = (if alg = lit ''RS256'' then fst pem else st_secret st);
          vk = (if alg = lit ''RS256'' then snd pem else st_secret st)
      in \<forall>c now. startswith (al_encode lib sk alg c) (lit ''eyJ'') \<and>
           al_decode lib vk alg now (al_encode lib sk alg c) = (if now \<le> cl_exp c then Some c else None))"

lemma startswith_nonempty: "startswith s (lit ''eyJ'') \<Longrightarrow> s \<noteq> []"
  by (auto simp: startswith_def lit_def)

text \<open>
  C36: A token outlives its key: exchanging a key for a token gives a credential that acts as the key's
  actor with the key's role until the configured number of minutes has passed, and is rejected
  with 401 afterwards, whatever happens to the key's row in between (expiry, deactivation, deletion).
\<close>

theorem auth_token_round_trip:
  assumes "jwt_round_trip lib st pem" "st_environment st \<noteq> lit ''development''" "0 < st_expire_minutes st"
    and "lookup_api_key lib st rows now key = Inr (actor, role)"
  shows "\<exists>token. exchange_for_token lib st pem rows now key = Inr (token, st_expire_minutes st * 60, role) \<and>
    (\<forall>rows' now'. verify_api_key_with_role lib st pem rows' now' (\<lparr>cr_api_key = Some token, cr_authorization = None\<rparr>) =
       (if now' div 1000000 \<le> (now + st_expire_minutes st * 60000000) div 1000000 then Inr (actor, role) else Inl 401))"
proof -
  let ?t = "create_access_token lib st pem now actor role (st_expire_minutes st)"
  have j: "startswith ?t (lit ''eyJ'')"
    using assms(1) by (simp add: jwt_round_trip_def create_access_token_def Let_def)
  then have "presented \<lparr>cr_api_key = Some ?t, cr_authorization = None\<rparr> = Some ?t"
    by (simp add: presented_def startswith_nonempty)
  moreover have "decode_access_token lib st pem now' ?t =
      (if now' div 1000000 \<le> (now + st_expire_minutes st * 60000000) div 1000000
       then Inr \<lparr>cl_sub = Some actor, cl_role = Some role, cl_iat = now div 1000000,
                 cl_exp = (now + st_expire_minutes st * 60000000) div 1000000, cl_iss = lit ''aiss-server''\<rparr>
       else Inl 401)" for now'
    using assms(1,3)
    by (simp add: jwt_round_trip_def decode_access_token_def create_access_token_def Let_def)
  ultimately have "verify_api_key_with_role lib st pem rows' now' \<lparr>cr_api_key = Some ?t, cr_authorization = None\<rparr> =
       (if now' div 1000000 \<le> (now + st_expire_minutes st * 60000000) div 1000000 then Inr (actor, role) else Inl 401)"
    for rows' now'
    using j assms(2) by (simp add: verify_api_key_with_role_def text_or_def)
  moreover have "exchange_for_token lib st pem rows now key = Inr (?t, st_expire_minutes st * 60, role)"
    using assms(2,4) by (simp add: exchange_for_token_def)
  ultimately show ?thesis by blast
qed

lemma toy_round_trip: "jwt_round_trip toy_lib production ([], [])"
proof -
  have "jwt_algorithm production \<noteq> lit ''RS256''" by code_simp
  then show ?thesis
    by (simp add: jwt_round_trip_def toy_lib_def toy_decode_encode Let_def)
      (simp add: toy_encode_def startswith_append)
qed

theorem auth_token_round_trip_witness:
  "\<exists>token. exchange_for_token toy_lib production ([], []) [viewer_row] 100 (lit ''key-1'') = Inr (token, 1800, lit ''viewer'') \<and>
    verify_api_key_with_role toy_lib production ([], []) [] 1800000000 (api_key_cred token) = Inr (lit ''a1'', lit ''viewer'')"
proof -
  have "lookup_api_key toy_lib production [viewer_row] 100 (lit ''key-1'') = Inr (lit ''a1'', lit ''viewer'')"
    "st_environment production \<noteq> lit ''development''" "st_expire_minutes production = 30" by code_simp+
  with auth_token_round_trip [OF toy_round_trip, of "[viewer_row]" 100 "lit ''key-1''" "lit ''a1''" "lit ''viewer''"]
  show ?thesis unfolding api_key_cred_def by fastforce
qed

text \<open>
  C13: The life of an issued key: after an administrator has created a key, a request that presents it is
  admitted exactly where the key's role is allowed and until the key's expiry, and gets 403
  otherwise, provided the random key does not happen to start with \<open>eyJ\<close>: such a key is taken for a
  token and answered with 401 for ever.
\<close>

theorem auth_key_lifecycle:
  assumes "st_environment st \<noteq> lit ''development''" "distinct (map k_hash rows)"
    and "create_api_key lib st pem now raw q c rows = (Inr answer, rows')"
    and "raw \<noteq> []" "raw \<noteq> st_secret st" "\<And>t. decode_access_token lib st pem t raw = Inl 401"
  shows "require_role lib st pem rows' now' allowed \<lparr>cr_api_key = Some raw, cr_authorization = None\<rparr> =
    (if startswith raw (lit ''eyJ'') then Inl 401
     else if requested_role q \<in> set allowed \<and> (case key_expiry now q of None \<Rightarrow> True | Some e \<Rightarrow> now' \<le> e)
     then Inr (or_else (text_or (kr_agent_id q) []) (take 12 raw @ lit ''...'')) else Inl 403)"
proof -
  let ?r = "\<lparr>k_hash = hash_api_key lib st raw, k_description = text_or (kr_description q) [],
      k_agent_id = kr_agent_id q, k_role = requested_role q, k_active = True, k_expires = key_expiry now q\<rparr>"
  have rows': "rows' = rows @ [?r]" "hash_api_key lib st raw \<notin> k_hash ` set rows" "valid_key_request q"
    using assms(3) by (auto simp: create_api_key_def split: sum.splits if_splits)
  have p: "presented \<lparr>cr_api_key = Some raw, cr_authorization = None\<rparr> = Some raw"
    using assms(4) by (simp add: presented_def)
  have "first_match (\<lambda>r. k_hash r = hash_api_key lib st raw \<and> k_active r) rows' = Some ?r"
    unfolding rows'(1)
  proof (rule first_match_split)
    show "\<forall>x \<in> set rows. \<not> (k_hash x = hash_api_key lib st raw \<and> k_active x)"
      using rows'(2) by (metis image_eqI)
  qed simp
  moreover have "or_else (requested_role q) (lit ''agent'') = requested_role q"
    using rows'(3) by (auto simp: or_else_def valid_key_request_def lit_def)
  ultimately have "lookup_api_key lib st rows' now' raw =
      (if (case key_expiry now q of None \<Rightarrow> True | Some e \<Rightarrow> now' \<le> e)
       then Inr (or_else (text_or (kr_agent_id q) []) (take 12 raw @ lit ''...''), requested_role q) else Inl 403)"
    using assms(5) by (auto simp: lookup_api_key_def key_actor_def text_or_def split: option.split)
  then show ?thesis
    using assms(1,6) by (simp add: require_role_def verify_api_key_with_role_def p)
qed

theorem auth_key_lifecycle_witness:
  "require_role toy_lib production ([], [])
     (snd (create_api_key toy_lib production ([], []) 0 (lit ''k2'') \<lparr>kr_description = None, kr_agent_id = None,
        kr_role = Some (lit ''agent''), kr_days = Some 1\<rparr> (api_key_cred (lit ''s3cret'')) [viewer_row]))
     86400000000 [lit ''agent''] (api_key_cred (lit ''k2'')) = Inr (lit ''k2...'')"
proof -
  let ?q = "\<lparr>kr_description = None, kr_agent_id = None, kr_role = Some (lit ''agent''), kr_days = Some 1\<rparr>"
  let ?new = "create_api_key toy_lib production ([], []) 0 (lit ''k2'') ?q (api_key_cred (lit ''s3cret'')) [viewer_row]"
  have "fst ?new = Inr (lit ''k2'', [], Some (lit ''1970-01-02T00:00:00+00:00''))" by code_simp
  then have new: "?new = (Inr (lit ''k2'', [], Some (lit ''1970-01-02T00:00:00+00:00'')), snd ?new)" by (metis prod.collapse)
  have d: "decode_access_token toy_lib production ([], []) t (lit ''k2'') = Inl 401" for t
  proof -
    have "\<not> startswith (lit ''k2'') (lit ''eyJ'')" by code_simp
    then have "toy_decode k alg u (lit ''k2'') = None" for k alg u by (simp add: toy_decode_def split: prod.split list.split)
    then show ?thesis by (simp add: decode_access_token_def toy_lib_def Let_def)
  qed
  have "st_environment production \<noteq> lit ''development''" "distinct (map k_hash [viewer_row])"
    "lit ''k2'' \<noteq> []" "lit ''k2'' \<noteq> st_secret production" by code_simp+
  from auth_key_lifecycle [OF this(1,2) new this(3,4) d, of 86400000000 "[lit ''agent'']"]
  have "require_role toy_lib production ([], []) (snd ?new) 86400000000 [lit ''agent'']
      (api_key_cred (lit ''k2'')) =
    (if startswith (lit ''k2'') (lit ''eyJ'') then Inl 401
     else if requested_role ?q \<in> set [lit ''agent''] \<and> (case key_expiry 0 ?q of None \<Rightarrow> True | Some e \<Rightarrow> 86400000000 \<le> e)
     then Inr (or_else (text_or (kr_agent_id ?q) []) (take 12 (lit ''k2'') @ lit ''...'')) else Inl 403)"
    unfolding api_key_cred_def .
  also have "\<dots> = Inr (lit ''k2...'')" by code_simp
  finally show ?thesis .
qed

end
