(* ===== verification/ServerStack.thy ===== *)
theory ServerStack
  imports RateLimit AuditLog Auth KeyTable
begin

text \<open>
  A request through the central server: the middleware stack of \<open>server/app/main.py\<close> (rate limit, audit log,
  security headers, routes), \<open>server/app/middleware/security_headers.py\<close>, and the endpoints of
  \<open>server/app/routers/audit.py\<close> with their access control.

  Header names are lower case and values text, as Starlette presents them; the routes behind the stack are a
  parameter that returns a response or raises. CORS, which \<open>main.py\<close> adds outside the rate limit, the metrics
  middleware, and the content headers the framework adds to a response are not modelled.
\<close>

subsection \<open>Requests, responses, headers\<close>

type_synonym headers = "(pystr \<times> pystr) list"

record server_request =
  sq_method :: pystr
  sq_path :: pystr
  sq_query :: pystr
  sq_headers :: headers
  sq_peer :: pystr

datatype 'b answer = TooMany limit_class | Routed 'b

record 'b server_response =
  sr_status :: int
  sr_headers :: headers
  sr_body :: "'b answer"

abbreviation sq_header :: "server_request \<Rightarrow> string \<Rightarrow> pystr option" where
  "sq_header r name \<equiv> map_of (sq_headers r) (lit name)"

text \<open>\<open>response.headers[k] = v\<close>: the first header of that name is replaced, later ones are removed.\<close>

fun put_header :: "pystr \<Rightarrow> pystr \<Rightarrow> headers \<Rightarrow> headers" where
  "put_header k v [] = [(k, v)]"
| "put_header k v ((a, b) # hs) = (if a = k then (k, v) # filter (\<lambda>h. fst h \<noteq> k) hs else (a, b) # put_header k v hs)"

definition put_headers :: "headers \<Rightarrow> headers \<Rightarrow> headers" where
  "put_headers kvs hs = foldl (\<lambda>hs (k, v). put_header k v hs) hs kvs"

subsection \<open>Security headers\<close>

definition SECURITY_HEADERS :: headers where
  "SECURITY_HEADERS = map (map_prod lit lit)
     [(''strict-transport-security'', ''max-age=63072000; includeSubDomains; preload''),
      (''x-frame-options'', ''DENY''),
      (''x-content-type-options'', ''nosniff''),
      (''x-xss-protection'', ''1; mode=block''),
      (''referrer-policy'', ''strict-origin-when-cross-origin''),
      (''permissions-policy'', ''camera=(), microphone=(), geolocation=(), payment=(), usb=(), interest-cohort=()''),
      (''content-security-policy'',
       ''default-src 'self'; script-src 'self' 'unsafe-inline' cdn.jsdelivr.net; '' @
       ''style-src 'self' 'unsafe-inline' cdn.jsdelivr.net fonts.googleapis.com; '' @
       ''font-src 'self' fonts.gstatic.com; img-src 'self' data: fastapi.tiangolo.com; '' @
       ''connect-src 'self'; frame-ancestors 'none'; base-uri 'self'; form-action 'self';'')]"

definition CACHE_HEADERS :: headers where
  "CACHE_HEADERS = map (map_prod lit lit)
     [(''cache-control'', ''no-store, no-cache, must-revalidate, max-age=0''), (''pragma'', ''no-cache'')]"

definition ORIGIN_HEADERS :: headers where
  "ORIGIN_HEADERS = map (map_prod lit lit)
     [(''server'', ''AISS-Gateway''), (''cross-origin-resource-policy'', ''same-origin''),
      (''cross-origin-opener-policy'', ''same-origin'')]"

definition security_headers :: "pystr \<Rightarrow> server_request \<Rightarrow> headers" where
  "security_headers uuid r =
     SECURITY_HEADERS @ (if startswith (sq_path r) (lit ''/v1/'') then CACHE_HEADERS else []) @ ORIGIN_HEADERS @
     [(lit ''x-request-id'', case sq_header r ''x-request-id'' of None \<Rightarrow> uuid | Some i \<Rightarrow> i)]"

text \<open>A layer takes what the inner layers return; \<open>None\<close> is an exception, which it lets through.\<close>

definition security_dispatch ::
  "pystr \<Rightarrow> server_request \<Rightarrow> 'b server_response option \<Rightarrow> 'b server_response option" where
  "security_dispatch uuid r inner =
     map_option (\<lambda>p. p\<lparr>sr_headers := put_headers (security_headers uuid r) (sr_headers p)\<rparr>) inner"

subsection \<open>The audit layer\<close>

definition audit_view :: "server_request \<Rightarrow> audit_request" where
  "audit_view r =
     \<lparr>aq_path = sq_path r, aq_method = sq_method r, aq_query = sq_query r,
      aq_request_id = sq_header r ''x-request-id'', aq_api_key = sq_header r ''x-api-key'',
      aq_authorization = sq_header r ''authorization'', aq_real_ip = sq_header r ''x-real-ip'',
      aq_peer = Some (sq_peer r), aq_user_agent = sq_header r ''user-agent''\<rparr>"

text \<open>The response and the entry handed to the thread pool, if any.\<close>

definition audit_dispatch ::
  "pystr \<Rightarrow> real \<Rightarrow> server_request \<Rightarrow> 'b server_response option \<Rightarrow>
     'b server_response option \<times> audit_entry list" where
  "audit_dispatch uuid elapsed r inner =
     (case inner of
        None \<Rightarrow> (None, [])
      | Some p \<Rightarrow>
          (case dispatch_entry uuid (sr_status p) elapsed (audit_view r) of
             None \<Rightarrow> (Some p, [])
           | Some e \<Rightarrow> (Some (p\<lparr>sr_headers := put_header (lit ''x-request-id'') (ae_id e) (sr_headers p)\<rparr>), [e])))"

subsection \<open>The rate limit layer and the stack\<close>

definition limit_view :: "server_request \<Rightarrow> http_request" where
  "limit_view r =
     \<lparr>hr_path = sq_path r, hr_real_ip = sq_header r ''x-real-ip'',
      hr_forwarded_for = sq_header r ''x-forwarded-for'', hr_peer = sq_peer r\<rparr>"

definition limit_of :: "rate_limits \<Rightarrow> limit_class \<Rightarrow> nat" where
  "limit_of ls c =
     (case c of AuthLimit \<Rightarrow> lm_limit (rl_auth ls) | TelemetryLimit \<Rightarrow> lm_limit (rl_telemetry ls)
      | GlobalLimit \<Rightarrow> lm_limit (rl_global ls))"

definition too_many :: "int \<Rightarrow> rate_limits \<Rightarrow> limit_class \<Rightarrow> 'b server_response" where
  "too_many wall ls c =
     \<lparr>sr_status = 429,
      sr_headers = [(lit ''retry-after'', lit ''60''), (lit ''x-ratelimit-limit'', dec_int (int (limit_of ls c))),
                    (lit ''x-ratelimit-remaining'', lit ''0''), (lit ''x-ratelimit-reset'', dec_int (wall + 60))],
      sr_body = TooMany c\<rparr>"

definition limit_headers :: "rate_limits \<Rightarrow> limit_class \<Rightarrow> nat \<Rightarrow> headers" where
  "limit_headers ls c left =
     [(lit ''x-ratelimit-limit'', dec_int (int (limit_of ls c))), (lit ''x-ratelimit-remaining'', dec_int (int left))]"

text \<open>
  What a request meets: the monotonic clock (microseconds), the wall clock (seconds), the measured duration, and
  the identifiers the audit layer and the header layer would generate.
\<close>

record meeting =
  mt_now :: int
  mt_wall :: int
  mt_elapsed :: real
  mt_uuid :: pystr
  mt_header_uuid :: pystr

record 's server =
  sv_limits :: rate_limits
  sv_pending :: "audit_entry list"   \<comment> \<open>handed to the thread pool, not yet appended\<close>
  sv_audit :: audit_state
  sv_app :: 's

definition serve ::
  "(server_request \<Rightarrow> 's \<Rightarrow> 'b server_response option \<times> 's) \<Rightarrow> meeting \<Rightarrow> server_request \<Rightarrow> 's server \<Rightarrow>
     'b server_response option \<times> 's server" where
  "serve route m r s =
     (case rate_dispatch (mt_now m) (limit_view r) (sv_limits s) of
        (None, ls) \<Rightarrow> (Some (too_many (mt_wall m) ls (limit_type (sq_path r))), s\<lparr>sv_limits := ls\<rparr>)
      | (Some left, ls) \<Rightarrow>
          (case route r (sv_app s) of
             (p, app) \<Rightarrow>
               (case audit_dispatch (mt_uuid m) (mt_elapsed m) r (security_dispatch (mt_header_uuid m) r p) of
                  (p', es) \<Rightarrow>
                    (map_option (\<lambda>p. p\<lparr>sr_headers := put_headers (limit_headers ls (limit_type (sq_path r)) left)
                                         (sr_headers p)\<rparr>) p',
                     s\<lparr>sv_limits := ls, sv_pending := sv_pending s @ es, sv_app := app\<rparr>))))"

text \<open>A worker of the thread pool appends the \<open>i\<close>-th waiting entry; the workers come in any order.\<close>

definition run_worker ::
  "(pystr \<Rightarrow> pystr \<Rightarrow> pystr) \<Rightarrow> pystr \<Rightarrow> int \<Rightarrow> bool \<Rightarrow> nat \<Rightarrow> 's server \<Rightarrow> 's server" where
  "run_worker hm secret now io i s =
     (if i < length (sv_pending s) then
        s\<lparr>sv_audit := append_to_chain hm secret now io (sv_pending s ! i) (sv_audit s),
          sv_pending := take i (sv_pending s) @ drop (Suc i) (sv_pending s)\<rparr>
      else s)"

subsection \<open>The audit endpoints\<close>

definition cred_view :: "server_request \<Rightarrow> credentials" where
  "cred_view r = \<lparr>cr_api_key = sq_header r ''x-api-key'', cr_authorization = sq_header r ''authorization''\<rparr>"

text \<open>The role is checked before the query parameters are validated (422).\<close>

definition get_audit ::
  "auth_lib \<Rightarrow> settings \<Rightarrow> pystr \<times> pystr \<Rightarrow> api_key_row list \<Rightarrow> int \<Rightarrow> credentials \<Rightarrow>
     int \<Rightarrow> int \<Rightarrow> pystr option \<Rightarrow> int option \<Rightarrow> audit_row list \<Rightarrow> audit_row list http" where
  "get_audit lib st pem keys now c limit offset actor since rows =
     (case require_role lib st pem keys now [lit ''admin'', lit ''viewer''] c of
        Inl e \<Rightarrow> Inl e
      | Inr a \<Rightarrow>
          if 1 \<le> limit \<and> limit \<le> 1000 \<and> 0 \<le> offset
          then Inr (list_audit_entries (nat limit) (nat offset) actor since rows) else Inl 422)"

definition get_verify ::
  "auth_lib \<Rightarrow> settings \<Rightarrow> pystr \<times> pystr \<Rightarrow> api_key_row list \<Rightarrow> int \<Rightarrow> credentials \<Rightarrow> (int \<Rightarrow> pystr) \<Rightarrow>
     audit_row list \<Rightarrow> verify_result http" where
  "get_verify lib st pem keys now c row_iso rows =
     map_sum (\<lambda>e. e) (\<lambda>a. verify_chain (al_hmac lib) (st_secret st) row_iso rows)
       (require_role lib st pem keys now [lit ''admin''] c)"

definition delete_purge ::
  "auth_lib \<Rightarrow> settings \<Rightarrow> pystr \<times> pystr \<Rightarrow> api_key_row list \<Rightarrow> int \<Rightarrow> credentials \<Rightarrow> int \<Rightarrow>
     audit_state \<Rightarrow> unit http \<times> audit_state" where
  "delete_purge lib st pem keys now c days s =
     (case require_role lib st pem keys now [lit ''admin''] c of
        Inl e \<Rightarrow> (Inl e, s)
      | Inr a \<Rightarrow> if days < 180 then (Inl 422, s) else (Inr (), purge_old_entries now days s))"

definition post_reset ::
  "auth_lib \<Rightarrow> settings \<Rightarrow> pystr \<times> pystr \<Rightarrow> api_key_row list \<Rightarrow> int \<Rightarrow> credentials \<Rightarrow> bool \<Rightarrow>
     audit_state \<Rightarrow> (pystr \<times> nat) http \<times> audit_state" where
  "post_reset lib st pem keys now c has_instance s =
     (case require_role lib st pem keys now [lit ''admin''] c of
        Inl e \<Rightarrow> (Inl e, s)
      | Inr a \<Rightarrow> (case reset_chain has_instance s of (n, s') \<Rightarrow> (Inr (a, n), s')))"

subsection \<open>Lemmas\<close>

text \<open>The values a client receives for a header name.\<close>

definition values_of :: "pystr \<Rightarrow> headers \<Rightarrow> pystr list" where
  "values_of k hs = map snd (filter (\<lambda>h. fst h = k) hs)"

lemma values_filter_other: "values_of k (filter (\<lambda>h. fst h \<noteq> k') hs) = (if k = k' then [] else values_of k hs)"
  by (induction hs) (auto simp: values_of_def)

lemma values_Cons: "values_of k ((a, b) # hs) = (if a = k then b # values_of k hs else values_of k hs)"
  by (simp add: values_of_def)

lemma values_put_header: "values_of k (put_header k' v hs) = (if k = k' then [v] else values_of k hs)"
  by (induction k' v hs rule: put_header.induct) (auto simp: values_filter_other values_Cons, simp add: values_of_def)

interpretation header_table: key_table put_header "\<lambda>hs k. values_of k hs" "\<lambda>v. [v]"
  by unfold_locales (rule values_put_header)

lemmas put_headers_own = header_table.get_put_all_own [folded put_headers_def]
  and put_headers_other = header_table.get_put_all_other [folded put_headers_def]
  and values_put_headers = header_table.get_put_all [folded put_headers_def]

text \<open>The names each layer sets; only \<open>x-request-id\<close> is set by two of them.\<close>

definition fixed_headers :: "server_request \<Rightarrow> headers" where
  "fixed_headers r = SECURITY_HEADERS @ (if startswith (sq_path r) (lit ''/v1/'') then CACHE_HEADERS else []) @ ORIGIN_HEADERS"

definition LIMIT_NAMES :: "pystr list" where
  "LIMIT_NAMES = map lit [''x-ratelimit-limit'', ''x-ratelimit-remaining'']"

lemma limit_names: "map fst (limit_headers ls c n) = LIMIT_NAMES"
  by (simp add: limit_headers_def LIMIT_NAMES_def)

lemma security_names: "security_headers uuid r = fixed_headers r @ [(lit ''x-request-id'', header_or (sq_header r ''x-request-id'') uuid)]"
  by (simp add: security_headers_def fixed_headers_def)

lemma fixed_names:
  "distinct (map fst (fixed_headers r) @ lit ''x-request-id'' # LIMIT_NAMES)"
proof -
  have "distinct (map fst (SECURITY_HEADERS @ CACHE_HEADERS @ ORIGIN_HEADERS) @ lit ''x-request-id'' # LIMIT_NAMES)"
    by code_simp
  then show ?thesis by (auto simp: fixed_headers_def)
qed

lemma served_headers:
  fixes hs r ls left u e
  defines "ks \<equiv> limit_headers ls (limit_type (sq_path r)) left"
  defines "out \<equiv> put_headers ks (put_headers e (put_headers (security_headers u r) hs))"
  assumes e: "e = [] \<or> e = [(lit ''x-request-id'', i)]"
  shows "list_all (\<lambda>(k, v). values_of k out = [v]) (fixed_headers r @ ks)"
    and "values_of (lit ''x-request-id'') out = [if e = [] then header_or (sq_header r ''x-request-id'') u else i]"
    and "{k. values_of k out \<noteq> values_of k hs} \<subseteq> set (map fst (fixed_headers r) @ lit ''x-request-id'' # LIMIT_NAMES)"
proof -
  let ?id = "lit ''x-request-id''"
  have names: "fst ` set ks = set LIMIT_NAMES" using limit_names by (simp add: ks_def flip: set_map)
  have d: "distinct (map fst ks)" "distinct (map fst (security_headers u r))" "?id \<notin> set LIMIT_NAMES"
    using fixed_names [of r] limit_names by (simp_all add: ks_def security_names)
  have ids: "fst ` set e \<subseteq> {?id}" using e by auto
  have "values_of k out = [v]" if "(k, v) \<in> set (fixed_headers r)" for k v
  proof -
    from that have "k \<in> fst ` set (fixed_headers r)" by force
    moreover have "?id \<notin> fst ` set (fixed_headers r)" "fst ` set (fixed_headers r) \<inter> set LIMIT_NAMES = {}"
      using fixed_names [of r] by simp_all
    ultimately have "k \<noteq> ?id" "k \<notin> set LIMIT_NAMES" by blast+
    then have "k \<notin> fst ` set ks" "k \<notin> fst ` set e" using names ids by blast+
    moreover have "(k, v) \<in> set (security_headers u r)" using that by (simp add: security_names)
    ultimately show ?thesis by (simp add: out_def put_headers_other put_headers_own [OF d(2)])
  qed
  moreover have "values_of k out = [v]" if "(k, v) \<in> set ks" for k v
    using that by (simp add: out_def put_headers_own [OF d(1)])
  ultimately show "list_all (\<lambda>(k, v). values_of k out = [v]) (fixed_headers r @ ks)" by (auto simp: list_all_iff)
  have "values_of ?id (put_headers (security_headers u r) hs) = [header_or (sq_header r ''x-request-id'') u]"
    by (rule put_headers_own [OF d(2)]) (simp add: security_names)
  then have "values_of ?id (put_headers e (put_headers (security_headers u r) hs)) =
      [if e = [] then header_or (sq_header r ''x-request-id'') u else i]"
    using e by (auto simp: values_put_headers)
  moreover have "?id \<notin> fst ` set ks" using d(3) names by simp
  ultimately show "values_of ?id out = [if e = [] then header_or (sq_header r ''x-request-id'') u else i]"
    by (simp add: out_def put_headers_other)
  have "values_of k out = values_of k hs" if "k \<notin> set (map fst (fixed_headers r) @ ?id # LIMIT_NAMES)" for k
  proof -
    from that have "k \<notin> fst ` set ks" "k \<notin> fst ` set e" "k \<notin> fst ` set (security_headers u r)"
      using names ids by (auto simp: security_names)
    then show ?thesis by (simp add: out_def put_headers_other)
  qed
  then show "{k. values_of k out \<noteq> values_of k hs} \<subseteq> set (map fst (fixed_headers r) @ ?id # LIMIT_NAMES)" by blast
qed

lemma with_headers:
  "sr_headers (q\<lparr>sr_headers := hs\<rparr>) = hs" "sr_status (q\<lparr>sr_headers := hs\<rparr>) = sr_status q"
  "sr_body (q\<lparr>sr_headers := hs\<rparr>) = sr_body q"
  by simp_all

definition entries_of :: "meeting \<Rightarrow> server_request \<Rightarrow> int \<Rightarrow> audit_entry list" where
  "entries_of m r status =
     (case dispatch_entry (mt_uuid m) status (mt_elapsed m) (audit_view r) of None \<Rightarrow> [] | Some e \<Rightarrow> [e])"

lemma serve_routed:
  assumes "rate_dispatch (mt_now m) (limit_view r) (sv_limits s) = (Some left, ls)" "route r (sv_app s) = (Some q, app)"
  shows "serve route m r s =
    (Some (q\<lparr>sr_headers := put_headers (limit_headers ls (limit_type (sq_path r)) left)
       (put_headers (map (\<lambda>e. (lit ''x-request-id'', ae_id e)) (entries_of m r (sr_status q)))
         (put_headers (security_headers (mt_header_uuid m) r) (sr_headers q)))\<rparr>),
     s\<lparr>sv_limits := ls, sv_pending := sv_pending s @ entries_of m r (sr_status q), sv_app := app\<rparr>)"
  using assms
  by (simp add: serve_def audit_dispatch_def security_dispatch_def entries_of_def put_headers_def split: option.split)

lemma entries_cases:
  "(sq_path r \<in> set SKIP_PATHS \<and> entries_of m r n = []) \<or>
   (sq_path r \<notin> set SKIP_PATHS \<and> (\<exists>e. entries_of m r n = [e] \<and> ae_status e = n \<and>
      ae_id e = header_or (sq_header r ''x-request-id'') (mt_uuid m) \<and>
      ae_actor e = take 64 (audit_actor (audit_view r))))"
  by (simp add: entries_of_def dispatch_entry_def audit_view_def)

subsection \<open>Properties\<close>

text \<open>
  C16: What the middleware stack does to a request. A request over its limit is answered 429 with Retry-After and
  none of the security headers or a request identifier, and nothing else of the server changes: it leaves no audit entry. An
  exception of a route passes through and leaves no entry either. Every other response keeps its status, body and
  other headers, carries each security header and the two limit headers with exactly the value of the stack,
  whatever the route had set, names the request by the client's identifier or a fresh one, and hands over exactly
  one audit entry unless the path is exempt.
\<close>

theorem server_layers_exact:
  "case rate_dispatch (mt_now m) (limit_view r) (sv_limits s) of
     (None, ls) \<Rightarrow>
       \<exists>p. serve route m r s = (Some p, s\<lparr>sv_limits := ls\<rparr>) \<and> sr_status p = 429 \<and>
         values_of (lit ''retry-after'') (sr_headers p) = [lit ''60''] \<and>
         list_all (\<lambda>k. values_of k (sr_headers p) = []) (map fst (fixed_headers r) @ [lit ''x-request-id''])
   | (Some left, ls) \<Rightarrow>
       (case route r (sv_app s) of
          (None, app) \<Rightarrow> serve route m r s = (None, s\<lparr>sv_limits := ls, sv_app := app\<rparr>)
        | (Some q, app) \<Rightarrow>
            \<exists>p es. serve route m r s =
                (Some p, s\<lparr>sv_limits := ls, sv_pending := sv_pending s @ es, sv_app := app\<rparr>) \<and>
              sr_status p = sr_status q \<and> sr_body p = sr_body q \<and>
              list_all (\<lambda>(k, v). values_of k (sr_headers p) = [v])
                (fixed_headers r @ limit_headers ls (limit_type (sq_path r)) left) \<and>
              values_of (lit ''x-request-id'') (sr_headers p) =
                [header_or (sq_header r ''x-request-id'')
                   (if sq_path r \<in> set SKIP_PATHS then mt_header_uuid m else mt_uuid m)] \<and>
              {k. values_of k (sr_headers p) \<noteq> values_of k (sr_headers q)} \<subseteq>
                set (map fst (fixed_headers r) @ lit ''x-request-id'' # LIMIT_NAMES) \<and>
              map ae_status es = (if sq_path r \<in> set SKIP_PATHS then [] else [sr_status q]))"
proof (cases "rate_dispatch (mt_now m) (limit_view r) (sv_limits s)")
  case (Pair d ls)
  show ?thesis
  proof (cases d)
    case None
    define names where "names = map lit [''retry-after'', ''x-ratelimit-limit'', ''x-ratelimit-remaining'', ''x-ratelimit-reset'']"
    have "list_all (\<lambda>k. k \<notin> set names) (map fst (SECURITY_HEADERS @ CACHE_HEADERS @ ORIGIN_HEADERS) @ [lit ''x-request-id''])"
      unfolding names_def by code_simp
    then have "list_all (\<lambda>k. k \<notin> set names) (map fst (fixed_headers r) @ [lit ''x-request-id''])"
      by (auto simp: fixed_headers_def)
    moreover have "values_of k (sr_headers (too_many w ls c)) = []" if "k \<notin> set names" for k w c
      using that by (auto simp: too_many_def values_of_def names_def)
    ultimately have "list_all (\<lambda>k. values_of k (sr_headers (too_many w ls c)) = []) (map fst (fixed_headers r) @ [lit ''x-request-id''])"
      for w c by (auto simp: list_all_iff)
    moreover have "values_of (lit ''retry-after'') (sr_headers (too_many w ls c)) = [lit ''60'']" for w c
      by (simp add: too_many_def values_of_def lit_def)
    ultimately show ?thesis using Pair None by (simp add: serve_def) (simp add: too_many_def)
  next
    case (Some left)
    show ?thesis
    proof (cases "route r (sv_app s)")
      case route: (Pair a app)
      show ?thesis
      proof (cases a)
        case None
        then show ?thesis using Pair Some route
          by (simp add: serve_def audit_dispatch_def security_dispatch_def)
      next
        case q: (Some q)
        let ?es = "entries_of m r (sr_status q)"
        let ?e = "map (\<lambda>e. (lit ''x-request-id'', ae_id e)) ?es"
        have "?e = [] \<or> ?e = [(lit ''x-request-id'', header_or (sq_header r ''x-request-id'') (mt_uuid m))]"
          using entries_cases [of r m "sr_status q"] by auto
        note h = served_headers [OF this]
        note served = serve_routed [of m r s left ls route q app]
        have i: "[if ?e = [] then header_or (sq_header r ''x-request-id'') (mt_header_uuid m)
              else header_or (sq_header r ''x-request-id'') (mt_uuid m)] =
            [header_or (sq_header r ''x-request-id'') (if sq_path r \<in> set SKIP_PATHS then mt_header_uuid m else mt_uuid m)]"
          using entries_cases [of r m "sr_status q"] by auto
        show ?thesis
          unfolding Pair Some route q option.case prod.case
        proof (intro exI conjI)
          show "serve route m r s = (Some (q\<lparr>sr_headers := put_headers (limit_headers ls (limit_type (sq_path r)) left)
              (put_headers ?e (put_headers (security_headers (mt_header_uuid m) r) (sr_headers q)))\<rparr>),
              s\<lparr>sv_limits := ls, sv_pending := sv_pending s @ ?es, sv_app := app\<rparr>)"
            using served Pair Some route q by simp
        next
          show "map ae_status ?es = (if sq_path r \<in> set SKIP_PATHS then [] else [sr_status q])"
            using entries_cases [of r m "sr_status q"] by auto
        qed (simp_all only: with_headers h i)
      qed
    qed
  qed
qed

lemma worker_last:
  assumes "sv_pending s = es @ [e]"
  shows "sv_audit (run_worker hm secret now io (length es) s) = append_to_chain hm secret now io e (sv_audit s)"
  using assms by (simp add: run_worker_def)

lemma appended_row:
  assumes "as_rows (append_to_chain hm secret now io e s) \<noteq> as_rows s"
  shows "\<exists>r. as_rows (append_to_chain hm secret now io e s) = as_rows s @ [r] \<and> ar_time r = now \<and> ae_actor r = ae_actor e"
  using assms
  by (auto simp: append_to_chain_def write_sync_def Let_def audit_entry.defs split: if_splits)

lemma insort_key_snoc: "f x \<le> f r \<Longrightarrow> insort_key f x (ys @ [r]) = insort_key f x ys @ [r]"
  by (induction ys) auto

lemma sort_key_snoc: "list_all (\<lambda>x. f x \<le> f r) xs \<Longrightarrow> sort_key f (xs @ [r]) = sort_key f xs @ [r]"
  by (induction xs) (auto simp: insort_key_snoc)

lemma newest_listed:
  assumes "list_all (\<lambda>x. ar_time x \<le> ar_time r) rows" "0 < n"
  shows "\<exists>rest. list_audit_entries n 0 None None (rows @ [r]) = r # rest"
  using assms sort_key_snoc [of ar_time r rows] by (cases n) (simp_all add: list_audit_entries_def)

text \<open>
  C17: The audit log hands out API keys. When a request with an API key of at most 64 characters gets past the rate
  limit and its route answers, and a worker has stored its entry, then everybody who may read the log, a viewer
  included, finds the key itself as the actor of the newest entry; presented as a credential it has every role it
  has in its owner's hands.
\<close>

theorem audit_log_reveals_keys:
  assumes "sq_header r ''x-api-key'' = Some raw" "raw \<noteq> []" "length raw \<le> 64" "sq_path r \<notin> set SKIP_PATHS"
    and "rate_dispatch (mt_now m) (limit_view r) (sv_limits s) = (Some left, ls)"
    and "route r (sv_app s) = (Some q, app)" "serve route m r s = (p, s1)"
    and "run_worker hm secret now True (length (sv_pending s)) s1 = s2"
    and "as_rows (sv_audit s2) \<noteq> as_rows (sv_audit s)" "list_all (\<lambda>x. ar_time x \<le> now) (as_rows (sv_audit s))"
    and "require_role lib st pem keys t [lit ''admin'', lit ''viewer''] c = Inr v"
    and "require_role lib st pem keys t roles \<lparr>cr_api_key = Some raw, cr_authorization = None\<rparr> = Inr a"
  shows "\<exists>row rest. get_audit lib st pem keys t c 100 0 None None (as_rows (sv_audit s2)) = Inr (row # rest) \<and>
    require_role lib st pem keys t roles \<lparr>cr_api_key = Some (ae_actor row), cr_authorization = None\<rparr> = Inr a"
proof -
  obtain e where e: "entries_of m r (sr_status q) = [e]" "ae_actor e = take 64 (audit_actor (audit_view r))"
    using entries_cases [of r m "sr_status q"] assms(4) by auto
  have actor: "ae_actor e = raw" using e(2) assms(1-3) by (simp add: audit_actor_def audit_view_def or_else_def)
  have "sv_pending s1 = sv_pending s @ [e]" "sv_audit s1 = sv_audit s"
    using serve_routed [of m r s left ls route q app] assms(5-7) e(1) by auto
  then have "sv_audit s2 = append_to_chain hm secret now True e (sv_audit s)"
    using worker_last assms(8) by metis
  then obtain row where row: "as_rows (sv_audit s2) = as_rows (sv_audit s) @ [row]" "ar_time row = now" "ae_actor row = raw"
    using appended_row [of hm secret now True e "sv_audit s"] assms(9) actor by auto
  then obtain rest where "list_audit_entries 100 0 None None (as_rows (sv_audit s2)) = row # rest"
    using newest_listed [of row "as_rows (sv_audit s)" 100] assms(10) by auto
  then show ?thesis using row(3) assms(11,12) by (auto simp: get_audit_def)
qed

text \<open>An administrator asks for the statistics; a viewer then reads the log.\<close>

definition stack_key :: "string \<Rightarrow> string \<Rightarrow> api_key_row" where
  "stack_key raw role = \<lparr>k_hash = hash_api_key toy_lib production (lit raw), k_description = [],
     k_agent_id = None, k_role = lit role, k_active = True, k_expires = None\<rparr>"

definition stack_keys :: "api_key_row list" where
  "stack_keys = [stack_key ''alpha'' ''admin'', stack_key ''beta'' ''viewer'']"

definition stack_request :: server_request where
  "stack_request = \<lparr>sq_method = lit ''GET'', sq_path = lit ''/v1/stats'', sq_query = [],
     sq_headers = [(lit ''x-api-key'', lit ''alpha'')], sq_peer = lit ''10.0.0.7''\<rparr>"

definition stack_server :: "unit server" where
  "stack_server = \<lparr>sv_limits = new_rate_limits 1000, sv_pending = [], sv_audit = example_log, sv_app = ()\<rparr>"

definition stack_meeting :: meeting where
  "stack_meeting = \<lparr>mt_now = 0, mt_wall = 0, mt_elapsed = 0, mt_uuid = [117], mt_header_uuid = [118]\<rparr>"

definition stack_route :: "server_request \<Rightarrow> unit \<Rightarrow> unit server_response option \<times> unit" where
  "stack_route r s = (Some \<lparr>sr_status = 200, sr_headers = [], sr_body = Routed ()\<rparr>, ())"

abbreviation by_key :: "string \<Rightarrow> credentials" where
  "by_key k \<equiv> \<lparr>cr_api_key = Some (lit k), cr_authorization = None\<rparr>"

theorem audit_log_reveals_keys_witness:
  "\<exists>row rest. get_audit toy_lib production ([], []) stack_keys 0 (by_key ''beta'') 100 0 None None
      (as_rows (sv_audit (run_worker toy_hmac [1] 3000000 True 0 (snd (serve stack_route stack_meeting stack_request stack_server))))) =
        Inr (row # rest) \<and>
    require_role toy_lib production ([], []) stack_keys 0 [lit ''admin'']
      \<lparr>cr_api_key = Some (ae_actor row), cr_authorization = None\<rparr> = Inr (lit ''alpha...'')"
proof (rule audit_log_reveals_keys)
  show "sq_header stack_request ''x-api-key'' = Some (lit ''alpha'')" "lit ''alpha'' \<noteq> []" "length (lit ''alpha'') \<le> 64"
    "sq_path stack_request \<notin> set SKIP_PATHS" by code_simp+
  show "rate_dispatch (mt_now stack_meeting) (limit_view stack_request) (sv_limits stack_server) =
      (Some 999, snd (rate_dispatch (mt_now stack_meeting) (limit_view stack_request) (sv_limits stack_server)))" by code_simp
  show "stack_route stack_request (sv_app stack_server) = (Some \<lparr>sr_status = 200, sr_headers = [], sr_body = Routed ()\<rparr>, ())"
    by (simp add: stack_route_def)
  show "serve stack_route stack_meeting stack_request stack_server =
      (fst (serve stack_route stack_meeting stack_request stack_server), snd (serve stack_route stack_meeting stack_request stack_server))"
    by simp
  show "run_worker toy_hmac [1] 3000000 True (length (sv_pending stack_server)) (snd (serve stack_route stack_meeting stack_request stack_server)) =
      run_worker toy_hmac [1] 3000000 True 0 (snd (serve stack_route stack_meeting stack_request stack_server))"
    by (simp add: stack_server_def)
  show "list_all (\<lambda>x. ar_time x \<le> 3000000) (as_rows (sv_audit stack_server))" by code_simp
  show "require_role toy_lib production ([], []) stack_keys 0 [lit ''admin'', lit ''viewer''] (by_key ''beta'') = Inr (lit ''beta...'')"
    by code_simp
  show "require_role toy_lib production ([], []) stack_keys 0 [lit ''admin''] (by_key ''alpha'') = Inr (lit ''alpha...'')" by code_simp
  have "length (as_rows (sv_audit (run_worker toy_hmac [1] 3000000 True 0 (snd (serve stack_route stack_meeting stack_request stack_server))))) = 3"
    by code_simp
  moreover have "length (as_rows (sv_audit stack_server)) = 2" by code_simp
  ultimately show "as_rows (sv_audit (run_worker toy_hmac [1] 3000000 True 0 (snd (serve stack_route stack_meeting stack_request stack_server)))) \<noteq>
      as_rows (sv_audit stack_server)" by (metis numeral_eq_iff semiring_norm(89))
qed

end
