(* ===== verification/InspectRules.thy ===== *)
theory InspectRules
  imports Regex Request
begin

text \<open>
  The hard-coded rules of the HTTP inspection endpoint, \<open>server/app/routers/inspect.py\<close>: the SQL
  injection and XSS patterns of its Tier 2 and the heuristics of its Tier 3, in the order of the
  source. A rule is its name, whether it is compiled with \<open>re.IGNORECASE\<close>, and the pattern.
\<close>

record rule =
  ru_name :: pystr
  ru_ignorecase :: bool
  ru_pattern :: rx

definition mk_rule :: "string \<Rightarrow> rx \<Rightarrow> rule" where
  "mk_rule n r = \<lparr>ru_name = lit n, ru_ignorecase = True, ru_pattern = r\<rparr>"

definition mk_rule_cs :: "string \<Rightarrow> rx \<Rightarrow> rule" where
  "mk_rule_cs n r = \<lparr>ru_name = lit n, ru_ignorecase = False, ru_pattern = r\<rparr>"

subsection \<open>Tier 2\<close>

definition SQLI_PATTERNS :: "rule list" where
  "SQLI_PATTERNS =
     [mk_rule ''SQL-INJECT-OR-AND'' (seqs [alts [word ''--'', seqs [WordB, word ''OR'', WordB], seqs
        [WordB, word ''AND'', WordB]], LStar (Cls False [CSpace, CNotSpace]), oneof [''='',
        ''LIKE'', ''BETWEEN'']]),
      mk_rule ''SQL-INJECT-DML'' (alts [seqs [word ''UNION'', Plus (Cls False [CSpace,
        CNotSpace]), word ''SELECT''], seqs [word ''INSERT'', Plus (Cls False [CSpace,
        CNotSpace]), word ''INTO''], seqs [word ''DROP'', Plus (Cls False [CSpace, CNotSpace]),
        word ''TABLE''], seqs [word ''UPDATE'', Plus (Cls False [CSpace, CNotSpace]), word
        ''SET''], seqs [word ''DELETE'', Plus (Cls False [CSpace, CNotSpace]), word ''FROM''],
        seqs [word ''TRUNCATE'', Plus (Cls False [CSpace, CNotSpace]), word ''TABLE'']]),
      mk_rule ''SQL-INJECT-EXEC'' (alts [word ''xp_cmdshell'', seqs [word ''EXEC'', Star SP,
        word ''(''], seqs [word ''EXECUTE'', Star SP, word ''(''], word ''sp_executesql'']),
      mk_rule ''SQL-INJECT-TIME-BLIND'' (alts [seqs [word ''SLEEP'', Star SP, word ''('', Star
        SP, Plus DG], seqs [word ''BENCHMARK'', Star SP, word ''(''], seqs [word ''WAITFOR'',
        Plus SP, word ''DELAY'']]),
      mk_rule ''SQL-INJECT-TAUTOLOGY'' (alts [seqs [Chr 39, Star (Cls False [CSpace]), word
        ''OR'', Star (Cls False [CSpace]), Chr 39, Star (Cls True [CR 39 39]), Chr 39, Star (Cls
        False [CSpace]), word ''='', Star (Cls False [CSpace]), Chr 39], seqs [Chr 34, Star (Cls
        False [CSpace]), word ''OR'', Star (Cls False [CSpace]), Chr 34, Star (Cls True [CR 34
        34]), Chr 34, Star (Cls False [CSpace]), word ''='', Star (Cls False [CSpace]), Chr
        34]]),
      mk_rule ''SQL-INJECT-ORDER-BY'' (seqs [alts [seqs [word ''ORDER'', Plus SP, word ''BY''],
        seqs [word ''GROUP'', Plus SP, word ''BY'']], Plus SP, Plus DG, Star (Cls False
        [CSpace]), oneof [''--'', ''#'', ''/*'', '';'']]),
      mk_rule ''SQL-INJECT-HAVING'' (seqs [word ''HAVING'', Plus SP, Plus DG, Star SP, word
        ''='', Star SP, Plus DG]),
      mk_rule ''SQL-INJECT-COMMENT'' (seqs [Cls False [CR 39 39, CR 34 34], Star (Cls False
        [CSpace]), oneof [''--'', ''#'', ''/*'']])]"

definition XSS_PATTERNS :: "rule list" where
  "XSS_PATTERNS =
     [mk_rule ''XSS-SCRIPT-TAG'' (seqs [word ''<script'', Cls False [CSpace, CR 62 62]]),
      mk_rule ''XSS-JS-PROTO'' (seqs [word ''javascript'', Star SP, word '':'']),
      mk_rule ''XSS-VBSCRIPT'' (seqs [word ''vbscript'', Star SP, word '':'']),
      mk_rule ''XSS-EVENT-HANDLER'' (seqs [word ''on'', alts [word ''load'', word ''error'',
        word ''click'', seqs [word ''mouse'', Plus WD], word ''focus'', word ''blur'', seqs
        [word ''key'', Star WD], word ''submit'', word ''reset'', word ''change'', seqs [word
        ''drag'', Star WD], word ''drop'', word ''copy'', word ''cut'', word ''paste'', word
        ''scroll'', word ''resize'', seqs [word ''context'', Star WD]], Star SP, word ''='']),
      mk_rule ''XSS-IFRAME'' (seqs [word ''<iframe'', Cls False [CSpace, CR 62 62]]),
      mk_rule ''XSS-IMG-JS'' (seqs [word ''<img'', Plus (noneof ''>''), word ''src'', Star SP,
        word ''='', Star SP, Opt (Cls False [CR 39 39, CR 34 34]), Star SP, word
        ''javascript:'']),
      mk_rule ''XSS-CSS-EXPR'' (seqs [word ''expression'', Star SP, word ''('']),
      mk_rule ''XSS-HTML-ENTITY'' (alts [seqs [word ''&#x'', Plus (Cls False [rng CHR ''0'' CHR
        ''9'', rng CHR ''a'' CHR ''f'', rng CHR ''A'' CHR ''F'']), word '';''], seqs [word
        ''&#'', Plus DG, word '';'']]),
      mk_rule ''XSS-DANGEROUS-TAG'' (seqs [word ''<'', oneof [''object'', ''embed'', ''applet'',
        ''form'', ''input'', ''button'', ''link'', ''meta'', ''base''], Cls False [CSpace, CR 62
        62]]),
      mk_rule ''XSS-SVG'' (seqs [word ''<svg'', Star (noneof ''>''), word ''>'']),
      mk_rule ''XSS-DATA-URI'' (alts [seqs [word ''data:'', Star SP, word ''text/html''], seqs
        [word ''data:'', Star SP, word ''application/javascript'']])]"

subsection \<open>Tier 3\<close>

text \<open>Path traversal and local file inclusion.\<close>

definition HEURISTIC_FILES :: "rule list" where
  "HEURISTIC_FILES =
     [mk_rule ''PATH-TRAVERSAL'' (AtLeast 2 (seqs [word ''..'', Cls False [CR 92 92, CR 47 47]])),
      mk_rule ''LFI-SENSITIVE-FILE'' (seqs [word ''/etc/'', oneof [''passwd'', ''shadow'',
        ''group'', ''hosts'', ''hostname'', ''crontab'', ''cron.d'', ''sudoers'', ''ssh/'',
        ''ssl/'', ''nginx'', ''apache'']]),
      mk_rule ''LFI-PROC'' (word ''/proc/self''),
      mk_rule ''LFI-VAR-PATH'' (seqs [word ''/var/'', oneof [''log'', ''www'', ''run'', ''lib'',
        ''spool'']]),
      mk_rule ''LFI-STREAM-WRAPPER'' (seqs [oneof [''data'', ''expect'', ''php'', ''zip'',
        ''phar'', ''glob'', ''ogg'', ''rar''], word ''://'']),
      mk_rule ''LFI-SYS-PATH'' (oneof [''/boot/'', ''/sys/'', ''/dev/''])]"

text \<open>Shells and interpreters.\<close>

definition HEURISTIC_RCE :: "rule list" where
  "HEURISTIC_RCE =
     [mk_rule ''RCE-SHELL'' (oneof [''cmd.exe'', ''/bin/sh'', ''/bin/bash'', ''/bin/zsh'',
        ''powershell'', ''pwsh'']),
      mk_rule ''RCE-EVAL'' (seqs [alts [seqs [WordB, word ''eval'', WordB], seqs [WordB, word
        ''exec'', WordB], seqs [WordB, word ''system'', WordB], seqs [WordB, word ''passthru'',
        WordB]], Star SP, word ''('']),
      mk_rule ''RCE-BACKTICK'' (seqs [Chr 96, Star SP, alts [word ''cat'', word ''ls'', word
        ''id'', word ''whoami'', word ''wget'', word ''curl'', word ''nc'', word ''netcat'',
        word ''ncat'', word ''bash'', word ''sh'', seqs [word ''python'', Opt DG], word
        ''perl'', word ''ruby'', word ''php'', word ''uname'', word ''ifconfig'', word
        ''hostname''], WordB]),
      mk_rule ''RCE-NEWLINE-INJECT'' (seqs [alts [seqs [word ''%0'', anyof ''aAdD''], Chr 10,
        Chr 13], Star SP, oneof [''cat'', ''ls'', ''id'', ''whoami'', ''wget'', ''curl'',
        ''nc'', ''bash'', ''sh'', ''python'', ''perl''], WordB]),
      mk_rule ''PHP-OBFUSCATION'' (seqs [oneof [''base64_decode'', ''str_rot13'', ''gzinflate'',
        ''gzuncompress'', ''str_replace'', ''preg_replace''], Star SP, word ''('']),
      mk_rule ''RCE-SHELL-SUBST'' (seqs [word ''$('', Star SP, oneof [''cat'', ''ls'', ''id'',
        ''whoami'', ''wget'', ''curl'', ''nc'', ''bash'', ''sh'', ''python'', ''perl''], WordB])]"

text \<open>Server-side request forgery and XML entities.\<close>

definition HEURISTIC_SSRF_XXE :: "rule list" where
  "HEURISTIC_SSRF_XXE =
     [mk_rule ''SSRF-SCHEME'' (oneof [''file://'', ''dict://'', ''gopher://'', ''ldap://'',
        ''tftp://'', ''sftp://'']),
      mk_rule ''SSRF-IMDS'' (oneof [''169.254.169.254'', ''metadata.google.internal'']),
      mk_rule ''SSRF-LOCALHOST'' (seqs [alts [seqs [word ''http'', Opt (word ''s''), word
        ''://''], word ''@'', word ''//'', word ''=''], oneof [''localhost'', ''127.0.0.1'',
        ''0.0.0.0'', ''[::1]'', ''::1'']]),
      mk_rule ''SSRF-PRIVATE-SUBNET'' (seqs [alts [seqs [word ''http'', Opt (word ''s''), word
        ''://''], word ''@'', word ''//'', word ''=''], alts [seqs [word ''10.'', Between 1 3
        DG, word ''.'', Between 1 3 DG, word ''.'', Between 1 3 DG], seqs [word ''192.168.'',
        Between 1 3 DG, word ''.'', Between 1 3 DG], seqs [word ''172.'', alts [seqs [word
        ''1'', Cls False [rng CHR ''6'' CHR ''9'']], seqs [word ''2'', DG], seqs [word ''3'',
        anyof ''01'']], word ''.'', Between 1 3 DG, word ''.'', Between 1 3 DG]]]),
      mk_rule ''XXE-ENTITY'' (seqs [word ''<!'', oneof [''ENTITY'', ''DOCTYPE''], Plus (noneof
        ''>''), word ''SYSTEM'']),
      mk_rule ''XXE-ENTITY-GENERIC'' (seqs [word ''<!ENTITY'', Plus SP, Cls False [CWord, CR 37
        37]])]"

text \<open>Template injection.\<close>

definition HEURISTIC_TEMPLATES :: "rule list" where
  "HEURISTIC_TEMPLATES =
     [mk_rule ''SSTI-TEMPLATE-JINJA'' (seqs [word ''{{'', LBetween 1 200 (Cls False [CSpace,
        CNotSpace]), word ''}}'']),
      mk_rule ''SSTI-ERB'' (seqs [word ''<%='', LBetween 1 200 (Cls False [CSpace, CNotSpace]),
        word ''%>'']),
      mk_rule ''SSTI-FREEMARKER'' (seqs [word ''[#'', oneof [''assign'', ''list'', ''if'',
        ''include'', ''import'', ''attempt''], WordB]),
      mk_rule ''SSTI-SMARTY'' (word ''{php}''),
      mk_rule ''SSTI-SPRING'' (seqs [word ''${'', Between 1 200 (noneof ''}''), word ''}'']),
      mk_rule ''SSTI-RUBY'' (seqs [word ''#{'', Between 1 200 (noneof ''}''), word ''}''])]"

text \<open>NoSQL, command and CRLF injection.\<close>

definition HEURISTIC_NOSQL_CMD :: "rule list" where
  "HEURISTIC_NOSQL_CMD =
     [mk_rule ''NOSQL-OPERATOR'' (seqs [word ''$'', oneof [''gt'', ''lt'', ''gte'', ''lte'', ''ne'',
        ''eq'', ''in'', ''nin'', ''exists'', ''where'', ''regex'', ''or'', ''and'', ''not'',
        ''all'', ''size'', ''type'', ''mod'', ''text'', ''near'', ''geoWithin'', ''elemMatch''],
        WordB]),
      mk_rule ''NOSQL-PARAM-INJECT'' (seqs [word ''['', Star SP, word ''$'', oneof [''gt'',
        ''lt'', ''gte'', ''lte'', ''ne'', ''eq'', ''in'', ''nin'', ''where'', ''regex'', ''or'',
        ''and''], Star SP, word '']'']),
      mk_rule ''NOSQL-WHERE-FUNC'' (seqs [word ''$where'', Star SP, anyof ''=:'', Star SP, Opt
        (Cls False [CR 39 39, CR 34 34]), Star SP, word ''function'', Star SP, word ''('']),
      mk_rule ''CMD-INJECT-OR'' (seqs [word ''||'', Star SP, oneof [''cat'', ''ls'', ''id'',
        ''whoami'', ''wget'', ''curl'', ''nc'', ''bash'', ''sh'', ''python'', ''perl'',
        ''uname'', ''env'', ''printenv'', ''set''], WordB]),
      mk_rule ''CRLF-INJECT'' (seqs [alts [seqs [word ''%0'', anyof ''dD'', word ''%0'', anyof
        ''aA''], seqs [word ''%0'', anyof ''aA''], seqs [Chr 92, word ''r'', Chr 92, word
        ''n''], seqs [Chr 13, Chr 10]], Star SP, alts [word ''Set-Cookie'', word ''Location'',
        word ''Content-Type'', word ''Transfer-Encoding'', seqs [word ''X-'', Plus (Cls False
        [CWord, CR 45 45])], word ''WWW-Authenticate'', word ''Content-Length'', word
        ''Pragma''], Star SP, word '':'']),
      mk_rule ''LOG-NEWLINE-INJECT'' (seqs [alts [seqs [word ''%0'', anyof ''aAdD''], Chr 10,
        Chr 13], NSP])]"

text \<open>Endpoint probes, LDAP, OGNL.\<close>

definition HEURISTIC_PROBES_LDAP :: "rule list" where
  "HEURISTIC_PROBES_LDAP =
     [mk_rule ''SENSITIVE-FILE-PROBE'' (seqs [alts [Bol, word ''/''], oneof [''.env'', ''.htpasswd'',
        ''.htaccess'', ''web.config'', ''WEB-INF/'', ''.git/HEAD'', ''.svn/entries'',
        ''.DS_Store''], WordB]),
      mk_rule ''ADMIN-ENDPOINT-PROBE'' (seqs [alts [Bol, word ''/''], oneof [''server-status'',
        ''server-info'', ''actuator/'', ''__debug__'', ''_admin/'', ''manager/html'',
        ''adminer.php'', ''phpmyadmin'', ''wp-login.php'', ''xmlrpc.php''], WordB]),
      mk_rule ''LDAP-INJECT'' (alts [seqs [word ''*'', Star SP, word '')'', Star SP, word
        ''(''], seqs [word '')'', Star SP, word ''('', Star SP, oneof [''uid'', ''cn'',
        ''mail'', ''ou'', ''dc'', ''objectClass'', ''sAMAccountName'', ''memberOf''], Star SP,
        anyof ''=*'']]),
      mk_rule ''LDAP-WILDCARD'' (seqs [oneof [''uid'', ''cn'', ''mail'', ''objectClass''], Star
        SP, word ''='', Star SP, word ''*'', Star SP, word '')'']),
      mk_rule ''LDAP-OR-INJECT'' (alts [seqs [word '')'', Star SP, word ''('', Star SP, word
        ''|''], seqs [word ''|'', Star SP, word ''('', Star SP, oneof [''uid'', ''cn'',
        ''mail'', ''objectClass'', ''password''], word ''='']]),
      mk_rule ''OGNL-INJECT'' (seqs [word ''%{'', Between 1 200 (noneof ''}''), word ''}''])]"

text \<open>Deserialisation, prototype pollution, JWT.\<close>

definition HEURISTIC_DESER_PROTO :: "rule list" where
  "HEURISTIC_DESER_PROTO =
     [mk_rule ''DESER-JAVA'' (seqs [word ''rO0AB'', AtLeast 4 (Cls False [rng CHR ''A'' CHR ''Z'', rng
        CHR ''a'' CHR ''z'', rng CHR ''0'' CHR ''9'', CR 43 43, CR 47 47, CR 61 61])]),
      mk_rule ''DESER-PHP'' (seqs [word ''O:'', Plus DG, word '':'', Chr 34, Cls False [rng CHR
        ''A'' CHR ''Z'', rng CHR ''a'' CHR ''z'', CR 95 95], Star WD, Chr 34, word '':'', Plus
        DG, word '':{'']),
      mk_rule ''DESER-PYTHON'' (alts [word ''gASV'', seqs [word ''cposix'', Chr 10], seqs [word
        ''cos'', Chr 10], seqs [word ''cglobal'', Chr 10], seqs [word ''creduced'', Chr 10],
        word ''__reduce__'', word ''pickle.loads'']),
      mk_rule ''DESER-YAML'' (seqs [word ''!!'', Star SP, word ''python/'', oneof [''object'',
        ''apply'', ''name'', ''module'', ''callable'']]),
      mk_rule ''PROTO-POLLUTION'' (alts [word ''__proto__'', seqs [word ''constructor'', Star
        SP, word ''.'', Star SP, word ''prototype''], word ''Object.prototype'']),
      mk_rule ''PROTO-POLLUTION-JSON'' (alts [seqs [Chr 34, word ''constructor'', Chr 34, Star
        SP, word '':'', Star SP, word ''{''], seqs [Chr 34, word ''__proto__'', Chr 34, Star SP,
        word '':'', Star SP, word ''{'']]),
      mk_rule ''MASS-ASSIGN-PRIVILEGE'' (seqs [Chr 34, oneof [''role'', ''isAdmin'',
        ''is_admin'', ''is_superuser'', ''admin'', ''superuser'', ''permissions'',
        ''privilege'', ''elevated'', ''root''], Chr 34, Star SP, word '':'', Star SP, alts [word
        ''true'', seqs [Chr 34, word ''admin'', Chr 34], seqs [Chr 34, word ''root'', Chr 34],
        seqs [Chr 34, word ''superadmin'', Chr 34], seqs [Chr 34, word ''superuser'', Chr 34],
        AtLeast 3 DG]]),
      mk_rule ''JWT-NONE-ALG'' (word ''eyJhbGciOiJub25lIn0'')]"

text \<open>Credentials and short commands.\<close>

definition HEURISTIC_CREDENTIALS :: "rule list" where
  "HEURISTIC_CREDENTIALS =
     [mk_rule ''DEFAULT-CREDS'' (seqs [word ''Basic'', Plus SP, oneof [''YWRtaW46YWRtaW4='',
        ''YWRtaW46cGFzc3dvcmQ='', ''cm9vdDpyb290'', ''Z3Vlc3Q6Z3Vlc3Q='', ''YWRtaW46MTIzNDU2'',
        ''dXNlcjp1c2Vy'', ''dGVzdDp0ZXN0'']]),
      mk_rule_cs ''AWS-KEY-EXPOSED'' (seqs [word ''AKIA'', Rep 16 (Cls False [rng CHR ''0'' CHR
        ''9'', rng CHR ''A'' CHR ''Z''])]),
      mk_rule ''CREDENTIAL-IN-URL'' (seqs [oneof [''apikey'', ''api_key'', ''secret'',
        ''aws_secret'', ''private_key''], Star SP, word ''='', Star SP, AtLeast 20 (Cls False
        [rng CHR ''A'' CHR ''Z'', rng CHR ''a'' CHR ''z'', rng CHR ''0'' CHR ''9'', CR 47 47, CR
        43 43])]),
      mk_rule ''PASSWORD-IN-URL'' (seqs [alts [Bol, word ''&'', word ''?''], oneof
        [''password'', ''passwd'', ''pwd'', ''pass''], Star SP, word ''='', Star SP, AtLeast 6
        (Cls True [CR 38 38, CSpace])]),
      mk_rule ''CMD-INJECT-PIPE'' (seqs [word ''|'', Star SP, oneof [''id'', ''ls'', ''nc'',
        ''ps'', ''env'', ''set'', ''w'', ''who'', ''tty''], WordB]),
      mk_rule ''CMD-INJECT-SHORT'' (seqs [word '';'', Star SP, oneof [''id'', ''nc'', ''env'',
        ''set'', ''w'', ''who'', ''tty'', ''uname''], WordB])]"

text \<open>Format strings and the rest.\<close>

definition HEURISTIC_REST :: "rule list" where
  "HEURISTIC_REST =
     [mk_rule ''FORMAT-STRING'' (alts [AtLeast 3 (seqs [word ''%'', anyof ''diouxXeEfFgGaAcsSp'']),
        word ''%n'']),
      mk_rule ''SSTI-PYTHON-FORMAT'' (seqs [word ''{'', Star (Cls False [rng CHR ''0'' CHR
        ''9'', rng CHR ''a'' CHR ''z'', rng CHR ''A'' CHR ''Z'', CR 95 95]), word ''.__'', oneof
        [''class'', ''dict'', ''mro'', ''bases'', ''subclasses'', ''globals'', ''init'',
        ''import'', ''builtins'', ''module''], WordB]),
      mk_rule ''DESER-JAVA-HEX'' (seqs [WordB, word ''aced'', Rep 4 (Cls False [rng CHR ''0''
        CHR ''9'', rng CHR ''a'' CHR ''f'']), AtLeast 2 (Cls False [rng CHR ''0'' CHR ''9'', rng
        CHR ''a'' CHR ''f''])]),
      mk_rule ''PROTO-POLLUTION-CHAIN'' (oneof [''constructor[prototype]'', ''[prototype]['']),
      mk_rule ''DEFAULT-CREDS-JSON'' (seqs [Chr 34, word ''password'', Chr 34, Star SP, word
        '':'', Star SP, Chr 34, oneof [''admin'', ''root'', ''password'', ''123456'', ''pass'',
        ''p@ssw0rd'', ''letmein'', ''welcome'', ''guest'', ''test'', ''qwerty'', ''abc123''],
        Chr 34]),
      mk_rule_cs ''NULL-BYTE-INJECT'' (alts [word ''%00'', Chr 0]),
      mk_rule ''PATH-TRAVERSAL-OVERLONG'' (oneof [''%c0%af'', ''%c1%9c'', ''%e0%80%af'',
        ''%c0%2f'', ''%c0%5c''])]"

definition HEURISTIC_PATTERNS :: "rule list" where
  "HEURISTIC_PATTERNS =
     HEURISTIC_FILES @
     HEURISTIC_RCE @
     HEURISTIC_SSRF_XXE @
     HEURISTIC_TEMPLATES @
     HEURISTIC_NOSQL_CMD @
     HEURISTIC_PROBES_LDAP @
     HEURISTIC_DESER_PROTO @
     HEURISTIC_CREDENTIALS @
     HEURISTIC_REST"

definition rule_matches :: "pystr \<Rightarrow> rule \<Rightarrow> bool" where
  "rule_matches t r = found (ru_ignorecase r) (ru_pattern r) t"

lemmas rule_tables =
  SQLI_PATTERNS_def XSS_PATTERNS_def HEURISTIC_PATTERNS_def
  HEURISTIC_FILES_def
  HEURISTIC_RCE_def
  HEURISTIC_SSRF_XXE_def
  HEURISTIC_TEMPLATES_def
  HEURISTIC_NOSQL_CMD_def
  HEURISTIC_PROBES_LDAP_def
  HEURISTIC_DESER_PROTO_def
  HEURISTIC_CREDENTIALS_def
  HEURISTIC_REST_def

text \<open>Every repeated part of every rule consumes a character.\<close>

lemma rules_loops_consume:
  "list_all (\<lambda>r. loops_consume (ru_pattern r)) (SQLI_PATTERNS @ XSS_PATTERNS @ HEURISTIC_PATTERNS)"
  by code_simp

subsection \<open>Scanning a text of several parts\<close>

text \<open>
  A list of rules is run over a text joined from parts. A rule is stable if what it finds in a part
  it finds in every text around the part. The contract and its consequence are stated once; the
  hard-coded rules meet it with the anchor-free patterns as the stable ones.
\<close>

locale segment_scanner =
  fixes rules :: "'r list"
    and matches :: "pystr \<Rightarrow> 'r \<Rightarrow> bool"
    and stable :: "'r \<Rightarrow> bool"
  assumes stable_padding: "r \<in> set rules \<Longrightarrow> stable r \<Longrightarrow> matches t r \<Longrightarrow> matches (a @ t @ b) r"
begin

lemma part_found:
  assumes "r \<in> set rules" "stable r" "matches t r" "t \<in> set parts"
  shows "first_match (matches (join_nonempty parts)) rules \<noteq> None"
proof -
  obtain a b where "join_nonempty parts = a @ t @ b" using join_nonempty_segment [OF assms(4)] by blast
  then have "matches (join_nonempty parts) r" using stable_padding [OF assms(1-3)] by simp
  then show ?thesis using assms(1) by (auto simp: first_match_None_iff)
qed

lemma segment_found:
  "r \<in> set rules \<Longrightarrow> stable r \<Longrightarrow> matches t r \<Longrightarrow> first_match (matches (a @ t @ b)) rules \<noteq> None"
  by (auto simp: first_match_None_iff dest: stable_padding)

end

definition rule_stable :: "rule \<Rightarrow> bool" where
  "rule_stable r = anchor_free (ru_pattern r)"

lemma rule_matches_padding: "rule_stable r \<Longrightarrow> rule_matches t r \<Longrightarrow> rule_matches (a @ t @ b) r"
  unfolding rule_stable_def rule_matches_def by (rule found_padding)

interpretation sqli_rules: segment_scanner SQLI_PATTERNS rule_matches rule_stable
  by unfold_locales (rule rule_matches_padding)

interpretation xss_rules: segment_scanner XSS_PATTERNS rule_matches rule_stable
  by unfold_locales (rule rule_matches_padding)

interpretation heuristic_rules: segment_scanner HEURISTIC_PATTERNS rule_matches rule_stable
  by unfold_locales (rule rule_matches_padding)

end
