(* ===== verification/CveSync.thy ===== *)
theory CveSync
  imports PyLib KeyTable
begin

text \<open>
  The feed synchronisation, \<open>server/app/cve_sync.py\<close>: the built-in patterns, the patterns made from the
  CISA, OSV and NVD feeds, and the table they are written to. A feed that could not be fetched is
  \<open>None\<close>; an absent JSON field is \<open>None\<close>. \<open>re.compile\<close> is the parameter \<open>valid\<close>.
\<close>

subsection \<open>Patterns and the built-in list\<close>

record feed_pattern =
  fp_cve_id :: pystr
  fp_name :: pystr
  fp_pattern :: pystr
  fp_flags :: pystr
  fp_severity :: pystr
  fp_cvss :: pyfloat
  fp_product :: pystr
  fp_source :: pystr
  fp_description :: pystr

definition tenths :: "int \<Rightarrow> pyfloat" where
  "tenths n = Fin (fl_quot n 10)"

definition HANDCRAFTED_PATTERNS :: "feed_pattern list" where
  "HANDCRAFTED_PATTERNS =
    [\<lparr>fp_cve_id = lit ''CVE-2021-44228'', fp_name = lit ''Log4Shell'',
       fp_pattern = [92] @ lit ''$'' @ [92] @ lit ''{jndi:(ldap|rmi|dns)://'',
       fp_flags = lit ''CASELESS'', fp_severity = lit ''CRITICAL'', fp_cvss = tenths 100, fp_product = lit ''Apache Log4j2'',
       fp_source = lit ''handcrafted'', fp_description = []\<rparr>,
     \<lparr>fp_cve_id = lit ''CVE-2021-45046'', fp_name = lit ''Log4Shell v2'',
       fp_pattern = [92] @ lit ''$'' @ [92] @ lit ''{.*jndi:.*://'',
       fp_flags = lit ''CASELESS'', fp_severity = lit ''CRITICAL'', fp_cvss = tenths 90, fp_product = lit ''Apache Log4j2'',
       fp_source = lit ''handcrafted'', fp_description = []\<rparr>,
     \<lparr>fp_cve_id = lit ''CVE-2014-6271'', fp_name = lit ''Shellshock'',
       fp_pattern = [92] @ lit ''('' @ [92] @ lit '')'' @ [92] @ lit ''s*'' @ [92] @ lit ''{'' @ [92] @ lit ''s*[^}]*'' @ [92] @ lit ''};'' @ [92] @ lit ''s*'',
       fp_flags = [], fp_severity = lit ''CRITICAL'', fp_cvss = tenths 100, fp_product = lit ''GNU Bash'',
       fp_source = lit ''handcrafted'', fp_description = []\<rparr>,
     \<lparr>fp_cve_id = lit ''CVE-2022-22965'', fp_name = lit ''Spring4Shell'',
       fp_pattern = lit ''class'' @ [92] @ lit ''.module'' @ [92] @ lit ''.classLoader'',
       fp_flags = lit ''CASELESS'', fp_severity = lit ''CRITICAL'', fp_cvss = tenths 98, fp_product = lit ''Spring Framework'',
       fp_source = lit ''handcrafted'', fp_description = []\<rparr>,
     \<lparr>fp_cve_id = lit ''CVE-2017-9841'', fp_name = lit ''PHPUnit RCE'',
       fp_pattern = lit ''vendor/phpunit/phpunit/src/Util/PHP/eval-stdin'' @ [92] @ lit ''.php'',
       fp_flags = lit ''CASELESS'', fp_severity = lit ''CRITICAL'', fp_cvss = tenths 98, fp_product = lit ''PHPUnit'',
       fp_source = lit ''handcrafted'', fp_description = []\<rparr>,
     \<lparr>fp_cve_id = lit ''CVE-2017-5638'', fp_name = lit ''Apache Struts2 OGNL'',
       fp_pattern = lit ''%'' @ [92] @ lit ''{.*'' @ [92] @ lit ''.getClass'' @ [92] @ lit ''('' @ [92] @ lit '')'' @ [92] @ lit ''.forName'' @ [92] @ lit ''(.*'' @ [92] @ lit '')'' @ [92] @ lit ''}|Content-Type:.*%'' @ [92] @ lit ''{'',
       fp_flags = lit ''CASELESS'', fp_severity = lit ''CRITICAL'', fp_cvss = tenths 100, fp_product = lit ''Apache Struts2'',
       fp_source = lit ''handcrafted'', fp_description = []\<rparr>,
     \<lparr>fp_cve_id = lit ''CVE-2021-26084'', fp_name = lit ''Confluence OGNL'',
       fp_pattern = [92] @ lit ''{[^}]*'' @ [92] @ lit ''.getClass'' @ [92] @ lit ''('' @ [92] @ lit '')'' @ [92] @ lit ''.forName'' @ [92] @ lit ''('',
       fp_flags = lit ''CASELESS'', fp_severity = lit ''CRITICAL'', fp_cvss = tenths 98, fp_product = lit ''Atlassian Confluence'',
       fp_source = lit ''handcrafted'', fp_description = []\<rparr>,
     \<lparr>fp_cve_id = lit ''GENERIC-SQLI'', fp_name = lit ''SQL Injection'',
       fp_pattern = lit ''(?i)(union'' @ [92] @ lit ''s+select|or'' @ [92] @ lit ''s+1'' @ [92] @ lit ''s*='' @ [92] @ lit ''s*1|;'' @ [92] @ lit ''s*drop'' @ [92] @ lit ''s+table|exec'' @ [92] @ lit ''s*xp_cmdshell)'',
       fp_flags = lit ''CASELESS'', fp_severity = lit ''HIGH'', fp_cvss = tenths 80, fp_product = lit ''generic'',
       fp_source = lit ''handcrafted'', fp_description = []\<rparr>,
     \<lparr>fp_cve_id = lit ''GENERIC-XSS'', fp_name = lit ''Cross-Site Scripting'',
       fp_pattern = lit ''<script[^>]*>|javascript:|on(?:load|error|click|mouseover)'' @ [92] @ lit ''s*='',
       fp_flags = lit ''CASELESS'', fp_severity = lit ''HIGH'', fp_cvss = tenths 75, fp_product = lit ''generic'',
       fp_source = lit ''handcrafted'', fp_description = []\<rparr>]"

subsection \<open>From product names to patterns\<close>

definition GENERIC_WORDS :: "pystr list" where
  "GENERIC_WORDS = map lit
      [''code'', ''core'', ''base'', ''host'', ''main'', ''type'', ''test'', ''data'', ''file'',
       ''user'', ''open'', ''http'', ''https'', ''html'', ''java'', ''linux'', ''ruby'', ''perl'',
       ''python'', ''golang'', ''swift'', ''rust'', ''node'', ''web'', ''net'', ''lib'', ''app'',
       ''api'', ''run'', ''get'', ''set'', ''new'', ''old'', ''via'', ''key'', ''out'', ''log'',
       ''use'', ''php'', ''all'', ''any'', ''some'', ''from'', ''this'', ''that'', ''with'',
       ''have'', ''been'', ''will'', ''more'', ''over'', ''into'', ''also'', ''back'', ''read'',
       ''write'', ''null'', ''true'', ''false'', ''none'', ''text'', ''name'', ''path'', ''home'',
       ''root'', ''version'', ''windows'', ''driver'', ''stack'', ''buffer'', ''overflow'',
       ''remote'', ''local'', ''server'', ''client'', ''system'', ''service'', ''manager'',
       ''module'', ''plugin'', ''package'', ''library'']"

definition GENERIC_FULL :: "pystr list" where
  "GENERIC_FULL = map lit ['''', ''n/a'', ''unknown'', ''various'', ''multiple'', ''all'']"

definition safe_char :: "int \<Rightarrow> bool" where
  "safe_char c \<longleftrightarrow> in_range 97 122 c \<or> in_range 48 57 c \<or> is_space c \<or> c = 95 \<or> c = 45"

definition trim_token :: "pystr \<Rightarrow> pystr" where
  "trim_token t = strip_by (\<lambda>c. c = 95 \<or> c = 45) t"

definition specific :: "pystr \<Rightarrow> bool" where
  "specific tok \<longleftrightarrow> 5 \<le> length tok \<and> tok \<notin> set GENERIC_WORDS"

definition name_tokens :: "pystr \<Rightarrow> pystr list" where
  "name_tokens combined = map trim_token (split_ws (strip (filter safe_char combined)))"

definition product_to_pattern :: "pystr \<Rightarrow> pystr \<Rightarrow> pystr option" where
  "product_to_pattern product vendor =
     (let combined = py_lower (strip (vendor @ [32] @ product))
      in if combined \<in> set GENERIC_FULL \<or> length combined < 4 then None
         else if strip (filter safe_char combined) = [] then None
         else map_option re_escape (first_match specific (name_tokens combined)))"

definition extract_nvd_product :: "pystr option list list \<Rightarrow> pystr" where
  "extract_nvd_product configs =
     (case first_some (first_some (\<lambda>criteria.
              let parts = split_on 58 (case criteria of None \<Rightarrow> [] | Some s \<Rightarrow> s)
              in if 5 \<le> length parts then Some (parts ! 4) else None)) configs of
        Some p \<Rightarrow> p
      | None \<Rightarrow> [])"

subsection \<open>The feeds\<close>

abbreviation field :: "pystr option \<Rightarrow> pystr \<Rightarrow> pystr" where
  "field x d \<equiv> (case x of None \<Rightarrow> d | Some t \<Rightarrow> t)"

record cisa_vuln =
  ci_id :: "pystr option"
  ci_product :: "pystr option"
  ci_vendor :: "pystr option"
  ci_name :: "pystr option"
  ci_short :: "pystr option"

definition cisa_pattern :: "cisa_vuln \<Rightarrow> feed_pattern option" where
  "cisa_pattern v =
     (let cve = field (ci_id v) []; product = field (ci_product v) []; vendor = field (ci_vendor v) []
      in if cve = [] then None
         else map_option (\<lambda>pat. \<lparr>fp_cve_id = cve, fp_name = field (ci_name v) cve, fp_pattern = pat,
                fp_flags = lit ''CASELESS'', fp_severity = lit ''HIGH'', fp_cvss = tenths 80,
                fp_product = strip (vendor @ [32] @ product), fp_source = lit ''cisa_kev'',
                fp_description = field (ci_short v) []\<rparr>)
              (product_to_pattern product vendor))"

record osv_vuln =
  ov_id :: "pystr option"
  ov_aliases :: "pystr list"
  ov_summary :: "pystr option"
  ov_details :: "pystr option"
  ov_scores :: "pystr option list"

definition OSV_TARGETS :: "pystr list" where
  "OSV_TARGETS = map lit [''nginx'', ''apache'', ''openssl'', ''php'', ''log4j-core'', ''spring-core'',
     ''struts2-core'', ''django'', ''flask'', ''express'']"

text \<open>The number the severity loop reads from a score text; \<open>None\<close> is the exception it swallows.\<close>

definition osv_score :: "pystr \<Rightarrow> pyfloat option" where
  "osv_score t =
     (if 47 \<notin> set t then py_float t
      else case cut_at (lit ''CVSS:'') t of
             None \<Rightarrow> None
           | Some (a, b) \<Rightarrow>
               py_float (before_first 47 (case cut_at (lit ''CVSS:'') b of None \<Rightarrow> b | Some (x, y) \<Rightarrow> x)))"

text \<open>Only the first entry of the severity list is looked at.\<close>

definition osv_severity :: "pystr option list \<Rightarrow> pystr \<times> pyfloat" where
  "osv_severity scores =
     (case scores of
        [] \<Rightarrow> (lit ''MEDIUM'', tenths 50)
      | t # rest \<Rightarrow>
          let cvss = (case osv_score (field t []) of None \<Rightarrow> tenths 50 | Some x \<Rightarrow> x)
          in (if float_ge cvss 9 then lit ''CRITICAL''
              else if float_ge cvss 7 then lit ''HIGH'' else lit ''MEDIUM'', cvss))"

definition osv_pattern :: "pystr \<Rightarrow> osv_vuln \<Rightarrow> feed_pattern option" where
  "osv_pattern target v =
     (let osv_id = field (ov_id v) []
      in if osv_id = [] then None
         else
           let cve = (case first_match (\<lambda>a. startswith a (lit ''CVE-'')) (ov_aliases v) of
                        None \<Rightarrow> osv_id | Some a \<Rightarrow> a);
               summary = field (ov_summary v) [];
               (severity, cvss) = osv_severity (ov_scores v)
           in case product_to_pattern target [] of
                None \<Rightarrow> None
              | Some pat \<Rightarrow>
                  if cve \<in> fp_cve_id ` set HANDCRAFTED_PATTERNS then None
                  else Some \<lparr>fp_cve_id = cve, fp_name = (if summary = [] then cve else take 120 summary),
                         fp_pattern = pat, fp_flags = lit ''CASELESS'', fp_severity = severity, fp_cvss = cvss,
                         fp_product = target, fp_source = lit ''osv'',
                         fp_description = take 512 (or_else summary (field (ov_details v) []))\<rparr>)"

record nvd_item =
  ni_id :: "pystr option"
  ni_descriptions :: "(pystr \<times> pystr) list"
  ni_metrics :: "(pystr \<times> pyfloat option list) list"
  ni_configs :: "pystr option list list"

text \<open>The base score of the first metric version present with a non-empty list.\<close>

definition nvd_cvss :: "(pystr \<times> pyfloat option list) list \<Rightarrow> pyfloat" where
  "nvd_cvss metrics =
     (case first_some (\<lambda>v. case map_of metrics v of
                 Some (s # rest) \<Rightarrow> Some (case s of None \<Rightarrow> Fin 0 | Some x \<Rightarrow> x)
               | _ \<Rightarrow> None)
             (map lit [''cvssMetricV31'', ''cvssMetricV30'', ''cvssMetricV2'']) of
        None \<Rightarrow> Fin 0
      | Some x \<Rightarrow> x)"

definition nvd_pattern :: "nvd_item \<Rightarrow> feed_pattern option" where
  "nvd_pattern item =
     (let cve = field (ni_id item) []; product = extract_nvd_product (ni_configs item);
          desc = (case first_match (\<lambda>d. snd d = lit ''en'') (ni_descriptions item) of None \<Rightarrow> [] | Some d \<Rightarrow> fst d)
      in if cve = [] then None
         else map_option (\<lambda>pat. \<lparr>fp_cve_id = cve, fp_name = cve, fp_pattern = pat,
                fp_flags = lit ''CASELESS'', fp_severity = lit ''CRITICAL'', fp_cvss = nvd_cvss (ni_metrics item),
                fp_product = product, fp_source = lit ''nvd'', fp_description = take 512 desc\<rparr>)
              (product_to_pattern product []))"

subsection \<open>The table\<close>

record cve_row =
  cv_id :: pystr
  cv_name :: pystr
  cv_description :: pystr
  cv_pattern :: pystr
  cv_flags :: pystr
  cv_severity :: pystr
  cv_cvss :: pyfloat
  cv_product :: pystr
  cv_active :: bool
  cv_source :: pystr
  cv_modified :: int

definition refresh_row :: "int \<Rightarrow> feed_pattern \<Rightarrow> cve_row \<Rightarrow> cve_row" where
  "refresh_row now p r = r\<lparr>cv_pattern := fp_pattern p, cv_severity := fp_severity p, cv_cvss := fp_cvss p,
     cv_active := True, cv_modified := now\<rparr>"

definition new_row :: "int \<Rightarrow> feed_pattern \<Rightarrow> cve_row" where
  "new_row now p = \<lparr>cv_id = fp_cve_id p, cv_name = fp_name p, cv_description = fp_description p,
     cv_pattern = fp_pattern p, cv_flags = fp_flags p, cv_severity = fp_severity p, cv_cvss = fp_cvss p,
     cv_product = fp_product p, cv_active = True, cv_source = fp_source p, cv_modified = now\<rparr>"

text \<open>\<open>SELECT \<dots> first()\<close>, then an update of that row or an insert.\<close>

fun upsert_row :: "int \<Rightarrow> feed_pattern \<Rightarrow> cve_row list \<Rightarrow> cve_row list" where
  "upsert_row now p [] = [new_row now p]"
| "upsert_row now p (r # rs) =
     (if cv_id r = fp_cve_id p then refresh_row now p r # rs else r # upsert_row now p rs)"

fun upsert_loop ::
  "(pystr \<Rightarrow> bool) \<Rightarrow> int \<Rightarrow> pystr list \<Rightarrow> feed_pattern list \<Rightarrow> cve_row list \<Rightarrow> nat \<times> cve_row list" where
  "upsert_loop valid now seen [] rows = (0, rows)"
| "upsert_loop valid now seen (p # ps) rows =
     (if fp_pattern p = [] \<or> fp_cve_id p = [] \<or> fp_cve_id p \<in> set seen then upsert_loop valid now seen ps rows
      else if \<not> valid (fp_pattern p) then upsert_loop valid now (fp_cve_id p # seen) ps rows
      else let (n, rows') = upsert_loop valid now (fp_cve_id p # seen) ps (upsert_row now p rows)
           in (Suc n, rows'))"

definition upsert_patterns :: "(pystr \<Rightarrow> bool) \<Rightarrow> int \<Rightarrow> feed_pattern list \<Rightarrow> cve_row list \<Rightarrow> nat \<times> cve_row list" where
  "upsert_patterns valid now ps rows = upsert_loop valid now [] ps rows"

definition sync_cisa_kev ::
  "(pystr \<Rightarrow> bool) \<Rightarrow> int \<Rightarrow> cisa_vuln list option \<Rightarrow> cve_row list \<Rightarrow> nat \<times> cve_row list" where
  "sync_cisa_kev valid now feed rows =
     (case feed of
        None \<Rightarrow> (0, rows)
      | Some vs \<Rightarrow> upsert_patterns valid now (List.map_filter cisa_pattern vs) rows)"

text \<open>One answer per target, in the order of \<open>OSV_TARGETS\<close>; a failed query is skipped.\<close>

definition sync_osv ::
  "(pystr \<Rightarrow> bool) \<Rightarrow> int \<Rightarrow> osv_vuln list option list \<Rightarrow> cve_row list \<Rightarrow> nat \<times> cve_row list" where
  "sync_osv valid now answers rows =
     upsert_patterns valid now
       (concat (map (\<lambda>(t, a). case a of None \<Rightarrow> [] | Some vs \<Rightarrow> List.map_filter (osv_pattern t) vs)
          (zip OSV_TARGETS answers))) rows"

definition sync_nvd ::
  "(pystr \<Rightarrow> bool) \<Rightarrow> int \<Rightarrow> nvd_item list option \<Rightarrow> cve_row list \<Rightarrow> nat \<times> cve_row list" where
  "sync_nvd valid now feed rows =
     (case feed of
        None \<Rightarrow> (0, rows)
      | Some vs \<Rightarrow> upsert_patterns valid now (List.map_filter nvd_pattern vs) rows)"

record feeds =
  fd_cisa :: "cisa_vuln list option"
  fd_osv :: "osv_vuln list option list"
  fd_nvd :: "nvd_item list option"

definition sync_all ::
  "(pystr \<Rightarrow> bool) \<Rightarrow> int \<Rightarrow> pystr \<Rightarrow> feeds \<Rightarrow> cve_row list \<Rightarrow> nat \<times> cve_row list" where
  "sync_all valid now nvd_api_key f rows =
     (let (a, rows) = upsert_patterns valid now HANDCRAFTED_PATTERNS rows;
          (b, rows) = sync_cisa_kev valid now (fd_cisa f) rows;
          (c, rows) = sync_osv valid now (fd_osv f) rows;
          (d, rows) = (if nvd_api_key = [] then (0, rows) else sync_nvd valid now (fd_nvd f) rows)
      in (a + b + c + d, rows))"

subsection \<open>The table as a map\<close>

definition lookup_cve :: "cve_row list \<Rightarrow> pystr \<Rightarrow> cve_row option" where
  "lookup_cve rows i = first_match (\<lambda>r. cv_id r = i) rows"

definition usable :: "pystr \<Rightarrow> feed_pattern \<Rightarrow> bool" where
  "usable i p \<longleftrightarrow> fp_pattern p \<noteq> [] \<and> fp_cve_id p \<noteq> [] \<and> fp_cve_id p = i"

text \<open>What an update does to the map: the first usable pattern of each identifier decides.\<close>

definition upsert_spec ::
  "(pystr \<Rightarrow> bool) \<Rightarrow> int \<Rightarrow> feed_pattern list \<Rightarrow> (pystr \<Rightarrow> cve_row option) \<Rightarrow> pystr \<Rightarrow> cve_row option" where
  "upsert_spec valid now ps m i =
     (case first_match (usable i) ps of
        None \<Rightarrow> m i
      | Some p \<Rightarrow>
          if \<not> valid (fp_pattern p) then m i
          else Some (case m i of None \<Rightarrow> new_row now p | Some r \<Rightarrow> refresh_row now p r))"

lemma refresh_id [simp]: "cv_id (refresh_row now p r) = cv_id r"
  by (simp add: refresh_row_def)

lemma new_row_id [simp]: "cv_id (new_row now p) = fp_cve_id p"
  by (simp add: new_row_def)

lemma lookup_upsert_row:
  "lookup_cve (upsert_row now p rows) i =
     (if i = fp_cve_id p then Some (case lookup_cve rows i of None \<Rightarrow> new_row now p | Some r \<Rightarrow> refresh_row now p r)
      else lookup_cve rows i)"
  by (induction rows) (auto simp: lookup_cve_def)

lemma ids_upsert_row:
  "map cv_id (upsert_row now p rows) =
     map cv_id rows @ (if fp_cve_id p \<in> cv_id ` set rows then [] else [fp_cve_id p])"
  by (induction rows) auto

interpretation cve_ids: key_order "upsert_row now" fp_cve_id "map cv_id" for now
  by unfold_locales (simp add: ids_upsert_row)

lemma upsert_spec_at: "m i = m' i \<Longrightarrow> upsert_spec valid now ps m i = upsert_spec valid now ps m' i"
  by (simp add: upsert_spec_def split: option.split)

lemma upsert_spec_Cons:
  "upsert_spec valid now (p # ps) m i =
     (if \<not> usable i p then upsert_spec valid now ps m i
      else if \<not> valid (fp_pattern p) then m i
      else Some (case m i of None \<Rightarrow> new_row now p | Some r \<Rightarrow> refresh_row now p r))"
  by (simp add: upsert_spec_def)

lemma upsert_loop_lookup:
  "lookup_cve (snd (upsert_loop valid now seen ps rows)) i =
     (if i \<in> set seen then lookup_cve rows i else upsert_spec valid now ps (lookup_cve rows) i)"
proof (induction valid now seen ps rows rule: upsert_loop.induct)
  case (2 valid now seen p ps rows)
  show ?case
  proof (cases "fp_pattern p = [] \<or> fp_cve_id p = [] \<or> fp_cve_id p \<in> set seen")
    case True
    with 2(1) show ?thesis by (auto simp: upsert_spec_Cons usable_def)
  next
    case False
    then have u: "usable i p \<longleftrightarrow> i = fp_cve_id p" by (auto simp: usable_def)
    show ?thesis
    proof (cases "valid (fp_pattern p)")
      case True
      have "upsert_spec valid now ps (lookup_cve (upsert_row now p rows)) i = upsert_spec valid now ps (lookup_cve rows) i"
        if "i \<noteq> fp_cve_id p" using that by (intro upsert_spec_at) (simp add: lookup_upsert_row)
      with True False u 2(3) [OF False] show ?thesis
        by (auto simp: upsert_spec_Cons split_beta Let_def lookup_upsert_row)
    next
      case invalid: False
      with False u 2(2) [OF False] show ?thesis by (auto simp: upsert_spec_Cons)
    qed
  qed
qed (simp add: upsert_spec_def)

lemma upsert_loop_ids:
  "distinct (map cv_id rows) \<Longrightarrow> distinct (map cv_id (snd (upsert_loop valid now seen ps rows)))"
proof (induction valid now seen ps rows rule: upsert_loop.induct)
  case (2 valid now seen p ps rows)
  have "distinct (map cv_id (upsert_row now p rows))" using 2(4) by (rule cve_ids.distinct_put)
  with 2 show ?case by (auto simp: split_beta Let_def)
qed simp

lemma upsert_loop_count:
  "fst (upsert_loop valid now seen ps rows) =
     card {i. i \<notin> set seen \<and> (\<exists>p. first_match (usable i) ps = Some p \<and> valid (fp_pattern p))} \<and>
   finite {i. i \<notin> set seen \<and> (\<exists>p. first_match (usable i) ps = Some p \<and> valid (fp_pattern p))}"
proof (induction valid now seen ps rows rule: upsert_loop.induct)
  case (2 valid now seen p ps rows)
  let ?S = "\<lambda>seen ps. {i. i \<notin> set seen \<and> (\<exists>p. first_match (usable i) ps = Some p \<and> valid (fp_pattern p))}"
  show ?case
  proof (cases "fp_pattern p = [] \<or> fp_cve_id p = [] \<or> fp_cve_id p \<in> set seen")
    case True
    then have "?S seen (p # ps) = ?S seen ps" by (auto simp: usable_def)
    with True 2(1) show ?thesis by simp
  next
    case False
    let ?i = "fp_cve_id p"
    have rest: "?S seen (p # ps) = (if valid (fp_pattern p) then insert ?i (?S (?i # seen) ps) else ?S (?i # seen) ps)"
      using False by (auto simp: usable_def split: if_splits)
    show ?thesis
    proof (cases "valid (fp_pattern p)")
      case True
      have "?i \<notin> ?S (?i # seen) ps" by simp
      with 2(3) [OF False] True False show ?thesis unfolding rest by (simp add: split_beta Let_def)
    next
      case invalid: False
      with 2(2) [OF False] False show ?thesis unfolding rest by simp
    qed
  qed
qed simp

subsection \<open>The words of a name\<close>

lemma split_ws_blank: "\<forall>c \<in> set s. is_space c \<Longrightarrow> split_ws s = []"
  by (subst split_ws.simps) (simp add: dropWhile_eq_Nil_conv)

lemma split_ws_blank_prefix: "\<forall>c \<in> set w. is_space c \<Longrightarrow> split_ws (w @ s) = split_ws s"
  by (subst (1 2) split_ws.simps) (simp add: dropWhile_append2)

lemma split_ws_append:
  assumes "b = [] \<or> is_space (hd b)"
  shows "split_ws (a @ b) = split_ws a @ split_ws b"
proof (induction a rule: split_ws.induct)
  case (1 a)
  let ?t = "dropWhile is_space a" and ?word = "\<lambda>c. \<not> is_space c"
  show ?case
  proof (cases "?t = []")
    case True
    then have "\<forall>c \<in> set a. is_space c" by (simp add: dropWhile_eq_Nil_conv)
    then show ?thesis by (simp add: split_ws_blank split_ws_blank_prefix)
  next
    case False
    have t: "dropWhile is_space (a @ b) = ?t @ b" using False by (auto simp: dropWhile_append)
    have w: "takeWhile ?word (?t @ b) = takeWhile ?word ?t \<and> dropWhile ?word (?t @ b) = dropWhile ?word ?t @ b"
      using assms by (cases b) (auto simp: takeWhile_append dropWhile_append intro: takeWhile_eq_all_conv [THEN iffD2, symmetric])
    have "split_ws (a @ b) = takeWhile ?word ?t # split_ws (dropWhile ?word ?t @ b)"
      using False t w by (subst split_ws.simps) (simp add: Let_def)
    also have "\<dots> = takeWhile ?word ?t # split_ws (dropWhile ?word ?t) @ split_ws b"
      using 1 [OF refl False] by simp
    also have "\<dots> = split_ws a @ split_ws b"
      using False by (subst (2) split_ws.simps) (simp add: Let_def)
    finally show ?thesis .
  qed
qed

lemma split_ws_blank_suffix: "\<forall>c \<in> set w. is_space c \<Longrightarrow> split_ws (s @ w) = split_ws s"
  by (cases w) (simp_all add: split_ws_append split_ws_blank)

lemma strip_parts: "\<exists>u w. s = u @ strip s @ w \<and> (\<forall>c \<in> set u. is_space c) \<and> (\<forall>c \<in> set w. is_space c)"
proof -
  let ?u = "takeWhile is_space s" and ?d = "dropWhile is_space s"
  let ?w = "rev (takeWhile is_space (rev ?d))"
  have "?d = rev (dropWhile is_space (rev ?d)) @ ?w" by (metis rev_append rev_rev_ident takeWhile_dropWhile_id)
  then have "s = ?u @ strip s @ ?w" unfolding strip_def strip_by_def by (metis takeWhile_dropWhile_id)
  moreover have "\<forall>c \<in> set ?u. is_space c" "\<forall>c \<in> set ?w. is_space c" by (auto dest: set_takeWhileD)
  ultimately show ?thesis by blast
qed

definition words_of :: "pystr \<Rightarrow> pystr list" where
  "words_of s = split_ws (filter safe_char (py_lower s))"

lemma sanitized_space: "\<forall>c \<in> set s. is_space c \<Longrightarrow> \<forall>c \<in> set (filter safe_char (py_lower s)). is_space c"
proof -
  have "is_space c \<Longrightarrow> \<forall>d \<in> set (lower_cp c). is_space d" for c
    by (auto simp: is_space_def lower_cp_def)
  then show "\<forall>c \<in> set s. is_space c \<Longrightarrow> \<forall>c \<in> set (filter safe_char (py_lower s)). is_space c"
    by (fastforce simp: py_lower_def)
qed

lemma words_of_strip: "words_of (strip s) = words_of s"
proof -
  obtain u w where s: "s = u @ strip s @ w" "\<forall>c \<in> set u. is_space c" "\<forall>c \<in> set w. is_space c"
    using strip_parts by blast
  have "words_of s = words_of (u @ strip s @ w)" using s(1) by simp
  also have "\<dots> = words_of (strip s)"
    unfolding words_of_def
    by (simp add: py_lower_append split_ws_blank_prefix sanitized_space [OF s(2)] split_ws_blank_suffix sanitized_space [OF s(3)])
  finally show ?thesis by simp
qed

lemma words_of_append: "words_of (a @ [32] @ b) = words_of a @ words_of b"
proof -
  have "py_lower [32] = [32]" by (simp add: py_lower_def lower_cp_def)
  then have "words_of (a @ [32] @ b) = split_ws (filter safe_char (py_lower a) @ 32 # filter safe_char (py_lower b))"
    by (simp add: words_of_def py_lower_append [of a] py_lower_append [of "[32]" b, simplified] safe_char_def is_space_def)
  also have "\<dots> = words_of a @ split_ws ([32] @ filter safe_char (py_lower b))"
    by (simp add: split_ws_append is_space_def words_of_def)
  also have "split_ws ([32] @ filter safe_char (py_lower b)) = words_of b"
    unfolding words_of_def by (rule split_ws_blank_prefix) (simp add: is_space_def)
  finally show ?thesis .
qed

lemma strip_empty: "strip s = [] \<longleftrightarrow> split_ws s = []"
proof
  assume "strip s = []"
  then have "\<forall>c \<in> set s. is_space c" using strip_parts [of s] by auto
  then show "split_ws s = []" by (rule split_ws_blank)
next
  assume "split_ws s = []"
  then have "dropWhile is_space s = []" by (subst (asm) split_ws.simps) (auto simp: Let_def split: if_splits)
  then show "strip s = []" unfolding strip_def strip_by_def by (metis dropWhile.simps(1) rev.simps(1))
qed

lemma split_ws_strip: "split_ws (strip s) = split_ws s"
proof -
  obtain u w where s: "s = u @ strip s @ w" "\<forall>c \<in> set u. is_space c" "\<forall>c \<in> set w. is_space c"
    using strip_parts by blast
  have "split_ws s = split_ws (u @ strip s @ w)" using s(1) by simp
  then show ?thesis using s(2,3) by (simp add: split_ws_blank_prefix split_ws_blank_suffix)
qed

text \<open>The pattern of a name, from the words of the vendor followed by those of the product.\<close>

lemma product_to_pattern_words:
  "product_to_pattern product vendor =
     (let combined = py_lower (strip (vendor @ [32] @ product))
      in if combined \<in> set GENERIC_FULL \<or> length combined < 4 then None
         else map_option re_escape (first_match specific (map trim_token (words_of vendor @ words_of product))))"
proof -
  let ?c = "py_lower (strip (vendor @ [32] @ product))"
  have w: "split_ws (filter safe_char ?c) = words_of vendor @ words_of product"
    using words_of_strip [of "vendor @ [32] @ product"] words_of_append [of vendor product] by (simp add: words_of_def)
  then have "name_tokens ?c = map trim_token (words_of vendor @ words_of product)"
    by (simp add: name_tokens_def split_ws_strip)
  moreover have "strip (filter safe_char ?c) = [] \<Longrightarrow> words_of vendor @ words_of product = []"
    using strip_empty w by simp
  ultimately show ?thesis by (auto simp: product_to_pattern_def Let_def)
qed

subsection \<open>Properties\<close>

text \<open>
  C21: The update loop implements an override of the signature map: for every identifier the first
  non-empty pattern of the batch decides, it refreshes the old row or adds a new one when it
  compiles and changes nothing when it does not; all other identifiers keep their rows, no identifier
  gets two rows, and the count returned is the number of identifiers written.
\<close>

theorem cve_upsert_refines:
  assumes "distinct (map cv_id rows)" "upsert_patterns valid now ps rows = (n, rows')"
  shows "lookup_cve rows' = upsert_spec valid now ps (lookup_cve rows) \<and>
    distinct (map cv_id rows') \<and>
    n = card {i. \<exists>p. first_match (usable i) ps = Some p \<and> valid (fp_pattern p)}"
proof -
  have r: "rows' = snd (upsert_loop valid now [] ps rows)" "n = fst (upsert_loop valid now [] ps rows)"
    using assms(2) by (simp_all add: upsert_patterns_def)
  have "lookup_cve rows' = upsert_spec valid now ps (lookup_cve rows)"
    unfolding r(1) by (rule ext) (simp add: upsert_loop_lookup)
  moreover have "distinct (map cv_id rows')" unfolding r(1) by (rule upsert_loop_ids) (rule assms(1))
  moreover have "n = card {i. \<exists>p. first_match (usable i) ps = Some p \<and> valid (fp_pattern p)}"
    using upsert_loop_count [of valid now "[]" ps rows] r(2) by simp
  ultimately show ?thesis by blast
qed

definition log4shell_id :: pystr where
  "log4shell_id = lit ''CVE-2021-44228''"

theorem cve_upsert_refines_witness:
  "map_option cv_pattern (lookup_cve (snd (upsert_patterns (\<lambda>p. True) 5 HANDCRAFTED_PATTERNS [])) log4shell_id) =
     Some ([92] @ lit ''$'' @ [92] @ lit ''{jndi:(ldap|rmi|dns)://'')"
proof -
  obtain n rows' where u: "upsert_patterns (\<lambda>p. True) 5 HANDCRAFTED_PATTERNS [] = (n, rows')" by (metis surj_pair)
  have "lookup_cve rows' log4shell_id = upsert_spec (\<lambda>p. True) 5 HANDCRAFTED_PATTERNS (lookup_cve []) log4shell_id"
    using cve_upsert_refines [OF _ u] by simp
  moreover have "map_option cv_pattern (upsert_spec (\<lambda>p. True) 5 HANDCRAFTED_PATTERNS (lookup_cve []) log4shell_id) =
      Some ([92] @ lit ''$'' @ [92] @ lit ''{jndi:(ldap|rmi|dns)://'')" by code_simp
  ultimately show ?thesis using u by simp
qed

lemma upsert_patterns_lookup:
  "lookup_cve (snd (upsert_patterns valid now ps rows)) i = upsert_spec valid now ps (lookup_cve rows) i"
  by (simp add: upsert_patterns_def upsert_loop_lookup)

lemma osv_not_handcrafted: "osv_pattern t v = Some p \<Longrightarrow> fp_cve_id p \<notin> fp_cve_id ` set HANDCRAFTED_PATTERNS"
  by (auto simp: osv_pattern_def Let_def split_beta split: if_splits option.splits)

lemma osv_keeps_handcrafted:
  assumes "i \<in> fp_cve_id ` set HANDCRAFTED_PATTERNS"
  shows "lookup_cve (snd (sync_osv valid now answers rows)) i = lookup_cve rows i"
proof -
  let ?ps = "concat (map (\<lambda>(t, a). case a of None \<Rightarrow> [] | Some vs \<Rightarrow> List.map_filter (osv_pattern t) vs)
      (zip OSV_TARGETS answers))"
  have "fp_cve_id p \<notin> fp_cve_id ` set HANDCRAFTED_PATTERNS" if "p \<in> set ?ps" for p
    using that osv_not_handcrafted by (fastforce simp: List.map_filter_def split: option.splits)
  then have "first_match (usable i) ?ps = None"
    using assms by (auto simp: scan_simps usable_def)
  then show ?thesis by (simp add: sync_osv_def upsert_patterns_lookup upsert_spec_def)
qed

text \<open>
  The CISA feed replaces the hand-written patterns: after a synchronisation in which the CISA
  catalogue lists the identifier of a built-in pattern (and NVD is not configured, the default), the
  stored pattern of that identifier is the one made from the vendor and product names and its
  severity is HIGH, while flags, name and source are still those of the row that was there.
\<close>

theorem cve_cisa_overwrites_handcrafted:
  assumes "h \<in> set HANDCRAFTED_PATTERNS" "fd_cisa f = Some vs"
    and "first_match (usable (fp_cve_id h)) (List.map_filter cisa_pattern vs) = Some p" "valid (fp_pattern p)"
  shows "\<exists>r. lookup_cve (snd (sync_all valid now [] f rows)) (fp_cve_id h) = Some r \<and>
    cv_pattern r = fp_pattern p \<and> cv_severity r = fp_severity p \<and>
    (\<forall>r0. lookup_cve (snd (upsert_patterns valid now HANDCRAFTED_PATTERNS rows)) (fp_cve_id h) = Some r0 \<longrightarrow>
       cv_flags r = cv_flags r0 \<and> cv_name r = cv_name r0 \<and> cv_source r = cv_source r0)"
proof -
  let ?rows1 = "snd (upsert_patterns valid now HANDCRAFTED_PATTERNS rows)"
  have "snd (sync_all valid now [] f rows) =
      snd (sync_osv valid now (fd_osv f) (snd (sync_cisa_kev valid now (Some vs) ?rows1)))"
    by (simp add: sync_all_def assms(2) split_beta Let_def)
  then have "lookup_cve (snd (sync_all valid now [] f rows)) (fp_cve_id h) =
      lookup_cve (snd (sync_cisa_kev valid now (Some vs) ?rows1)) (fp_cve_id h)"
    using assms(1) by (simp add: osv_keeps_handcrafted)
  also have "\<dots> = Some (case lookup_cve ?rows1 (fp_cve_id h) of None \<Rightarrow> new_row now p | Some r \<Rightarrow> refresh_row now p r)"
    using assms(3,4) by (simp add: sync_cisa_kev_def upsert_patterns_lookup upsert_spec_def)
  finally show ?thesis
    by (auto simp: refresh_row_def new_row_def split: option.split)
qed

definition kev_log4j :: cisa_vuln where
  "kev_log4j = \<lparr>ci_id = Some log4shell_id, ci_product = Some (lit ''Log4j2''), ci_vendor = Some (lit ''Apache''),
     ci_name = Some (lit ''Apache Log4j2 Remote Code Execution Vulnerability''), ci_short = None\<rparr>"

theorem cve_cisa_overwrites_handcrafted_witness:
  "map_option cv_pattern (lookup_cve (snd (sync_all (\<lambda>p. True) 5 [] \<lparr>fd_cisa = Some [kev_log4j], fd_osv = [], fd_nvd = None\<rparr> []))
     log4shell_id) = Some (lit ''apache'')"
proof -
  have "\<exists>p. first_match (usable log4shell_id) (List.map_filter cisa_pattern [kev_log4j]) = Some p \<and> fp_pattern p = lit ''apache''"
  proof -
    have "map_option fp_pattern (first_match (usable log4shell_id) (List.map_filter cisa_pattern [kev_log4j])) = Some (lit ''apache'')"
      by code_simp
    then show ?thesis by auto
  qed
  then obtain p where p: "first_match (usable log4shell_id) (List.map_filter cisa_pattern [kev_log4j]) = Some p"
    "fp_pattern p = lit ''apache''" by blast
  have h: "hd HANDCRAFTED_PATTERNS \<in> set HANDCRAFTED_PATTERNS" "fp_cve_id (hd HANDCRAFTED_PATTERNS) = log4shell_id"
    by (simp_all add: HANDCRAFTED_PATTERNS_def log4shell_id_def)
  show ?thesis
    using cve_cisa_overwrites_handcrafted [OF h(1), of "\<lparr>fd_cisa = Some [kev_log4j], fd_osv = [], fd_nvd = None\<rparr>"
      "[kev_log4j]" p "\<lambda>p. True" 5 "[]"] p h(2) by auto
qed

lemma first_match_map: "first_match P (map f xs) = map_option f (first_match (P o f) xs)"
  by (induction xs) auto

lemma split_ws_word_length: "t \<in> set (split_ws s) \<Longrightarrow> length t \<le> length s"
proof (induction s rule: split_ws.induct)
  case (1 s)
  let ?t = "dropWhile is_space s" and ?word = "\<lambda>c. \<not> is_space c"
  have le: "length ?t \<le> length s" by (rule length_dropWhile_le)
  have "split_ws s = (if ?t = [] then [] else takeWhile ?word ?t # split_ws (dropWhile ?word ?t))"
    by (subst split_ws.simps) (simp add: Let_def)
  with "1.prems" have "?t \<noteq> []" and "t = takeWhile ?word ?t \<or> t \<in> set (split_ws (dropWhile ?word ?t))"
    by (auto split: if_splits)
  then show ?case
  proof (elim disjE)
    assume "t = takeWhile ?word ?t"
    then show ?thesis using length_takeWhile_le [of ?word ?t] le by simp
  next
    assume "t \<in> set (split_ws (dropWhile ?word ?t))"
    then show ?thesis
      using "1.IH" [OF refl \<open>?t \<noteq> []\<close>] length_dropWhile_le [of ?word ?t] le by simp
  qed
qed

lemma trim_token_length: "length (trim_token t) \<le> length t"
  unfolding trim_token_def strip_by_def
  by (metis (no_types, lifting) length_dropWhile_le length_rev order_trans)

text \<open>
  The vendor decides: when the vendor's name contains a word that is specific enough, every product
  of that vendor gets the same pattern, the escaped word, whatever the product is called; only a vendor
  without such a word lets the product's name decide.
\<close>

theorem cve_vendor_decides_pattern:
  assumes "first_match specific (map trim_token (words_of vendor)) = Some tok" "words_of product \<noteq> []"
  shows "product_to_pattern product vendor = Some (re_escape tok)"
proof -
  let ?c = "py_lower (strip (vendor @ [32] @ product))"
  have w: "split_ws (filter safe_char ?c) = words_of vendor @ words_of product"
    using words_of_strip [of "vendor @ [32] @ product"] words_of_append [of vendor product] by (simp add: words_of_def)
  obtain t where t: "t \<in> set (words_of vendor)" "tok = trim_token t" "specific tok"
    using first_match_SomeD [OF assms(1)] by auto
  have "length t \<le> length ?c"
  proof -
    have "t \<in> set (split_ws (filter safe_char ?c))" using t(1) w by simp
    then have "length t \<le> length (filter safe_char ?c)" by (rule split_ws_word_length)
    also have "\<dots> \<le> length ?c" by (rule length_filter_le)
    finally show ?thesis .
  qed
  then have "5 \<le> length ?c" using t trim_token_length [of t] by (simp add: specific_def)
  moreover have "?c \<notin> set GENERIC_FULL"
  proof
    assume "?c \<in> set GENERIC_FULL"
    moreover have "\<forall>g \<in> set GENERIC_FULL. length (split_ws (filter safe_char g)) \<le> 1" by code_simp
    ultimately have "length (words_of vendor) + length (words_of product) \<le> 1" using w by (metis length_append)
    moreover have "words_of vendor \<noteq> []" using t(1) by auto
    ultimately show False using assms(2) by (cases "words_of vendor"; cases "words_of product") auto
  qed
  ultimately show ?thesis
    using assms(1) by (simp add: product_to_pattern_words Let_def first_match_append)
qed

theorem cve_vendor_decides_pattern_witness:
  "product_to_pattern (lit ''Windows DNS'') (lit ''Microsoft'') = product_to_pattern (lit ''Office'') (lit ''Microsoft'')"
proof -
  have v: "first_match specific (map trim_token (words_of (lit ''Microsoft''))) = Some (lit ''microsoft'')" by code_simp
  have "words_of (lit ''Windows DNS'') \<noteq> []" "words_of (lit ''Office'') \<noteq> []" by code_simp+
  with cve_vendor_decides_pattern [OF v, of "lit ''Windows DNS''"] cve_vendor_decides_pattern [OF v, of "lit ''Office''"]
  show ?thesis by simp
qed

lemma cut_at_later:
  assumes "\<And>k. k < length a \<Longrightarrow> \<not> startswith (drop k (a @ s)) p"
  shows "cut_at p (a @ s) = map_option (map_prod ((@) a) id) (cut_at p s)"
  using assms
proof (induction a)
  case Nil
  then show ?case by (cases "cut_at p s") auto
next
  case (Cons c a)
  have n: "\<not> startswith (c # a @ s) p" using Cons.prems [of 0] by simp
  have "\<not> startswith (drop k (a @ s)) p" if "k < length a" for k
    using Cons.prems [of "Suc k"] that by simp
  with Cons.IH have "cut_at p (a @ s) = map_option (map_prod ((@) a) id) (cut_at p s)" by blast
  with n show ?case by (cases "cut_at p s") auto
qed

text \<open>
  The severity of an OSV entry is read from the version of its vector: for a score text in the form
  the feed uses, \<open>CVSS:\<close>, the version, a slash and the vector, the number stored as the base score is the
  version and the severity is MEDIUM, however severe the vulnerability is.
\<close>

theorem cve_osv_vector_is_medium:
  assumes "version \<in> set (map lit [''3.0'', ''3.1'', ''4.0''])"
  shows "osv_severity (Some (lit ''CVSS:'' @ version @ 47 # vector) # rest) =
    (lit ''MEDIUM'', Fin (fl_quot (dec_value [hd version, last version]) 10))"
proof -
  have v: "version \<noteq> []" "hd version \<in> {51, 52}" "length version = 3" "47 \<notin> set version" "67 \<notin> set version"
    using assms by (auto simp: lit_def)
  have f: "py_float version = Some (Fin (fl_quot (dec_value [hd version, last version]) 10)) \<and>
      \<not> float_ge (Fin (fl_quot (dec_value [hd version, last version]) 10)) 9 \<and>
      \<not> float_ge (Fin (fl_quot (dec_value [hd version, last version]) 10)) 7"
  proof -
    have "\<forall>w \<in> set (map lit [''3.0'', ''3.1'', ''4.0'']).
        py_float w = Some (Fin (fl_quot (dec_value [hd w, last w]) 10)) \<and>
        \<not> float_ge (Fin (fl_quot (dec_value [hd w, last w]) 10)) 9 \<and>
        \<not> float_ge (Fin (fl_quot (dec_value [hd w, last w]) 10)) 7" by code_simp
    with assms show ?thesis by blast
  qed
  let ?b = "version @ 47 # vector"
  have c1: "cut_at (lit ''CVSS:'') (lit ''CVSS:'' @ ?b) = Some ([], ?b)"
    by (simp add: lit_def startswith_def)
  have c2: "before_first 47 (case cut_at (lit ''CVSS:'') ?b of None \<Rightarrow> ?b | Some (x, y) \<Rightarrow> x) = version"
  proof -
    have ns: "\<not> startswith (drop k ((version @ [47]) @ vector)) (lit ''CVSS:'')" if "k < length (version @ [47])" for k
    proof -
      have "drop k ((version @ [47]) @ vector) = (version @ [47]) ! k # drop (Suc k) ((version @ [47]) @ vector)"
        using that by (metis Cons_nth_drop_Suc length_append nth_append trans_less_add1)
      moreover have "(version @ [47]) ! k \<noteq> 67"
      proof -
        have "(version @ [47]) ! k \<in> set (version @ [47])" using that by (rule nth_mem)
        moreover have "67 \<notin> set (version @ [47])" using v(5) by simp
        ultimately show ?thesis by metis
      qed
      ultimately show ?thesis by (simp add: startswith_def lit_def)
    qed
    have "cut_at (lit ''CVSS:'') ?b = map_option (map_prod ((@) (version @ [47])) id) (cut_at (lit ''CVSS:'') vector)"
      using cut_at_later [OF ns] by simp
    then show ?thesis
      using v(4) by (cases "cut_at (lit ''CVSS:'') vector") (auto simp: before_first_simps)
  qed
  have "47 \<in> set (lit ''CVSS:'' @ ?b)" by simp
  then have "osv_score (lit ''CVSS:'' @ ?b) = py_float version"
    unfolding osv_score_def c1 using c2 by simp
  with f show ?thesis by (simp add: osv_severity_def)
qed

theorem cve_osv_vector_is_medium_witness:
  "osv_severity [Some (lit ''CVSS:3.1/AV:N/AC:L/PR:N/UI:N/S:C/C:H/I:H/A:H'')] = (lit ''MEDIUM'', tenths 31)"
proof -
  let ?v = "lit ''AV:N/AC:L/PR:N/UI:N/S:C/C:H/I:H/A:H''"
  have e: "lit ''CVSS:3.1/AV:N/AC:L/PR:N/UI:N/S:C/C:H/I:H/A:H'' = lit ''CVSS:'' @ lit ''3.1'' @ 47 # ?v"
    by (simp add: lit_def)
  have d: "dec_value [hd (lit ''3.1''), last (lit ''3.1'')] = 31" by code_simp
  have "lit ''3.1'' \<in> set (map lit [''3.0'', ''3.1'', ''4.0''])" by simp
  note r = cve_osv_vector_is_medium [OF this, of ?v "[]"]
  show ?thesis unfolding e tenths_def using r unfolding d .
qed

end
