(* ===== verification/ServerDb.thy ===== *)
theory ServerDb
  imports Auth CveSync
begin

text \<open>
  The server's tables and the routers over them: agents (\<open>routers/agents.py\<close>), telemetry ingestion
  (\<open>routers/telemetry.py\<close>), signature updates (\<open>routers/updates.py\<close>) and statistics
  (\<open>routers/stats.py\<close>). A handler that depends on \<open>verify_api_key\<close> gets its result as the argument
  \<open>auth\<close>. Constraints are those \<open>models.py\<close> declares: primary keys, and the foreign key from events to
  agents. The measured numbers \<open>ml_score\<close> and \<open>latency_ms\<close> of an event are not kept.
\<close>

subsection \<open>Tables\<close>

record agent_row =
  ag_hostname :: pystr
  ag_ip :: pystr
  ag_server_type :: pystr
  ag_version :: pystr
  ag_mode :: pystr
  ag_api_key_hash :: pystr
  ag_last_seen :: "int option"
  ag_last_cve_sync :: "int option"
  ag_created :: int

record event_row =
  er_agent_id :: pystr
  er_client_ip :: pystr
  er_method :: pystr
  er_uri :: pystr
  er_action :: pystr
  er_tier :: int
  er_cve_id :: pystr
  er_rule_name :: pystr
  er_reason :: pystr
  er_created :: int

record event_db =
  ed_agents :: "(pystr \<times> agent_row) list"
  ed_events :: "(pystr \<times> event_row) list"

text \<open>Update of the row with one primary key.\<close>

definition update_row :: "'k \<Rightarrow> ('v \<Rightarrow> 'v) \<Rightarrow> ('k \<times> 'v) list \<Rightarrow> ('k \<times> 'v) list" where
  "update_row k f t = map (\<lambda>(i, x). (i, if i = k then f x else x)) t"

text \<open>A commit of new events: all of them or, when a key is taken or an agent is missing, none.\<close>

definition commit_events :: "(pystr \<times> event_row) list \<Rightarrow> event_db \<Rightarrow> event_db result" where
  "commit_events evs db =
     (if distinct (map fst evs) \<and> (\<forall>(i, e) \<in> set evs. map_of (ed_events db) i = None \<and>
          map_of (ed_agents db) (er_agent_id e) \<noteq> None)
      then Inr (db\<lparr>ed_events := ed_events db @ evs\<rparr>)
      else Inl IntegrityError)"

subsection \<open>Agents\<close>

record register_request =
  rg_agent_id :: pystr
  rg_hostname :: pystr
  rg_ip :: "pystr option"
  rg_server_type :: pystr
  rg_version :: "pystr option"
  rg_api_key :: pystr

text \<open>\<open>register_agent\<close> has no credentials dependency.\<close>

definition register_agent ::
  "auth_lib \<Rightarrow> settings \<Rightarrow> int \<Rightarrow> register_request \<Rightarrow> event_db \<Rightarrow> (pystr \<times> agent_row) http \<times> event_db" where
  "register_agent lib st now q db =
     (case map_of (ed_agents db) (rg_agent_id q) of
        Some a \<Rightarrow> (Inl 409, db)
      | None \<Rightarrow>
          let row = \<lparr>ag_hostname = rg_hostname q, ag_ip = text_or (rg_ip q) [],
                     ag_server_type = rg_server_type q, ag_version = text_or (rg_version q) [],
                     ag_mode = lit ''shadow'', ag_api_key_hash = hash_api_key lib st (rg_api_key q),
                     ag_last_seen = None, ag_last_cve_sync = None, ag_created = now\<rparr>
          in (Inr (rg_agent_id q, row), db\<lparr>ed_agents := ed_agents db @ [(rg_agent_id q, row)]\<rparr>))"

definition list_agents :: "pystr http \<Rightarrow> event_db \<Rightarrow> (pystr \<times> agent_row) list http" where
  "list_agents auth db =
     (case auth of
        Inl e \<Rightarrow> Inl e
      | Inr a \<Rightarrow> Inr (rev (sort_key (\<lambda>(i, r). ag_created r) (ed_agents db))))"

definition set_agent_mode :: "pystr http \<Rightarrow> pystr \<Rightarrow> pystr \<Rightarrow> event_db \<Rightarrow> (pystr \<times> pystr) http \<times> event_db" where
  "set_agent_mode auth agent_id mode db =
     (case auth of
        Inl e \<Rightarrow> (Inl e, db)
      | Inr a \<Rightarrow>
          if mode \<noteq> lit ''enforce'' \<and> mode \<noteq> lit ''shadow'' then (Inl 400, db)
          else if map_of (ed_agents db) agent_id = None then (Inl 404, db)
          else (Inr (agent_id, mode),
                db\<lparr>ed_agents := update_row agent_id (\<lambda>r. r\<lparr>ag_mode := mode\<rparr>) (ed_agents db)\<rparr>))"

definition agent_heartbeat :: "pystr http \<Rightarrow> int \<Rightarrow> pystr \<Rightarrow> event_db \<Rightarrow> (pystr \<times> pystr) http \<times> event_db" where
  "agent_heartbeat auth now agent_id db =
     (case auth of
        Inl e \<Rightarrow> (Inl e, db)
      | Inr a \<Rightarrow>
          if map_of (ed_agents db) agent_id = None then (Inl 404, db)
          else (Inr (agent_id, iso_utc now),
                db\<lparr>ed_agents := update_row agent_id (\<lambda>r. r\<lparr>ag_last_seen := Some now\<rparr>) (ed_agents db)\<rparr>))"

text \<open>The ORM clears the foreign keys of the agent's events first, which the column forbids (500).\<close>

definition delete_agent :: "pystr http \<Rightarrow> pystr \<Rightarrow> event_db \<Rightarrow> unit http \<times> event_db" where
  "delete_agent auth agent_id db =
     (case auth of
        Inl e \<Rightarrow> (Inl e, db)
      | Inr a \<Rightarrow>
          if map_of (ed_agents db) agent_id = None then (Inl 404, db)
          else if \<exists>(i, e) \<in> set (ed_events db). er_agent_id e = agent_id then (Inl 500, db)
          else (Inr (), db\<lparr>ed_agents := filter (\<lambda>(i, r). i \<noteq> agent_id) (ed_agents db)\<rparr>))"

subsection \<open>Telemetry\<close>

record telemetry_event =
  te_id :: pystr
  te_client_ip :: pystr
  te_method :: pystr
  te_uri :: pystr
  te_action :: pystr
  te_tier :: int
  te_cve_id :: "pystr option"
  te_rule_name :: "pystr option"
  te_reason :: "pystr option"

definition MAX_BATCH_SIZE :: nat where
  "MAX_BATCH_SIZE = 1000"

text \<open>The response (accepted count) and the batch handed to the background task.\<close>

definition ingest_telemetry ::
  "pystr http \<Rightarrow> telemetry_event list \<Rightarrow> nat http \<times> (pystr \<times> telemetry_event list) option" where
  "ingest_telemetry auth events =
     (case auth of
        Inl e \<Rightarrow> (Inl e, None)
      | Inr agent_id \<Rightarrow>
          if MAX_BATCH_SIZE < length events then (Inl 413, None)
          else (Inr (length events), Some (agent_id, events)))"

definition stored_event :: "int \<Rightarrow> pystr \<Rightarrow> telemetry_event \<Rightarrow> pystr \<times> event_row" where
  "stored_event now agent_id ev =
     (te_id ev, \<lparr>er_agent_id = agent_id, er_client_ip = te_client_ip ev, er_method = te_method ev,
        er_uri = te_uri ev, er_action = te_action ev, er_tier = te_tier ev,
        er_cve_id = text_or (te_cve_id ev) [], er_rule_name = text_or (te_rule_name ev) [],
        er_reason = text_or (te_reason ev) [], er_created = now\<rparr>)"

definition persist_events :: "int \<Rightarrow> pystr \<Rightarrow> telemetry_event list \<Rightarrow> event_db \<Rightarrow> event_db" where
  "persist_events now agent_id events db =
     (case commit_events (map (stored_event now agent_id) events) db of
        Inl e \<Rightarrow> db
      | Inr db' \<Rightarrow> db')"

subsection \<open>Signature updates\<close>

text \<open>
  \<open>get_updates\<close>: \<open>since\<close> is \<open>None\<close> for an empty text, \<open>Some None\<close> for one that \<open>fromisoformat\<close> rejects. The
  session commits after the handler.
\<close>

definition get_updates ::
  "pystr http \<Rightarrow> int \<Rightarrow> int option option \<Rightarrow> pystr \<Rightarrow> cve_row list \<Rightarrow> event_db \<Rightarrow> cve_row list http \<times> event_db" where
  "get_updates auth now since agent_id sigs db =
     (case auth of
        Inl e \<Rightarrow> (Inl e, db)
      | Inr a \<Rightarrow>
          (case since of
             Some None \<Rightarrow> (Inl 400, db)
           | _ \<Rightarrow>
               (Inr (rev (sort_key cv_modified
                  (filter (\<lambda>s. cv_active s \<and> (case since of Some (Some t) \<Rightarrow> t < cv_modified s | _ \<Rightarrow> True)) sigs))),
                if agent_id = [] \<or> map_of (ed_agents db) agent_id = None then db
                else db\<lparr>ed_agents := update_row agent_id
                          (\<lambda>r. r\<lparr>ag_last_seen := Some now, ag_last_cve_sync := Some now\<rparr>) (ed_agents db)\<rparr>)))"

subsection \<open>Statistics\<close>

definition in_window :: "int \<Rightarrow> int \<Rightarrow> pystr option \<Rightarrow> event_row \<Rightarrow> bool" where
  "in_window now hours agent_id e \<longleftrightarrow>
     now - hours * 3600000000 \<le> er_created e \<and>
     (case agent_id of None \<Rightarrow> True | Some a \<Rightarrow> a = [] \<or> er_agent_id e = a)"

text \<open>\<open>GROUP BY\<close> with a count; groups in the order of their first row.\<close>

definition group_counts :: "('a \<Rightarrow> 'k) \<Rightarrow> 'a list \<Rightarrow> ('k \<times> nat) list" where
  "group_counts f xs = map (\<lambda>k. (k, length (filter (\<lambda>x. f x = k) xs))) (remdups (map f xs))"

definition top_counts :: "nat \<Rightarrow> ('k \<times> nat) list \<Rightarrow> ('k \<times> nat) list" where
  "top_counts n cs = take n (rev (sort_key snd cs))"

text \<open>\<open>round(blocked / total * 100, 2)\<close>: the nearest hundredth of a percent.\<close>

definition block_rate :: "nat \<Rightarrow> nat \<Rightarrow> int" where
  "block_rate blocked n = div_even (fl_int (fl_quot (int blocked) (int n) * 100) * 100) (2 ^ 120)"

record summary =
  sm_total :: nat
  sm_blocked :: nat
  sm_permitted :: int
  sm_rate :: int
  sm_top_cves :: "(pystr \<times> nat) list"
  sm_top_ips :: "(pystr \<times> nat) list"
  sm_tiers :: "(int \<times> nat) list"

definition get_summary :: "pystr http \<Rightarrow> int \<Rightarrow> int \<Rightarrow> pystr option \<Rightarrow> event_db \<Rightarrow> summary http" where
  "get_summary auth now hours agent_id db =
     (case auth of
        Inl e \<Rightarrow> Inl e
      | Inr a \<Rightarrow>
          if hours < 1 \<or> 720 < hours then Inl 422
          else
            let evs = filter (in_window now hours agent_id) (map snd (ed_events db));
                blocks = filter (\<lambda>e. er_action e = lit ''BLOCK'') evs
            in Inr \<lparr>sm_total = length evs, sm_blocked = length blocks,
                    sm_permitted = int (length evs) - int (length blocks),
                    sm_rate = (if evs = [] then 0 else block_rate (length blocks) (length evs)),
                    sm_top_cves = top_counts 10 (group_counts er_cve_id (filter (\<lambda>e. er_cve_id e \<noteq> []) evs)),
                    sm_top_ips = top_counts 10 (group_counts er_client_ip blocks),
                    sm_tiers = sort_key fst (group_counts er_tier blocks)\<rparr>)"

text \<open>\<open>get_timeline\<close>: buckets of an hour; an empty agent identifier is not ignored here.\<close>

definition get_timeline ::
  "pystr http \<Rightarrow> int \<Rightarrow> int \<Rightarrow> pystr option \<Rightarrow> event_db \<Rightarrow> (pystr \<times> nat \<times> nat) list http" where
  "get_timeline auth now hours agent_id db =
     (case auth of
        Inl e \<Rightarrow> Inl e
      | Inr a \<Rightarrow>
          if hours < 1 \<or> 168 < hours then Inl 422
          else
            let evs = filter (\<lambda>e. now - hours * 3600000000 \<le> er_created e \<and>
                        (case agent_id of None \<Rightarrow> True | Some a \<Rightarrow> er_agent_id e = a)) (map snd (ed_events db));
                hour = (\<lambda>e. er_created e div 3600000000)
            in Inr (map (\<lambda>h. (iso_utc (h * 3600000000),
                       length (filter (\<lambda>e. hour e = h) evs),
                       length (filter (\<lambda>e. hour e = h \<and> er_action e = lit ''BLOCK'') evs)))
                 (sort (remdups (map hour evs)))))"

definition get_events :: "pystr http \<Rightarrow> nat \<Rightarrow> pystr option \<Rightarrow> event_db \<Rightarrow> (pystr \<times> event_row) list http" where
  "get_events auth limit action db =
     (case auth of
        Inl e \<Rightarrow> Inl e
      | Inr a \<Rightarrow>
          if limit < 1 \<or> 500 < limit then Inl 422
          else Inr (take limit (filter (\<lambda>(i, e). case action of None \<Rightarrow> True
                 | Some x \<Rightarrow> x = [] \<or> er_action e = py_upper x)
               (rev (sort_key (\<lambda>(i, e). er_created e) (ed_events db))))))"

subsection \<open>Integrity\<close>

definition db_ok :: "event_db \<Rightarrow> bool" where
  "db_ok db \<longleftrightarrow>
     distinct (map fst (ed_agents db)) \<and> distinct (map fst (ed_events db)) \<and>
     (\<forall>(i, e) \<in> set (ed_events db). er_agent_id e \<in> fst ` set (ed_agents db))"

lemma map_of_None_iff: "map_of t k = None \<longleftrightarrow> k \<notin> fst ` set t"
  by (metis map_of_eq_None_iff)

lemma update_row_keys [simp]: "map fst (update_row k f t) = map fst t"
  by (simp add: update_row_def case_prod_beta)

lemma update_row_fst [simp]: "fst ` set (update_row k f t) = fst ` set t"
  by (metis list.set_map update_row_keys)

lemma db_ok_update: "db_ok db \<Longrightarrow> db_ok (db\<lparr>ed_agents := update_row k f (ed_agents db)\<rparr>)"
  by (simp add: db_ok_def)

lemma db_ok_new_agent: "db_ok db \<Longrightarrow> map_of (ed_agents db) i = None \<Longrightarrow> db_ok (db\<lparr>ed_agents := ed_agents db @ [(i, r)]\<rparr>)"
  by (auto simp: db_ok_def map_of_None_iff)

lemma db_ok_commit: "db_ok db \<Longrightarrow> commit_events evs db = Inr db' \<Longrightarrow> db_ok db'"
  by (fastforce simp: db_ok_def commit_events_def map_of_None_iff split: if_splits)

lemma db_ok_delete: "db_ok db \<Longrightarrow> db_ok (snd (delete_agent auth i db))"
  by (fastforce simp: db_ok_def delete_agent_def distinct_map_filter split: sum.splits)

lemma db_ok_persist: "db_ok db \<Longrightarrow> db_ok (persist_events now a evs db)"
  by (auto simp: persist_events_def intro: db_ok_commit split: sum.split)

text \<open>The server's writers of these tables, in any order.\<close>

inductive db_reach :: "event_db \<Rightarrow> bool" where
  db_empty: "db_reach \<lparr>ed_agents = [], ed_events = []\<rparr>"
| db_register: "db_reach db \<Longrightarrow> db_reach (snd (register_agent lib st now q db))"
| db_mode: "db_reach db \<Longrightarrow> db_reach (snd (set_agent_mode auth i m db))"
| db_heartbeat: "db_reach db \<Longrightarrow> db_reach (snd (agent_heartbeat auth now i db))"
| db_delete: "db_reach db \<Longrightarrow> db_reach (snd (delete_agent auth i db))"
| db_telemetry: "db_reach db \<Longrightarrow> db_reach (persist_events now a evs db)"
| db_updates: "db_reach db \<Longrightarrow> db_reach (snd (get_updates auth now since i sigs db))"

lemma db_reach_ok: "db_reach db \<Longrightarrow> db_ok db"
proof (induction rule: db_reach.induct)
  case db_empty
  then show ?case by (simp add: db_ok_def)
next
  case (db_register db lib st now q)
  then show ?case by (auto simp: register_agent_def Let_def intro: db_ok_new_agent split: option.split)
next
  case (db_mode db auth i m)
  then show ?case by (auto simp: set_agent_mode_def intro: db_ok_update split: sum.split)
next
  case (db_heartbeat db auth now i)
  then show ?case by (auto simp: agent_heartbeat_def intro: db_ok_update split: sum.split)
next
  case (db_delete db auth i)
  then show ?case by (simp add: db_ok_delete)
next
  case (db_telemetry db now a evs)
  then show ?case by (simp add: db_ok_persist)
next
  case (db_updates db auth now since i sigs)
  then show ?case by (auto simp: get_updates_def intro: db_ok_update split: sum.split option.split)
qed

subsection \<open>Properties\<close>

text \<open>
  The tables stay consistent under every operation of the routers, in any order: agent and event
  identifiers are unique and every event belongs to a registered agent. So an agent that has reported an
  event can never be removed again: deleting it is answered with 500 and changes nothing.
\<close>

theorem serverdb_integrity:
  assumes "db_reach db" "(i, e) \<in> set (ed_events db)"
  shows "distinct (map fst (ed_agents db)) \<and> distinct (map fst (ed_events db)) \<and>
    (\<exists>row. map_of (ed_agents db) (er_agent_id e) = Some row) \<and>
    delete_agent (Inr actor) (er_agent_id e) db = (Inl 500, db)"
proof -
  have ok: "db_ok db" using assms(1) by (rule db_reach_ok)
  then have "er_agent_id e \<in> fst ` set (ed_agents db)" using assms(2) by (fastforce simp: db_ok_def)
  then have "map_of (ed_agents db) (er_agent_id e) \<noteq> None" by (simp add: map_of_None_iff)
  moreover have "\<exists>(j, x) \<in> set (ed_events db). er_agent_id x = er_agent_id e" using assms(2) by blast
  ultimately show ?thesis using ok by (auto simp: db_ok_def delete_agent_def)
qed

definition demo_register :: register_request where
  "demo_register = \<lparr>rg_agent_id = lit ''waf-proxy-demo'', rg_hostname = lit ''h'', rg_ip = None,
     rg_server_type = lit ''nginx'', rg_version = None, rg_api_key = lit ''dev-key''\<rparr>"

definition demo_event :: telemetry_event where
  "demo_event = \<lparr>te_id = [49], te_client_ip = lit ''6.6.6.6'', te_method = lit ''GET'', te_uri = lit ''/'',
     te_action = lit ''BLOCK'', te_tier = 2, te_cve_id = None, te_rule_name = None, te_reason = None\<rparr>"

definition demo_db :: event_db where
  "demo_db = snd (register_agent toy_lib default_settings 0 demo_register \<lparr>ed_agents = [], ed_events = []\<rparr>)"

theorem serverdb_integrity_witness:
  "delete_agent (Inr [1]) (lit ''waf-proxy-demo'') (persist_events 5 (lit ''waf-proxy-demo'') [demo_event] demo_db) =
     (Inl 500, persist_events 5 (lit ''waf-proxy-demo'') [demo_event] demo_db)"
proof -
  let ?db = "persist_events 5 (lit ''waf-proxy-demo'') [demo_event] demo_db"
  have r: "db_reach ?db" unfolding demo_db_def by (intro db_telemetry db_register db_empty)
  have "map (\<lambda>(i, e). (i, er_agent_id e)) (ed_events ?db) = [([49], lit ''waf-proxy-demo'')]" by code_simp
  then obtain e where "([49], e) \<in> set (ed_events ?db)" "er_agent_id e = lit ''waf-proxy-demo''"
    by (auto simp: map_eq_Cons_conv)
  with serverdb_integrity [OF r this(1)] show ?thesis by simp
qed

text \<open>
  Accepted telemetry is stored completely or not at all: the response counts every event as accepted,
  and the background task stores the whole batch in order exactly when the caller's actor name is a
  registered agent and all identifiers are new and distinct; otherwise it stores nothing and nobody is told.
\<close>

theorem serverdb_telemetry_all_or_nothing:
  assumes "ingest_telemetry auth events = (Inr n, Some (actor, batch))"
  shows "n = length events \<and> batch = events \<and> auth = Inr actor \<and> n \<le> 1000 \<and>
    ed_events (persist_events now actor batch db) = ed_events db @
      (if distinct (map te_id events) \<and> (\<forall>ev \<in> set events. map_of (ed_events db) (te_id ev) = None) \<and>
          (events = [] \<or> map_of (ed_agents db) actor \<noteq> None)
       then map (stored_event now actor) events else [])"
proof -
  have a: "n = length events" "batch = events" "auth = Inr actor" "n \<le> 1000"
    using assms by (auto simp: ingest_telemetry_def MAX_BATCH_SIZE_def split: sum.splits if_splits)
  have "fst \<circ> stored_event now actor = te_id" by (simp add: fun_eq_iff stored_event_def)
  then have "ed_events (persist_events now actor events db) = ed_events db @
      (if distinct (map te_id events) \<and> (\<forall>ev \<in> set events. map_of (ed_events db) (te_id ev) = None) \<and>
          (events = [] \<or> map_of (ed_agents db) actor \<noteq> None)
       then map (stored_event now actor) events else [])"
    by (cases events) (auto simp: persist_events_def commit_events_def stored_event_def)
  with a show ?thesis by simp
qed

theorem serverdb_telemetry_all_or_nothing_witness:
  "verify_api_key toy_lib default_settings ([], []) [] 0 (api_key_cred (lit ''dev-key'')) = Inr (lit ''dev-key'') \<and>
   fst (ingest_telemetry (Inr (lit ''dev-key'')) [demo_event]) = Inr 1 \<and>
   ed_events (persist_events 5 (lit ''dev-key'') [demo_event] demo_db) = []"
proof -
  have v: "verify_api_key toy_lib default_settings ([], []) [] 0 (api_key_cred (lit ''dev-key'')) = Inr (lit ''dev-key'')"
    by code_simp
  have i: "ingest_telemetry (Inr (lit ''dev-key'')) [demo_event] = (Inr 1, Some (lit ''dev-key'', [demo_event]))"
    by (simp add: ingest_telemetry_def MAX_BATCH_SIZE_def)
  have "map_of (ed_agents demo_db) (lit ''dev-key'') = None" "ed_events demo_db = []" by code_simp+
  with serverdb_telemetry_all_or_nothing [OF i, of 5 demo_db] v i show ?thesis by simp
qed

end
