(* ===== verification/Inspect.thy ===== *)
theory Inspect
  imports InspectRules ServerDb
begin

text \<open>
  The synchronous inspection endpoint, \<open>server/app/routers/inspect.py\<close>: the CVE signature cache,
  the scan target built from every part of a request, the three tiers, the verdict and the event
  that a background task stores. \<open>re.compile\<close> on a signature's text is a parameter (\<open>None\<close> for
  \<open>re.error\<close>), times are microseconds of the monotonic clock.
\<close>

subsection \<open>The signature cache\<close>

record cve_signature =
  cs_cve_id :: pystr
  cs_name :: pystr
  cs_pattern :: pystr
  cs_flags :: pystr
  cs_severity :: pystr
  cs_active :: bool

record cve_cache =
  cc_entries :: "((pystr \<Rightarrow> bool) \<times> cve_signature) list"
  cc_ts :: int

definition empty_cache :: cve_cache where
  "empty_cache = \<lparr>cc_entries = [], cc_ts = 0\<rparr>"

text \<open>\<open>re.IGNORECASE\<close> if \<open>sig.flags and "i" in sig.flags.lower()\<close>.\<close>

definition signature_ignorecase :: "cve_signature \<Rightarrow> bool" where
  "signature_ignorecase sig = (cs_flags sig \<noteq> [] \<and> contains (lit ''i'') (py_lower (cs_flags sig)))"

definition compile_signature ::
  "(pystr \<Rightarrow> bool \<Rightarrow> (pystr \<Rightarrow> bool) option) \<Rightarrow> cve_signature \<Rightarrow> ((pystr \<Rightarrow> bool) \<times> cve_signature) option" where
  "compile_signature cmp sig =
     map_option (\<lambda>m. (m, sig)) (cmp (cs_pattern sig) (signature_ignorecase sig))"

text \<open>\<open>_refresh_cve_cache\<close>: a failing query leaves the cache and its time as they are.\<close>

definition refresh_cve_cache ::
  "(pystr \<Rightarrow> bool \<Rightarrow> (pystr \<Rightarrow> bool) option) \<Rightarrow> cve_signature list result \<Rightarrow> int \<Rightarrow> cve_cache \<Rightarrow> cve_cache" where
  "refresh_cve_cache cmp rows now c =
     (case rows of
        Inl e \<Rightarrow> c
      | Inr sigs \<Rightarrow>
          \<lparr>cc_entries = List.map_filter (compile_signature cmp) (filter cs_active sigs), cc_ts = now\<rparr>)"

subsection \<open>The request and its scan target\<close>

record http_inspect =
  ir_method :: pystr
  ir_uri :: pystr
  ir_query_string :: pystr
  ir_client_ip :: pystr
  ir_user_agent :: pystr
  ir_content_type :: pystr
  ir_body :: pystr
  ir_headers :: "(pystr \<times> pystr) list"
  ir_source_app :: pystr

definition STATIC_EXTS :: "pystr list" where
  "STATIC_EXTS =
     map lit [''.js'', ''.css'', ''.png'', ''.jpg'', ''.jpeg'', ''.gif'', ''.svg'', ''.ico'', ''.woff'',
              ''.woff2'', ''.ttf'', ''.eot'', ''.map'', ''.webp'', ''.avif'']"

definition is_static :: "pystr \<Rightarrow> bool" where
  "is_static uri =
     (let lower = before_first 63 (py_lower uri)
      in list_ex (endswith lower) STATIC_EXTS \<or> startswith lower (lit ''/_next/''))"

definition BASE64_CONTENT :: rx where
  "BASE64_CONTENT =
     seqs [Bol,
           AtLeast 16 (Cls False [rng CHR ''A'' CHR ''Z'', rng CHR ''a'' CHR ''z'', rng CHR ''0'' CHR ''9'',
             CR 43 43, CR 47 47, CR 61 61, CSpace]),
           Eol]"

text \<open>The second pass of \<open>_decode_body\<close>: the text again decoded, if that is worth scanning.\<close>

definition second_pass :: "pystr \<Rightarrow> pystr option" where
  "second_pass text1 =
     (if re_match False BASE64_CONTENT (strip text1) then
        (case b64decode_str (strip text1 @ [61, 61]) of
           Inl e \<Rightarrow> None
         | Inr raw2 \<Rightarrow>
             (let text2 = decode_replace (take 4096 raw2)
              in if text2 \<noteq> text1 \<and> 3 < length text2 then Some text2 else None))
      else None)"

definition decode_body :: "pystr \<Rightarrow> pystr" where
  "decode_body body =
     (if body = [] then []
      else case b64decode_str (body @ [61, 61]) of
             Inl e \<Rightarrow> []
           | Inr raw1 \<Rightarrow>
               (let text1 = decode_replace (take 4096 raw1)
                in case second_pass text1 of
                     None \<Rightarrow> text1
                   | Some text2 \<Rightarrow> text1 @ [32] @ text2))"

definition url_decode :: "pystr \<Rightarrow> pystr" where
  "url_decode s =
     (let d1 = unquote_plus s; d2 = unquote_plus d1
      in join_with [32]
           ([s] @ (if d1 \<noteq> s then [d1] else []) @ (if d2 \<noteq> d1 then [d2] else [])))"

definition scan_parts :: "http_inspect \<Rightarrow> pystr list" where
  "scan_parts r =
     [url_decode (ir_uri r), url_decode (ir_query_string r), ir_user_agent r, decode_body (ir_body r)] @
     map snd (filter (\<lambda>h. py_lower (fst h) \<noteq> lit ''x-api-key'') (ir_headers r))"

definition build_scan_target :: "http_inspect \<Rightarrow> pystr" where
  "build_scan_target r = join_nonempty (scan_parts r)"

subsection \<open>The tiers\<close>

record tier_match =
  tm_cve_id :: pystr
  tm_rule_name :: pystr
  tm_severity :: pystr
  tm_reason :: pystr

definition CACHE_MAX_AGE :: int where
  "CACHE_MAX_AGE = 120 * 1000000"

definition check_cve_signatures :: "cve_cache \<Rightarrow> int \<Rightarrow> pystr \<Rightarrow> tier_match option" where
  "check_cve_signatures c now t =
     (if cc_entries c = [] \<or> CACHE_MAX_AGE < now - cc_ts c then None
      else case first_match (\<lambda>e. fst e t) (cc_entries c) of
             None \<Rightarrow> None
           | Some (m, sig) \<Rightarrow>
               Some \<lparr>tm_cve_id = cs_cve_id sig, tm_rule_name = cs_name sig, tm_severity = cs_severity sig,
                     tm_reason = lit ''CVE pattern match: '' @ cs_name sig @ lit '' ('' @ cs_cve_id sig @ lit '')''\<rparr>)"

definition rule_hit :: "pystr \<Rightarrow> string \<Rightarrow> rule \<Rightarrow> tier_match" where
  "rule_hit severity what r =
     \<lparr>tm_cve_id = [], tm_rule_name = ru_name r, tm_severity = severity,
      tm_reason = lit what @ ru_name r\<rparr>"

definition check_tier2 :: "pystr \<Rightarrow> tier_match option" where
  "check_tier2 t =
     (case first_match (rule_matches t) SQLI_PATTERNS of
        Some r \<Rightarrow> Some (rule_hit (lit ''HIGH'') ''SQL injection pattern detected: '' r)
      | None \<Rightarrow>
          map_option (rule_hit (lit ''HIGH'') ''XSS pattern detected: '')
            (first_match (rule_matches t) XSS_PATTERNS))"

definition check_tier3 :: "pystr \<Rightarrow> tier_match option" where
  "check_tier3 t =
     map_option (rule_hit (lit ''MEDIUM'') ''Heuristic threat pattern: '')
       (first_match (rule_matches t) HEURISTIC_PATTERNS)"

subsection \<open>The verdict\<close>

record inspect_verdict =
  iv_action :: pystr
  iv_tier :: nat
  iv_cve_id :: pystr
  iv_rule_name :: pystr
  iv_reason :: pystr
  iv_request_id :: pystr

definition permit_verdict :: "pystr \<Rightarrow> pystr \<Rightarrow> inspect_verdict" where
  "permit_verdict rid reason =
     \<lparr>iv_action = lit ''PERMIT'', iv_tier = 0, iv_cve_id = [], iv_rule_name = [], iv_reason = reason,
      iv_request_id = rid\<rparr>"

definition block_verdict :: "pystr \<Rightarrow> nat \<Rightarrow> tier_match \<Rightarrow> inspect_verdict" where
  "block_verdict rid tier m =
     \<lparr>iv_action = lit ''BLOCK'', iv_tier = tier, iv_cve_id = tm_cve_id m, iv_rule_name = tm_rule_name m,
      iv_reason = tm_reason m, iv_request_id = rid\<rparr>"

text \<open>
  \<open>inspect_request\<close>: the verdict, and whether an event is handed to the background task. The only
  calls that can raise are inside functions that catch it, so the outer handler is never reached.
\<close>

definition inspect_request :: "cve_cache \<Rightarrow> int \<Rightarrow> pystr \<Rightarrow> http_inspect \<Rightarrow> inspect_verdict \<times> bool" where
  "inspect_request cache now rid r =
     (if is_static (ir_uri r) then
        (permit_verdict rid (lit ''Static asset'' @ [32, 8212, 32] @ lit ''skipped''), False)
      else
        let t = build_scan_target r
        in case check_cve_signatures cache now t of
             Some m \<Rightarrow> (block_verdict rid 1 m, True)
           | None \<Rightarrow>
               (case check_tier2 t of
                  Some m \<Rightarrow> (block_verdict rid 2 m, True)
                | None \<Rightarrow>
                    (case check_tier3 t of
                       Some m \<Rightarrow> (block_verdict rid 3 m, True)
                     | None \<Rightarrow> (permit_verdict rid [], True))))"

subsection \<open>Persistence\<close>

definition VERCEL_AGENT_ID :: pystr where
  "VERCEL_AGENT_ID = lit ''vercel-middleware''"

definition ensure_agent_registered :: "int \<Rightarrow> pystr \<Rightarrow> event_db \<Rightarrow> pystr \<times> event_db" where
  "ensure_agent_registered now source_app db =
     (let agent_id = or_else source_app VERCEL_AGENT_ID
      in case map_of (ed_agents db) agent_id of
           None \<Rightarrow>
             (agent_id, db\<lparr>ed_agents := ed_agents db @ [(agent_id,
                \<lparr>ag_hostname = or_else source_app (lit ''vercel-edge''), ag_ip = lit ''vercel-edge'',
                 ag_server_type = lit ''vercel'', ag_version = lit ''edge-middleware'', ag_mode = lit ''enforce'',
                 ag_api_key_hash = lit ''vercel-middleware'', ag_last_seen = Some now,
                 ag_last_cve_sync = None, ag_created = now\<rparr>)]\<rparr>)
         | Some a \<Rightarrow>
             (agent_id, db\<lparr>ed_agents := update_row agent_id (\<lambda>x. x\<lparr>ag_last_seen := Some now\<rparr>) (ed_agents db)\<rparr>))"

text \<open>A duplicate event id fails at the commit and rolls back the agent row as well.\<close>

definition persist_inspect_event ::
  "int \<Rightarrow> http_inspect \<Rightarrow> inspect_verdict \<Rightarrow> pystr \<Rightarrow> event_db \<Rightarrow> event_db" where
  "persist_inspect_event now r v actor db =
     (let source = or_else (ir_source_app r) (or_else actor VERCEL_AGENT_ID);
          (agent_id, db1) = ensure_agent_registered now source db
      in case commit_events [(iv_request_id v,
                \<lparr>er_agent_id = agent_id, er_client_ip = ir_client_ip r, er_method = ir_method r,
                 er_uri = ir_uri r, er_action = iv_action v, er_tier = int (iv_tier v), er_cve_id = iv_cve_id v,
                 er_rule_name = iv_rule_name v, er_reason = iv_reason v, er_created = now\<rparr>)] db1 of
           Inl e \<Rightarrow> db
         | Inr db2 \<Rightarrow> db2)"

subsection \<open>Lemmas\<close>

text \<open>What \<open>url_decode\<close> scans: the text and both decodings.\<close>

lemma url_decode_forms:
  assumes "t \<in> {s, unquote_plus s, unquote_plus (unquote_plus s)}"
  shows "\<exists>a b. url_decode s = a @ t @ b"
proof -
  let ?d1 = "unquote_plus s" and ?d2 = "unquote_plus (unquote_plus s)"
  let ?ps = "[s] @ (if ?d1 \<noteq> s then [?d1] else []) @ (if ?d2 \<noteq> ?d1 then [?d2] else [])"
  have "t \<in> set ?ps" using assms by auto
  then show ?thesis unfolding url_decode_def Let_def by (rule join_with_segment)
qed

definition surfaces :: "http_inspect \<Rightarrow> pystr set" where
  "surfaces r =
     {ir_uri r, unquote_plus (ir_uri r), unquote_plus (unquote_plus (ir_uri r)),
      ir_query_string r, unquote_plus (ir_query_string r), unquote_plus (unquote_plus (ir_query_string r)),
      ir_user_agent r, decode_body (ir_body r)} \<union>
     {v. \<exists>k. (k, v) \<in> set (ir_headers r) \<and> py_lower k \<noteq> lit ''x-api-key''}"

lemma surfaces_scanned:
  assumes "s \<in> surfaces r"
  shows "\<exists>a b. build_scan_target r = a @ s @ b"
proof -
  have "\<exists>p \<in> set (scan_parts r). \<exists>a b. p = a @ s @ b"
  proof -
    consider "s \<in> {ir_uri r, unquote_plus (ir_uri r), unquote_plus (unquote_plus (ir_uri r))}"
      | "s \<in> {ir_query_string r, unquote_plus (ir_query_string r), unquote_plus (unquote_plus (ir_query_string r))}"
      | "s = ir_user_agent r \<or> s = decode_body (ir_body r)"
      | k where "(k, s) \<in> set (ir_headers r)" "py_lower k \<noteq> lit ''x-api-key''"
      using assms unfolding surfaces_def by blast
    then show ?thesis
    proof cases
      case 1
      from url_decode_forms [OF this] show ?thesis by (auto simp: scan_parts_def)
    next
      case 2
      from url_decode_forms [OF this] show ?thesis by (auto simp: scan_parts_def)
    next
      case 3
      then have "s \<in> set (scan_parts r)" by (auto simp: scan_parts_def)
      then show ?thesis by (metis append_Nil append_Nil2)
    next
      case 4
      then have "s \<in> set (scan_parts r)" by (force simp: scan_parts_def)
      then show ?thesis by (metis append_Nil append_Nil2)
    qed
  qed
  then obtain p a b where "p \<in> set (scan_parts r)" "p = a @ s @ b" by blast
  moreover obtain c d where "join_nonempty (scan_parts r) = c @ p @ d"
    using join_nonempty_segment [OF calculation(1)] by blast
  ultimately have "build_scan_target r = (c @ a) @ s @ (b @ d)" by (simp add: build_scan_target_def)
  then show ?thesis by blast
qed

lemma tier_hit:
  assumes "s \<in> surfaces q" "s = a @ t @ b" "rule_stable r" "rule_matches t r"
  shows "r \<in> set (SQLI_PATTERNS @ XSS_PATTERNS) \<Longrightarrow> check_tier2 (build_scan_target q) \<noteq> None"
    "r \<in> set HEURISTIC_PATTERNS \<Longrightarrow> check_tier3 (build_scan_target q) \<noteq> None"
proof -
  obtain c d where "build_scan_target q = c @ s @ d" using surfaces_scanned [OF assms(1)] by blast
  then have e: "build_scan_target q = (c @ a) @ t @ (b @ d)" using assms(2) by simp
  show "check_tier2 (build_scan_target q) \<noteq> None" if "r \<in> set (SQLI_PATTERNS @ XSS_PATTERNS)"
    using that sqli_rules.segment_found [OF _ assms(3,4), of "c @ a" "b @ d"]
      xss_rules.segment_found [OF _ assms(3,4), of "c @ a" "b @ d"]
    unfolding e by (auto simp: check_tier2_def split: option.splits)
  show "check_tier3 (build_scan_target q) \<noteq> None" if "r \<in> set HEURISTIC_PATTERNS"
    using that heuristic_rules.segment_found [OF _ assms(3,4), of "c @ a" "b @ d"]
    unfolding e by (auto simp: check_tier3_def)
qed

lemma inspect_blocks_iff:
  "\<not> is_static (ir_uri r) \<Longrightarrow>
     (iv_action (fst (inspect_request cache now rid r)) = lit ''BLOCK'' \<longleftrightarrow>
        check_cve_signatures cache now (build_scan_target r) \<noteq> None \<or>
        check_tier2 (build_scan_target r) \<noteq> None \<or> check_tier3 (build_scan_target r) \<noteq> None)"
  by (auto simp: inspect_request_def Let_def block_verdict_def permit_verdict_def lit_def split: option.splits)

text \<open>The guard of the second pass accepts every Base64 text of 16 characters or more.\<close>

lemma rm_class_star:
  "\<forall>c \<in> set s. cls_has False is c \<Longrightarrow> rm False (Star (Cls False is)) (x, s) (advance s x, [])"
proof (induction s arbitrary: x)
  case Nil
  then show ?case by (simp add: rm_star0)
next
  case (Cons c s)
  have "rm False (Cls False is) (x, c # s) (Some c, s)"
    using Cons.prems by (intro rm_cls) simp
  moreover have "rm False (Star (Cls False is)) (Some c, s) (advance s (Some c), [])"
    using Cons by simp
  ultimately show ?case by (metis advance_append append_Cons append_Nil rm_star advance_def last.simps list.distinct(1))
qed

lemma rm_class_rep:
  "\<forall>c \<in> set s. cls_has False is c \<Longrightarrow> n \<le> length s \<Longrightarrow>
     rm False (Rep n (Cls False is)) (x, s) (advance (take n s) x, drop n s)"
proof (induction n arbitrary: s x)
  case 0
  then show ?case by (simp add: rm_eps)
next
  case (Suc n)
  then obtain c u where s: "s = c # u" by (cases s) auto
  have "rm False (Cls False is) (x, c # u) (Some c, u)"
    using Suc.prems s by (intro rm_cls) simp
  moreover have "rm False (Rep n (Cls False is)) (Some c, u) (advance (take n u) (Some c), drop n u)"
    using Suc s by simp
  moreover have "advance (take n u) (Some c) = advance (take (Suc n) s) x"
    unfolding s by (simp add: advance_def)
  ultimately show ?case unfolding s by (simp del: take_Suc_Cons) (rule rm_cat)
qed

lemma base64_content_encode:
  assumes "is_bytes bs" "16 \<le> length (b64encode bs)"
  shows "re_match False BASE64_CONTENT (b64encode bs)"
proof -
  let ?is = "[rng CHR ''A'' CHR ''Z'', rng CHR ''a'' CHR ''z'', rng CHR ''0'' CHR ''9'', CR 43 43, CR 47 47,
    CR 61 61, CSpace]"
  let ?s = "b64encode bs"
  have cls: "\<forall>c \<in> set ?s. cls_has False ?is c"
  proof
    fix c assume "c \<in> set ?s"
    with assms(1) have "is_b64_char c" by (rule b64encode_chars)
    then show "cls_has False ?is c"
      by (auto simp: is_b64_char_def b64_val_def cls_has_def rng_def split: if_splits)
  qed
  have bol: "rm False Bol (None, ?s) (None, ?s)" by (rule rm_bol) (simp add: at_bol_def)
  have rep: "rm False (Rep 16 (Cls False ?is)) (None, ?s) (advance (take 16 ?s) None, drop 16 ?s)"
    using cls assms(2) by (rule rm_class_rep)
  have star: "rm False (Star (Cls False ?is)) (advance (take 16 ?s) None, drop 16 ?s)
      (advance (drop 16 ?s) (advance (take 16 ?s) None), [])"
    using cls by (intro rm_class_star) (auto dest: in_set_dropD)
  have eol: "rm False Eol (x, []) (x, [])" for x by (rule rm_eol) (simp add: at_eol_def)
  have "\<exists>q. rm False BASE64_CONTENT (None, ?s) q"
    unfolding BASE64_CONTENT_def AtLeast_def seqs.simps
    by (intro exI) (rule rm_cat [OF bol rm_cat [OF rm_cat [OF rep star] eol]])
  then show ?thesis unfolding re_match_def mt_Nil_iff by blast
qed

lemma decode_body_eq:
  assumes "is_bytes bs"
  shows "decode_body (b64encode bs) =
    (if bs = [] then []
     else let t = decode_replace (take 4096 bs)
          in case second_pass t of None \<Rightarrow> t | Some t2 \<Rightarrow> t @ [32] @ t2)"
proof (cases "bs = []")
  case False
  then have "b64encode bs \<noteq> []" by (cases bs rule: b64encode.cases) auto
  with False show ?thesis using b64_str_roundtrip [OF assms] by (simp add: decode_body_def)
qed (simp add: decode_body_def)

lemma second_pass_encode:
  assumes "is_bytes bs" "16 \<le> length (b64encode bs)" "length bs \<le> 4096"
    "decode_replace bs \<noteq> b64encode bs" "3 < length (decode_replace bs)"
  shows "second_pass (b64encode bs) = Some (decode_replace bs)"
  using assms base64_content_encode [OF assms(1,2)] b64_str_roundtrip [OF assms(1)]
  by (simp add: second_pass_def strip_b64encode)

lemma decode_body_single:
  assumes "is_text t" "encode_utf8 t = Inr bs" "length bs \<le> 4096"
  shows "\<exists>b. decode_body (b64encode bs) = t @ b"
proof -
  have "decode_replace bs = t" using utf8_roundtrip [OF assms(1)] assms(2) by auto
  moreover have "bs = [] \<Longrightarrow> t = []" using calculation by (simp add: decode_replace_def)
  ultimately show ?thesis
    using assms(3) decode_body_eq [OF encode_utf8_bytes [OF assms(1,2)]]
    by (auto simp: Let_def split: option.splits)
qed

lemma decode_body_double:
  assumes "is_text t" "encode_utf8 t = Inr bs" "16 \<le> length (b64encode bs)" "length (b64encode bs) \<le> 4096"
    "3 < length t"
  shows "\<exists>a b. decode_body (b64encode (b64encode bs)) = a @ t @ b"
proof -
  let ?e = "b64encode bs"
  have bs: "is_bytes bs" using assms(1,2) by (rule encode_utf8_bytes)
  have t: "decode_replace bs = t" using utf8_roundtrip [OF assms(1)] assms(2) by auto
  have len: "length bs \<le> 4096" using assms(4) by (simp add: b64encode_length)
  have e: "is_bytes ?e"
    unfolding is_bytes_def
  proof
    fix c assume "c \<in> set ?e"
    with bs have "is_b64_char c" by (rule b64encode_chars)
    then show "0 \<le> c \<and> c < 256"
      by (auto simp: is_b64_char_def b64_val_def split: if_splits)
  qed
  have "decode_replace ?e = ?e" using b64encode_ascii [OF bs] by (rule decode_replace_ascii)
  moreover have "?e \<noteq> []" using assms(3) by auto
  ultimately have d: "decode_body (b64encode ?e) =
      (case second_pass ?e of None \<Rightarrow> ?e | Some t2 \<Rightarrow> ?e @ [32] @ t2)"
    using decode_body_eq [OF e] assms(4) by (simp add: Let_def)
  show ?thesis
  proof (cases "t = ?e")
    case True
    then show ?thesis unfolding d by (cases "second_pass ?e") (auto intro: exI [of _ "[]"])
  next
    case False
    then have "second_pass ?e = Some t"
      using second_pass_encode [OF bs assms(3) len] t assms(5) by simp
    then have "decode_body (b64encode ?e) = (?e @ [32]) @ t @ []" unfolding d by simp
    then show ?thesis by blast
  qed
qed

subsection \<open>Properties\<close>


definition demo_inspect :: http_inspect where
  "demo_inspect =
     \<lparr>ir_method = lit ''GET'', ir_uri = lit ''/f'', ir_query_string = lit ''p=..%252F..%252fetc'',
      ir_client_ip = [], ir_user_agent = [], ir_content_type = [], ir_body = [], ir_headers = [],
      ir_source_app = []\<rparr>"


text \<open>
  The body decoder undoes one and two layers of Base64: the decoded body of an encoded text, and
  of a twice encoded one, contains the text itself, up to 4 KB of encoded data.
\<close>

theorem inspect_body_layers:
  assumes "is_text t" "encode_utf8 t = Inr bs" "length (b64encode bs) \<le> 4096"
  shows "(\<exists>b. decode_body (b64encode bs) = t @ b) \<and>
    (12 < length t \<longrightarrow> (\<exists>a b. decode_body (b64encode (b64encode bs)) = a @ t @ b))"
proof -
  have "length bs \<le> 4096" using assms(3) by (simp add: b64encode_length)
  moreover have "16 \<le> length (b64encode bs)" if "12 < length t"
  proof -
    have "bs = concat (map encode_cp t)" using assms(2) by (simp add: encode_utf8_def split: if_splits)
    moreover have "length u \<le> length (concat (map encode_cp u))" for u
      by (induction u) (auto simp: encode_cp_def)
    ultimately have "12 < length bs" using that by (metis order_less_le_trans)
    then show ?thesis by (simp add: b64encode_length)
  qed
  ultimately show ?thesis
    using decode_body_single [OF assms(1,2)] decode_body_double [OF assms(1,2) _ assms(3)] by auto
qed

theorem inspect_body_layers_witness:
  "\<exists>a b. decode_body (b64encode (b64encode (lit ''<script>alert(1)</script>''))) =
     a @ lit ''<script>alert(1)</script>'' @ b"
proof -
  let ?t = "lit ''<script>alert(1)</script>''"
  have "is_text ?t" "encode_utf8 ?t = Inr ?t" "length (b64encode ?t) \<le> 4096" "12 < length ?t"
    by code_simp+
  with inspect_body_layers [of ?t ?t] show ?thesis by blast
qed

text \<open>
  C7: The verdict is exact. A request that is not a static asset is blocked by Tier 1 exactly when the
  signature cache is at most 120 seconds old and a signature of it matches the scan target, by Tier 2
  or 3 exactly when a rule of its list matches and no earlier tier does; otherwise it is permitted.
  An empty or stale cache switches Tier 1 off and nothing else.
\<close>

theorem inspect_verdict_exact:
  assumes "\<not> is_static (ir_uri q)"
  shows "iv_tier (fst (inspect_request cache now rid q)) =
    (if now - cc_ts cache \<le> CACHE_MAX_AGE \<and> (\<exists>e \<in> set (cc_entries cache). fst e (build_scan_target q)) then 1
     else if \<exists>r \<in> set (SQLI_PATTERNS @ XSS_PATTERNS). rule_matches (build_scan_target q) r then 2
     else if \<exists>r \<in> set HEURISTIC_PATTERNS. rule_matches (build_scan_target q) r then 3
     else 0) \<and>
    (iv_action (fst (inspect_request cache now rid q)) = lit ''PERMIT'' \<longleftrightarrow>
       iv_tier (fst (inspect_request cache now rid q)) = 0)"
proof -
  let ?t = "build_scan_target q"
  have 1: "check_cve_signatures cache now ?t \<noteq> None \<longleftrightarrow>
      now - cc_ts cache \<le> CACHE_MAX_AGE \<and> (\<exists>e \<in> set (cc_entries cache). fst e ?t)"
    using first_match_None_iff [of "\<lambda>e. fst e ?t" "cc_entries cache"]
    by (auto simp: check_cve_signatures_def split: option.splits)
  have 2: "check_tier2 ?t \<noteq> None \<longleftrightarrow> (\<exists>r \<in> set (SQLI_PATTERNS @ XSS_PATTERNS). rule_matches ?t r)"
    using first_match_None_iff [of "rule_matches ?t" SQLI_PATTERNS]
      first_match_None_iff [of "rule_matches ?t" XSS_PATTERNS]
    by (auto simp: check_tier2_def split: option.splits)
  have 3: "check_tier3 ?t \<noteq> None \<longleftrightarrow> (\<exists>r \<in> set HEURISTIC_PATTERNS. rule_matches ?t r)"
    using first_match_None_iff [of "rule_matches ?t" HEURISTIC_PATTERNS]
    by (auto simp: check_tier3_def)
  show ?thesis
    unfolding 1 [symmetric] 2 [symmetric] 3 [symmetric] using assms
    by (auto simp: inspect_request_def Let_def block_verdict_def permit_verdict_def lit_def split: option.splits)
qed

text \<open>
  The endpoint does not honour the CASELESS flag that every feed writes: a signature with that flag
  is compiled case-sensitively, while the agent compiles the same entry case-insensitively.
\<close>

theorem inspect_caseless_flag_lost:
  assumes "cs_flags sig = lit ''CASELESS''"
  shows "compile_signature cmp sig = map_option (\<lambda>m. (m, sig)) (cmp (cs_pattern sig) False) \<and>
    contains (lit ''CASELESS'') (cs_flags sig)"
proof -
  have "\<not> contains (lit ''i'') (py_lower (lit ''CASELESS''))" "contains (lit ''CASELESS'') (lit ''CASELESS'')"
    by code_simp+
  with assms show ?thesis by (simp add: compile_signature_def signature_ignorecase_def)
qed

definition demo_signature :: cve_signature where
  "demo_signature =
     \<lparr>cs_cve_id = lit ''CVE-2021-44228'', cs_name = lit ''Log4Shell'', cs_pattern = lit ''jndi'',
      cs_flags = lit ''CASELESS'', cs_severity = lit ''CRITICAL'', cs_active = True\<rparr>"

theorem inspect_caseless_flag_lost_witness:
  "compile_signature (\<lambda>p ci. if ci then None else Some (contains p)) demo_signature =
     Some (contains (lit ''jndi''), demo_signature)"
  by (subst conjunct1 [OF inspect_caseless_flag_lost]) (simp_all add: demo_signature_def)

theorem inspect_verdict_exact_witness:
  "iv_tier (fst (inspect_request empty_cache 0 [1] demo_inspect)) = 3"
proof -
  let ?t = "build_scan_target demo_inspect"
  have "\<not> list_ex (rule_matches ?t) (SQLI_PATTERNS @ XSS_PATTERNS)" "list_ex (rule_matches ?t) HEURISTIC_PATTERNS"
    by code_simp+
  then have "\<not> (\<exists>r \<in> set (SQLI_PATTERNS @ XSS_PATTERNS). rule_matches ?t r)"
    "\<exists>r \<in> set HEURISTIC_PATTERNS. rule_matches ?t r" unfolding list_ex_iff by blast+
  moreover have "\<not> is_static (ir_uri demo_inspect)" by code_simp
  moreover have "cc_entries empty_cache = []" by (simp add: empty_cache_def)
  ultimately show ?thesis
    using conjunct1 [OF inspect_verdict_exact [of demo_inspect empty_cache 0 "[1]"]] by simp
qed

end
