(* ===== verification/FeedInspect.thy ===== *)
theory FeedInspect
  imports Inspect
begin

text \<open>
  From the public feeds to a verdict: the signature table that \<open>cve_sync.py\<close> fills, the daemon thread of
  \<open>routers/inspect.py\<close> that loads it into the endpoint's cache, and the endpoint that answers from the cache. Times
  are microseconds of the monotonic clock.
\<close>

subsection \<open>The cache daemon\<close>

definition CVE_CACHE_TTL :: int where
  "CVE_CACHE_TTL = 60 * 1000000"

definition STARTUP_DELAY :: int where
  "STARTUP_DELAY = 5 * 1000000"

text \<open>One refresh: how long it takes, the wait for the lock included, and what the query returns.\<close>

record refresh_round =
  rf_took :: int
  rf_rows :: "cve_signature list result"

text \<open>
  \<open>_cve_cache_daemon\<close> from a time on: the cache after each refresh with the time the refresh ended. The loop is
  endless; the rounds given are as many as one looks at.
\<close>

fun cache_daemon ::
  "(pystr \<Rightarrow> bool \<Rightarrow> (pystr \<Rightarrow> bool) option) \<Rightarrow> int \<Rightarrow> refresh_round list \<Rightarrow> cve_cache \<Rightarrow> (int \<times> cve_cache) list" where
  "cache_daemon cmp t [] c = []"
| "cache_daemon cmp t (r # rs) c =
     (let now = t + rf_took r; c' = refresh_cve_cache cmp (rf_rows r) now c
      in (now, c') # cache_daemon cmp (now + CVE_CACHE_TTL) rs c')"

definition start_daemon ::
  "(pystr \<Rightarrow> bool \<Rightarrow> (pystr \<Rightarrow> bool) option) \<Rightarrow> int \<Rightarrow> refresh_round list \<Rightarrow> (int \<times> cve_cache) list" where
  "start_daemon cmp start rounds = cache_daemon cmp (start + STARTUP_DELAY) rounds empty_cache"

text \<open>What a request at time \<open>t\<close> finds.\<close>

definition cache_at :: "(int \<times> cve_cache) list \<Rightarrow> int \<Rightarrow> cve_cache" where
  "cache_at hist t = foldl (\<lambda>c (u, c'). if u \<le> t then c' else c) empty_cache hist"

definition good_round :: "int \<Rightarrow> refresh_round \<Rightarrow> bool" where
  "good_round d r \<longleftrightarrow> 0 \<le> rf_took r \<and> rf_took r \<le> d \<and> (\<exists>sigs. rf_rows r = Inr sigs)"

text \<open>The view from a cache already there, over the rest of the history.\<close>

abbreviation view :: "cve_cache \<Rightarrow> (int \<times> cve_cache) list \<Rightarrow> int \<Rightarrow> cve_cache" where
  "view c hist t \<equiv> foldl (\<lambda>c (u, c'). if u \<le> t then c' else c) c hist"

lemma daemon_later:
  assumes "list_all (good_round d) rounds" "(u, c') \<in> set (cache_daemon cmp t rounds c)"
  shows "t \<le> u"
  using assms
proof (induction cmp t rounds c rule: cache_daemon.induct)
  case (2 cmp t r rs c)
  let ?u = "t + rf_took r"
  have r: "0 \<le> rf_took r" "list_all (good_round d) rs" using 2(2) by (simp_all add: good_round_def [of d r])
  from 2(3) have "u = ?u \<or> (u, c') \<in> set (cache_daemon cmp (?u + CVE_CACHE_TTL) rs (refresh_cve_cache cmp (rf_rows r) ?u c))"
    by (auto simp: Let_def)
  then show ?case
  proof
    assume "u = ?u"
    with r show ?thesis by simp
  next
    assume "(u, c') \<in> set (cache_daemon cmp (?u + CVE_CACHE_TTL) rs (refresh_cve_cache cmp (rf_rows r) ?u c))"
    from 2(1) [OF refl refl r(2) this] r(1) show ?thesis by (simp add: CVE_CACHE_TTL_def)
  qed
qed simp

lemma daemon_Nil: "cache_daemon cmp t rounds c = [] \<longleftrightarrow> rounds = []"
  by (cases rounds) (simp_all add: Let_def)

lemma daemon_Cons:
  "cache_daemon cmp t (r # rs) c =
     (t + rf_took r, refresh_cve_cache cmp (rf_rows r) (t + rf_took r) c) #
     cache_daemon cmp (t + rf_took r + CVE_CACHE_TTL) rs (refresh_cve_cache cmp (rf_rows r) (t + rf_took r) c)"
  by (simp add: Let_def)

lemma view_before: "list_all (\<lambda>h. t < fst h) hist \<Longrightarrow> view c hist t = c"
  by (induction hist) auto

lemma daemon_fresh:
  assumes "list_all (good_round d) rounds" "cc_ts c = t - CVE_CACHE_TTL" "t - CVE_CACHE_TTL \<le> now"
    "rounds \<noteq> [] \<Longrightarrow> now \<le> fst (last (cache_daemon cmp t rounds c))" "rounds = [] \<Longrightarrow> now \<le> t" "0 \<le> d"
  shows "now - cc_ts (view c (cache_daemon cmp t rounds c) now) \<le> CVE_CACHE_TTL + d"
  using assms
proof (induction rounds arbitrary: t c)
  case Nil
  then show ?case by simp
next
  case (Cons r rs)
  let ?u = "t + rf_took r"
  let ?c = "refresh_cve_cache cmp (rf_rows r) ?u c"
  from Cons.prems(1) have r: "0 \<le> rf_took r" "rf_took r \<le> d" and ts: "cc_ts ?c = ?u" and rs: "list_all (good_round d) rs"
    by (simp_all add: good_round_def [of d r]) (auto simp: refresh_cve_cache_def)
  show ?case
  proof (cases "?u \<le> now")
    case True
    have "now - cc_ts (view ?c (cache_daemon cmp (?u + CVE_CACHE_TTL) rs ?c) now) \<le> CVE_CACHE_TTL + d"
    proof (rule Cons.IH [OF rs])
      show "cc_ts ?c = ?u + CVE_CACHE_TTL - CVE_CACHE_TTL" "?u + CVE_CACHE_TTL - CVE_CACHE_TTL \<le> now" using ts True by simp_all
      show "rs \<noteq> [] \<Longrightarrow> now \<le> fst (last (cache_daemon cmp (?u + CVE_CACHE_TTL) rs ?c))"
        using Cons.prems(4) [unfolded daemon_Cons] by (simp only: last_ConsR daemon_Nil not_False_eq_True list.simps)
      show "rs = [] \<Longrightarrow> now \<le> ?u + CVE_CACHE_TTL" using Cons.prems(4) [unfolded daemon_Cons] by (simp add: CVE_CACHE_TTL_def)
    qed (rule Cons.prems(6))
    with True show ?thesis unfolding daemon_Cons by simp
  next
    case False
    have "view c (cache_daemon cmp (?u + CVE_CACHE_TTL) rs ?c) now = c"
    proof (rule view_before, unfold list_all_iff, intro ballI)
      fix h assume "h \<in> set (cache_daemon cmp (?u + CVE_CACHE_TTL) rs ?c)"
      then have "(fst h, snd h) \<in> set (cache_daemon cmp (?u + CVE_CACHE_TTL) rs ?c)" by simp
      from daemon_later [OF rs this] False show "now < fst h" by (simp add: CVE_CACHE_TTL_def)
    qed
    with False Cons.prems(2) r(2) show ?thesis unfolding daemon_Cons by simp
  qed
qed

lemma hist_Cons:
  "start_daemon cmp start (r # rs) =
     (let u = start + STARTUP_DELAY + rf_took r; c = refresh_cve_cache cmp (rf_rows r) u empty_cache
      in (u, c) # cache_daemon cmp (u + CVE_CACHE_TTL) rs c)"
  by (simp only: start_daemon_def daemon_Cons Let_def)

lemma check_signatures_iff:
  "check_cve_signatures c now t \<noteq> None \<longleftrightarrow>
     now - cc_ts c \<le> CACHE_MAX_AGE \<and> (\<exists>e \<in> set (cc_entries c). fst e t)"
  using first_match_None_iff [of "\<lambda>e. fst e t" "cc_entries c"]
  by (auto simp: check_cve_signatures_def split: option.splits)

lemma cache_before_first:
  assumes "list_all (good_round d) (r # rs)" "hist = start_daemon cmp start (r # rs)" "now < fst (hd hist)"
  shows "cache_at hist now = empty_cache"
proof -
  have "list_all (\<lambda>h. now < fst h) hist"
    unfolding list_all_iff
  proof
    fix h assume h: "h \<in> set hist"
    let ?u = "start + STARTUP_DELAY + rf_took r"
    have first: "fst (hd hist) = ?u" using assms(2) by (simp add: hist_Cons Let_def)
    from h assms(2) have "h = hd hist \<or>
        (fst h, snd h) \<in> set (cache_daemon cmp (?u + CVE_CACHE_TTL) rs (refresh_cve_cache cmp (rf_rows r) ?u empty_cache))"
      by (auto simp: hist_Cons Let_def)
    then show "now < fst h"
    proof
      assume "(fst h, snd h) \<in> set (cache_daemon cmp (?u + CVE_CACHE_TTL) rs (refresh_cve_cache cmp (rf_rows r) ?u empty_cache))"
      moreover have "list_all (good_round d) rs" using assms(1) by simp
      ultimately show ?thesis using daemon_later assms(3) first by (fastforce simp: CVE_CACHE_TTL_def)
    qed (use assms(3) in simp)
  qed
  then show ?thesis unfolding cache_at_def by (rule view_before)
qed

lemma cache_after_first:
  assumes "list_all (good_round d) (r # rs)" "hist = start_daemon cmp start (r # rs)" "0 \<le> d"
    "fst (hd hist) \<le> now" "now \<le> fst (last hist)"
  shows "now - cc_ts (cache_at hist now) \<le> CVE_CACHE_TTL + d"
proof -
  let ?u = "start + STARTUP_DELAY + rf_took r"
  let ?c = "refresh_cve_cache cmp (rf_rows r) ?u empty_cache"
  have h: "hist = (?u, ?c) # cache_daemon cmp (?u + CVE_CACHE_TTL) rs ?c" unfolding assms(2) by (simp add: hist_Cons Let_def)
  have u: "?u \<le> now" using assms(4) unfolding h by simp
  have rs: "list_all (good_round d) rs" "cc_ts ?c = ?u"
    using assms(1) by (simp, simp) (auto simp: good_round_def refresh_cve_cache_def)
  have "now - cc_ts (view ?c (cache_daemon cmp (?u + CVE_CACHE_TTL) rs ?c) now) \<le> CVE_CACHE_TTL + d"
  proof (rule daemon_fresh [OF rs(1)])
    show "rs \<noteq> [] \<Longrightarrow> now \<le> fst (last (cache_daemon cmp (?u + CVE_CACHE_TTL) rs ?c))"
      using assms(5) unfolding h by (simp only: last_ConsR daemon_Nil not_False_eq_True list.simps)
    show "rs = [] \<Longrightarrow> now \<le> ?u + CVE_CACHE_TTL" using assms(5) unfolding h by (simp add: CVE_CACHE_TTL_def)
  qed (use rs(2) u assms(3) in simp_all)
  then show ?thesis using u unfolding h cache_at_def by simp
qed

subsection \<open>From a feed to a verdict\<close>

text \<open>A row of the signature table as the endpoint loads it.\<close>

definition signature_of :: "cve_row \<Rightarrow> cve_signature" where
  "signature_of r =
     \<lparr>cs_cve_id = cv_id r, cs_name = cv_name r, cs_pattern = cv_pattern r, cs_flags = cv_flags r,
      cs_severity = cv_severity r, cs_active = cv_active r\<rparr>"

definition loaded :: "(pystr \<Rightarrow> bool \<Rightarrow> (pystr \<Rightarrow> bool) option) \<Rightarrow> cve_row list \<Rightarrow> int \<Rightarrow> cve_cache \<Rightarrow> cve_cache" where
  "loaded cmp rows now c = refresh_cve_cache cmp (Inr (map signature_of rows)) now c"

lemma in_map_filter: "y \<in> set (List.map_filter f xs) \<longleftrightarrow> (\<exists>x \<in> set xs. f x = Some y)"
  by (induction xs) (auto simp: map_filter_simps split: option.split)

lemma lookup_member: "lookup_cve rows i = Some r \<Longrightarrow> r \<in> set rows"
  by (auto simp: lookup_cve_def dest: first_match_SomeD)

lemma loaded_entry:
  assumes "r \<in> set rows" "cv_active r" "cmp (cv_pattern r) (signature_ignorecase (signature_of r)) = Some m"
  shows "(m, signature_of r) \<in> set (cc_entries (loaded cmp rows now c))"
proof -
  have "signature_of r \<in> set (filter cs_active (map signature_of rows))"
    using assms(1,2) by (auto simp: signature_of_def)
  moreover have "compile_signature cmp (signature_of r) = Some (m, signature_of r)"
    using assms(3) by (simp add: compile_signature_def) (simp add: signature_of_def)
  ultimately show ?thesis
    unfolding loaded_def refresh_cve_cache_def by (force simp: in_map_filter)
qed

lemma upserted_pattern:
  assumes "first_match (usable i) ps = Some p" "valid (fp_pattern p)"
  shows "\<exists>r. lookup_cve (snd (upsert_patterns valid now ps rows)) i = Some r \<and> cv_pattern r = fp_pattern p \<and> cv_active r"
  using assms
  by (auto simp: upsert_patterns_lookup upsert_spec_def refresh_row_def new_row_def split: option.split)

lemma cisa_first:
  assumes "v \<in> set vs" "cisa_pattern v = Some p" "fp_pattern p \<noteq> []"
    and "\<And>w. w \<in> set vs \<Longrightarrow> ci_id w = ci_id v \<Longrightarrow> w = v"
  shows "first_match (usable (fp_cve_id p)) (List.map_filter cisa_pattern vs) = Some p"
proof -
  have p: "fp_cve_id p \<noteq> []" "field (ci_id v) [] = fp_cve_id p"
    using assms(2) by (auto simp: cisa_pattern_def Let_def split: if_splits)
  have same: "x = p" if "x \<in> set (List.map_filter cisa_pattern vs)" "usable (fp_cve_id p) x" for x
  proof -
    from that(1) obtain w where w: "w \<in> set vs" "cisa_pattern w = Some x" by (auto simp: in_map_filter)
    then have "field (ci_id w) [] = fp_cve_id x" by (auto simp: cisa_pattern_def Let_def split: if_splits)
    with that(2) p have "ci_id w = ci_id v" by (auto simp: usable_def split: option.splits)
    with assms(4) w have "w = v" by blast
    with w(2) assms(2) show ?thesis by simp
  qed
  have m: "p \<in> set (List.map_filter cisa_pattern vs)" using assms(1,2) by (auto simp: in_map_filter)
  have u: "usable (fp_cve_id p) p" using p(1) assms(3) by (simp add: usable_def)
  obtain x where x: "first_match (usable (fp_cve_id p)) (List.map_filter cisa_pattern vs) = Some x"
    using first_match_exists [of p "List.map_filter cisa_pattern vs" "usable (fp_cve_id p)", OF m u] by (elim exE)
  with same first_match_SomeD [OF x] show ?thesis by simp
qed

subsection \<open>Properties\<close>

text \<open>
  C25: The cache keeps Tier 1 on as long as every refresh succeeds within a minute. From the end of the first refresh
  on the cache is never older than 60 seconds plus the longest refresh, so it is never stale and Tier 1
  answers exactly by its signatures; before the first refresh ends Tier 1 never matches.
\<close>

theorem inspect_cache_freshness:
  assumes "list_all (good_round d) rounds" "rounds \<noteq> []" "0 \<le> d" "d \<le> 60 * 1000000"
    and "hist = start_daemon cmp start rounds" "now \<le> fst (last hist)"
  shows "if now < fst (hd hist) then check_cve_signatures (cache_at hist now) now t = None
    else now - cc_ts (cache_at hist now) \<le> 60 * 1000000 + d \<and>
      (check_cve_signatures (cache_at hist now) now t \<noteq> None \<longleftrightarrow> (\<exists>e \<in> set (cc_entries (cache_at hist now)). fst e t))"
proof -
  obtain r rs where rounds: "rounds = r # rs" using assms(2) by (cases rounds) auto
  note good = assms(1) [unfolded rounds] and h = assms(5) [unfolded rounds]
  show ?thesis
  proof (cases "now < fst (hd hist)")
    case True
    from cache_before_first [OF good h True] have "cc_entries (cache_at hist now) = []" by (simp add: empty_cache_def)
    with True show ?thesis by (simp add: check_cve_signatures_def)
  next
    case False
    then have "now - cc_ts (cache_at hist now) \<le> CVE_CACHE_TTL + d"
      using cache_after_first [OF good h assms(3) _ assms(6)] by simp
    moreover from this assms(4) have "now - cc_ts (cache_at hist now) \<le> CACHE_MAX_AGE"
      by (simp add: CVE_CACHE_TTL_def CACHE_MAX_AGE_def)
    ultimately show ?thesis unfolding check_signatures_iff using False by (simp add: CVE_CACHE_TTL_def)
  qed
qed

definition demo_rounds :: "refresh_round list" where
  "demo_rounds = [\<lparr>rf_took = 1000000, rf_rows = Inr [demo_signature]\<rparr>, \<lparr>rf_took = 30000000, rf_rows = Inr []\<rparr>]"

fun unescape :: "pystr \<Rightarrow> pystr" where
  "unescape [] = []"
| "unescape [c] = [c]"
| "unescape (c # d # r) = (if c = 92 then d # unescape r else c # unescape (d # r))"

text \<open>A compiler for escaped words, for the examples.\<close>

definition demo_compile :: "pystr \<Rightarrow> bool \<Rightarrow> (pystr \<Rightarrow> bool) option" where
  "demo_compile p ic = Some (contains (unescape p))"

theorem inspect_cache_freshness_witness:
  "90000000 - cc_ts (cache_at (start_daemon demo_compile 0 demo_rounds) 90000000) \<le> 90000000"
proof -
  let ?h = "start_daemon demo_compile 0 demo_rounds"
  have g: "list_all (good_round 30000000) demo_rounds" "demo_rounds \<noteq> []"
    by (simp_all add: demo_rounds_def good_round_def)
  have b: "fst (hd ?h) = 6000000" "fst (last ?h) = 96000000"
    by (simp_all add: start_daemon_def demo_rounds_def Let_def STARTUP_DELAY_def CVE_CACHE_TTL_def)
  have "(0::int) \<le> 30000000" "(30000000::int) \<le> 60 * 1000000" "90000000 \<le> fst (last ?h)" using b by simp_all
  from inspect_cache_freshness [OF g this(1,2) refl this(3)] b show ?thesis by simp
qed

text \<open>
  One failed refresh switches Tier 1 off. When the query of a round fails, its successor comes 120 seconds and the
  durations of both rounds after the last success, so the cache is stale before it: in that gap no signature
  matches, however well it is known.
\<close>

theorem inspect_failed_refresh_blinds:
  assumes "hist = cache_daemon cmp u [ok, failed, later] c" "rf_rows ok = Inr sigs" "rf_rows failed = Inl e"
    "0 \<le> rf_took ok" "0 \<le> rf_took failed" "0 \<le> rf_took later"
    and "u + rf_took ok + CACHE_MAX_AGE < now" "now < fst (last hist)"
  shows "fst (last hist) - (u + rf_took ok + CACHE_MAX_AGE) = rf_took failed + rf_took later \<and>
    check_cve_signatures (cache_at hist now) now t = None"
proof -
  let ?c = "refresh_cve_cache cmp (rf_rows ok) (u + rf_took ok) c"
  have ts: "cc_ts ?c = u + rf_took ok" using assms(2) by (simp add: refresh_cve_cache_def)
  have last: "fst (last hist) = u + rf_took ok + CACHE_MAX_AGE + rf_took failed + rf_took later"
    unfolding assms(1) by (simp add: Let_def CVE_CACHE_TTL_def CACHE_MAX_AGE_def)
  have "u + rf_took ok \<le> now" using assms(4,5,7) by (simp add: CACHE_MAX_AGE_def)
  then have "cache_at hist now = ?c"
    using assms(3,8) last unfolding assms(1) cache_at_def
    by (simp add: Let_def refresh_cve_cache_def CVE_CACHE_TTL_def CACHE_MAX_AGE_def)
  with ts last assms(7) show ?thesis by (simp add: check_cve_signatures_def)
qed

theorem inspect_failed_refresh_blinds_witness:
  "check_cve_signatures (cache_at (cache_daemon demo_compile 0
      [\<lparr>rf_took = 0, rf_rows = Inr [demo_signature]\<rparr>, \<lparr>rf_took = 4000000, rf_rows = Inl OSError\<rparr>,
       \<lparr>rf_took = 0, rf_rows = Inr [demo_signature]\<rparr>] empty_cache) 122000000) 122000000 (lit ''jndi'') = None"
  by (rule conjunct2 [OF inspect_failed_refresh_blinds [OF refl]])
    (simp_all add: CACHE_MAX_AGE_def Let_def CVE_CACHE_TTL_def)

text \<open>What \<open>re\<close> documents of an escaped word: it compiles, and finds the word wherever it occurs.\<close>

definition finds_words :: "(pystr \<Rightarrow> bool \<Rightarrow> (pystr \<Rightarrow> bool) option) \<Rightarrow> bool" where
  "finds_words cmp \<longleftrightarrow> (\<forall>w ic. \<exists>m. cmp (re_escape w) ic = Some m \<and> (\<forall>t. contains w t \<longrightarrow> m t))"

lemma word_entry_blocks:
  assumes "finds_words cmp" "lookup_cve rows i = Some r" "cv_active r" "cv_pattern r = re_escape w"
    and "\<not> is_static (ir_uri q)" "s \<in> surfaces q" "contains w s" "now - t \<le> CACHE_MAX_AGE"
  shows "iv_tier (fst (inspect_request (loaded cmp rows t c) now rid q)) = 1 \<and>
    iv_action (fst (inspect_request (loaded cmp rows t c) now rid q)) = lit ''BLOCK''"
proof -
  let ?c = "loaded cmp rows t c"
  obtain m where m: "cmp (cv_pattern r) (signature_ignorecase (signature_of r)) = Some m" "\<And>x. contains w x \<Longrightarrow> m x"
  proof -
    from assms(1) obtain m where "cmp (re_escape w) (signature_ignorecase (signature_of r)) = Some m" "\<forall>t. contains w t \<longrightarrow> m t"
      unfolding finds_words_def by metis
    with assms(4) that show ?thesis by simp
  qed
  have e: "(m, signature_of r) \<in> set (cc_entries ?c)"
    by (rule loaded_entry [where cmp = cmp, OF lookup_member [OF assms(2)] assms(3) m(1)])
  obtain a b where s: "build_scan_target q = a @ s @ b" using surfaces_scanned [OF assms(6)] by blast
  obtain a' b' where w: "s = a' @ w @ b'" using assms(7) by (auto simp: contains_iff)
  have "contains w (build_scan_target q)"
    unfolding contains_iff s w by (intro exI [of _ "a @ a'"] exI [of _ "b' @ b"]) simp
  with m(2) have "m (build_scan_target q)" by blast
  with e have "\<exists>e \<in> set (cc_entries ?c). fst e (build_scan_target q)" by force
  moreover have "cc_ts ?c = t" by (simp add: loaded_def refresh_cve_cache_def)
  ultimately have "check_cve_signatures ?c now (build_scan_target q) \<noteq> None"
    unfolding check_signatures_iff using assms(8) by simp
  with assms(5) show ?thesis by (auto simp: inspect_request_def Let_def block_verdict_def)
qed


lemma unescape_re_escape: "unescape (re_escape w) = w"
proof (induction w)
  case (Cons c w)
  have "unescape (c # re_escape w) = c # unescape (re_escape w)" if "c \<noteq> 92"
    using that by (cases "re_escape w") simp_all
  moreover have "c \<in> set re_special" if "c = 92" using that by (simp add: re_special_def)
  ultimately show ?case using Cons by (auto simp: re_escape_def)
qed (simp add: re_escape_def)


end
