(* ===== verification/Schemas.thy ===== *)
theory Schemas
  imports ServerDb AuditLog Inspect Json
begin

text \<open>
  The request and response models of \<open>server/app/schemas.py\<close> and of the routers: what a JSON body has to hold for a
  handler to be called, with the defaults of missing fields, and what of a row a response shows. Pydantic's reading of
  numbers is a parameter; a text field takes a JSON string only, and a field that is not declared is ignored.
\<close>

subsection \<open>Requests\<close>

text \<open>A field with a default, a field that must be there, a field that may be null.\<close>

definition text_default :: "pystr \<Rightarrow> pystr \<Rightarrow> (pystr \<times> json) list \<Rightarrow> pystr option" where
  "text_default d k ms = (case map_of ms k of None \<Rightarrow> Some d | Some (JStr s) \<Rightarrow> Some s | Some _ \<Rightarrow> None)"

definition text_required :: "pystr \<Rightarrow> (pystr \<times> json) list \<Rightarrow> pystr option" where
  "text_required k ms = (case map_of ms k of Some (JStr s) \<Rightarrow> Some s | _ \<Rightarrow> None)"

definition text_optional :: "pystr \<Rightarrow> (pystr \<times> json) list \<Rightarrow> pystr option option" where
  "text_optional k ms =
     (case map_of ms k of None \<Rightarrow> Some None | Some JNull \<Rightarrow> Some None | Some (JStr s) \<Rightarrow> Some (Some s) | Some _ \<Rightarrow> None)"

text \<open>How Pydantic reads an \<open>int\<close>, and whether it reads a \<open>float\<close>.\<close>

record pydantic =
  pd_int :: "json \<Rightarrow> int option"
  pd_float :: "json \<Rightarrow> bool"

definition int_default :: "pydantic \<Rightarrow> int \<Rightarrow> pystr \<Rightarrow> (pystr \<times> json) list \<Rightarrow> int option" where
  "int_default pd d k ms = (case map_of ms k of None \<Rightarrow> Some d | Some v \<Rightarrow> pd_int pd v)"

definition float_ok :: "pydantic \<Rightarrow> pystr \<Rightarrow> (pystr \<times> json) list \<Rightarrow> bool" where
  "float_ok pd k ms = (case map_of ms k of None \<Rightarrow> True | Some v \<Rightarrow> pd_float pd v)"

text \<open>\<open>AgentRegisterRequest\<close>.\<close>

definition read_register :: "json \<Rightarrow> register_request option" where
  "read_register v =
     (case v of
        JObj ms \<Rightarrow>
          (case (text_required (lit ''agent_id'') ms, text_required (lit ''hostname'') ms, text_optional (lit ''ip'') ms,
                 text_default (lit ''nginx'') (lit ''server_type'') ms, text_optional (lit ''version'') ms,
                 text_required (lit ''api_key'') ms) of
             (Some i, Some h, Some ip, Some st, Some ver, Some k) \<Rightarrow>
               Some \<lparr>rg_agent_id = i, rg_hostname = h, rg_ip = ip, rg_server_type = st, rg_version = ver, rg_api_key = k\<rparr>
           | _ \<Rightarrow> None)
      | _ \<Rightarrow> None)"

text \<open>\<open>TelemetryEvent\<close> and \<open>TelemetryBatch\<close>; the measured numbers must be readable and are not kept.\<close>

definition read_event :: "pydantic \<Rightarrow> json \<Rightarrow> telemetry_event option" where
  "read_event pd v =
     (case v of
        JObj ms \<Rightarrow>
          (case (text_required (lit ''id'') ms, text_default [] (lit ''client_ip'') ms, text_default [] (lit ''method'') ms,
                 text_default [] (lit ''uri'') ms, text_default (lit ''PERMIT'') (lit ''action'') ms,
                 int_default pd 0 (lit ''tier'') ms) of
             (Some i, Some ip, Some m, Some u, Some a, Some t) \<Rightarrow>
               (case (text_optional (lit ''cve_id'') ms, text_optional (lit ''rule_name'') ms, text_optional (lit ''reason'') ms) of
                  (Some c, Some n, Some r) \<Rightarrow>
                    if float_ok pd (lit ''ml_score'') ms \<and> float_ok pd (lit ''latency_ms'') ms
                    then Some \<lparr>te_id = i, te_client_ip = ip, te_method = m, te_uri = u, te_action = a, te_tier = t,
                               te_cve_id = c, te_rule_name = n, te_reason = r\<rparr>
                    else None
                | _ \<Rightarrow> None)
           | _ \<Rightarrow> None)
      | _ \<Rightarrow> None)"

fun read_events :: "pydantic \<Rightarrow> json list \<Rightarrow> telemetry_event list option" where
  "read_events pd [] = Some []"
| "read_events pd (v # vs) =
     (case (read_event pd v, read_events pd vs) of (Some e, Some es) \<Rightarrow> Some (e # es) | _ \<Rightarrow> None)"

definition read_batch :: "pydantic \<Rightarrow> json \<Rightarrow> telemetry_event list option" where
  "read_batch pd v =
     (case v of
        JObj ms \<Rightarrow>
          (case map_of ms (lit ''events'') of
             None \<Rightarrow> Some [] | Some (JArr vs) \<Rightarrow> read_events pd vs | Some _ \<Rightarrow> None)
      | _ \<Rightarrow> None)"

text \<open>\<open>APIKeyCreateRequestV2\<close>, before its own constraints (\<open>valid_key_request\<close>), and \<open>TokenRequest\<close>.\<close>

definition read_key_request :: "pydantic \<Rightarrow> json \<Rightarrow> key_request option" where
  "read_key_request pd v =
     (case v of
        JObj ms \<Rightarrow>
          (case (text_optional (lit ''description'') ms, text_optional (lit ''agent_id'') ms,
                 text_default (lit ''agent'') (lit ''role'') ms,
                 case map_of ms (lit ''expires_in_days'') of
                   None \<Rightarrow> Some None | Some JNull \<Rightarrow> Some None | Some x \<Rightarrow> map_option Some (pd_int pd x)) of
             (Some d, Some a, Some r, Some n) \<Rightarrow> Some \<lparr>kr_description = d, kr_agent_id = a, kr_role = Some r, kr_days = n\<rparr>
           | _ \<Rightarrow> None)
      | _ \<Rightarrow> None)"

definition read_token_request :: "json \<Rightarrow> pystr option" where
  "read_token_request v = (case v of JObj ms \<Rightarrow> text_required (lit ''api_key'') ms | _ \<Rightarrow> None)"

text \<open>\<open>InspectRequest\<close>: every field has a default.\<close>

fun read_texts :: "(pystr \<times> json) list \<Rightarrow> (pystr \<times> pystr) list option" where
  "read_texts [] = Some []"
| "read_texts ((k, v) # ms) =
     (case (v, read_texts ms) of (JStr s, Some d) \<Rightarrow> Some ((k, s) # d) | _ \<Rightarrow> None)"

definition read_headers :: "(pystr \<times> json) list \<Rightarrow> (pystr \<times> pystr) list option" where
  "read_headers ms =
     (case map_of ms (lit ''headers'') of None \<Rightarrow> Some [] | Some (JObj hs) \<Rightarrow> read_texts hs | Some _ \<Rightarrow> None)"

definition read_inspect :: "json \<Rightarrow> http_inspect option" where
  "read_inspect v =
     (case v of
        JObj ms \<Rightarrow>
          (case (text_default (lit ''GET'') (lit ''method'') ms, text_default (lit ''/'') (lit ''uri'') ms,
                 text_default [] (lit ''query_string'') ms, text_default [] (lit ''client_ip'') ms,
                 text_default [] (lit ''user_agent'') ms) of
             (Some m, Some u, Some q, Some ip, Some ua) \<Rightarrow>
               (case (text_default [] (lit ''content_type'') ms, text_default [] (lit ''body'') ms, read_headers ms,
                      text_default [] (lit ''source_app'') ms) of
                  (Some ct, Some b, Some hs, Some src) \<Rightarrow>
                    Some \<lparr>ir_method = m, ir_uri = u, ir_query_string = q, ir_client_ip = ip, ir_user_agent = ua,
                          ir_content_type = ct, ir_body = b, ir_headers = hs, ir_source_app = src\<rparr>
                | _ \<Rightarrow> None)
           | _ \<Rightarrow> None)
      | _ \<Rightarrow> None)"

subsection \<open>Responses\<close>

text \<open>\<open>row_iso\<close> is \<open>isoformat\<close> of a stored time. The primary key of a signature is not kept in the model.\<close>

record update_response =
  ur_cve_id :: pystr
  ur_pattern :: pystr
  ur_severity :: pystr
  ur_cvss :: pyfloat
  ur_product :: pystr
  ur_active :: bool
  ur_modified_at :: pystr

definition show_update :: "(int \<Rightarrow> pystr) \<Rightarrow> cve_row \<Rightarrow> update_response" where
  "show_update row_iso r =
     \<lparr>ur_cve_id = cv_id r, ur_pattern = cv_pattern r, ur_severity = cv_severity r, ur_cvss = cv_cvss r,
      ur_product = cv_product r, ur_active = cv_active r, ur_modified_at = row_iso (cv_modified r)\<rparr>"

record agent_response =
  an_id :: pystr
  an_hostname :: pystr
  an_ip :: pystr
  an_server_type :: pystr
  an_version :: pystr
  an_mode :: pystr
  an_last_seen :: "pystr option"
  an_created_at :: pystr

definition show_agent :: "(int \<Rightarrow> pystr) \<Rightarrow> pystr \<times> agent_row \<Rightarrow> agent_response" where
  "show_agent row_iso p =
     (case p of (i, a) \<Rightarrow>
        \<lparr>an_id = i, an_hostname = ag_hostname a, an_ip = ag_ip a, an_server_type = ag_server_type a,
         an_version = ag_version a, an_mode = ag_mode a, an_last_seen = map_option row_iso (ag_last_seen a),
         an_created_at = row_iso (ag_created a)\<rparr>)"

record key_response =
  ks_key :: pystr
  ks_description :: pystr
  ks_expires_at :: "pystr option"

record token_response =
  ts_access_token :: pystr
  ts_token_type :: pystr
  ts_expires_in :: int
  ts_role :: pystr

record telemetry_ack =
  tk_accepted :: nat
  tk_status :: pystr

definition show_key :: "pystr \<times> pystr \<times> pystr option \<Rightarrow> key_response" where
  "show_key x = (case x of (k, d, e) \<Rightarrow> \<lparr>ks_key = k, ks_description = d, ks_expires_at = e\<rparr>)"

definition show_token :: "pystr \<times> int \<times> pystr \<Rightarrow> token_response" where
  "show_token x =
     (case x of (t, n, r) \<Rightarrow> \<lparr>ts_access_token = t, ts_token_type = lit ''bearer'', ts_expires_in = n, ts_role = r\<rparr>)"

definition show_ack :: "nat \<Rightarrow> telemetry_ack" where
  "show_ack n = \<lparr>tk_accepted = n, tk_status = lit ''queued''\<rparr>"

end
