(* ===== verification/ServerApi.thy ===== *)
theory ServerApi
  imports ServerStack FeedInspect Schemas
begin

text \<open>
  The whole API of the central server: every endpoint that \<open>main.py\<close> mounts as one call, dispatched to the handlers
  of the routers over one state (keys, signatures, agents and events, audit table, inspection cache, waiting
  background tasks); the calls behind the middleware stack; and runs of the server in which requests, audit workers,
  background tasks, feed synchronisations and cache refreshes follow one another in any order.

  Matching a path to an endpoint and reading the parameters and the JSON body is the framework's work: it is the
  parameter \<open>decode\<close> of the routes. A handler runs as one step, and so does the session it holds.
\<close>

subsection \<open>Calls and state\<close>

text \<open>What an endpoint demands of the credentials: its dependency.\<close>

datatype access = Anyone | AnyCredential | Roles "pystr list"

text \<open>The endpoints in the order of the routers. \<open>IllFormed\<close> is a call of some endpoint whose fields do not validate.\<close>

datatype api_call =
    CreateKey key_request
  | ExchangeToken pystr
  | WhoAmI
  | GetUpdates "int option option" pystr
  | PostTelemetry "telemetry_event list"
  | RegisterAgent register_request
  | ListAgents
  | SetAgentMode pystr pystr
  | Heartbeat pystr
  | DeleteAgent pystr
  | GetSummary int "pystr option"
  | GetTimeline int "pystr option"
  | GetEvents nat "pystr option"
  | ListAudit int int "pystr option" "int option"
  | VerifyAudit
  | PurgeAudit int
  | ResetAudit
  | InspectCall http_inspect
  | Health
  | IllFormed access

text \<open>What a handler leaves for after its response.\<close>

datatype background =
    PersistEvents pystr "telemetry_event list"
  | PersistInspect http_inspect inspect_verdict pystr

record api_state =
  ap_keys :: "api_key_row list"
  ap_sigs :: "cve_row list"
  ap_db :: event_db
  ap_audit :: audit_state
  ap_cache :: cve_cache
  ap_tasks :: "background list"

record api_config =
  ac_lib :: auth_lib
  ac_settings :: settings
  ac_pem :: "pystr \<times> pystr"
  ac_row_iso :: "int \<Rightarrow> pystr"

text \<open>What one call reads: the clock, the monotonic clock, a fresh key and a fresh identifier.\<close>

record api_env =
  en_now :: int
  en_mono :: int
  en_key :: pystr
  en_uuid :: pystr

datatype api_reply =
    NewKey key_response
  | Token token_response
  | Actor pystr
  | Signatures "update_response list"
  | Queued telemetry_ack
  | AgentRow agent_response
  | AgentRows "agent_response list"
  | ModeSet "pystr \<times> pystr"
  | Seen "pystr \<times> pystr"
  | NoContent
  | Summary summary
  | Timeline "(pystr \<times> nat \<times> nat) list"
  | EventRows "(pystr \<times> event_row) list"
  | AuditRows "audit_row list"
  | Verified verify_result
  | ChainReset "pystr \<times> nat"
  | Verdict inspect_verdict
  | Healthy

definition answered :: "('a \<Rightarrow> api_reply) \<Rightarrow> 'a http \<Rightarrow> api_reply http" where
  "answered f r = map_sum (\<lambda>e. e) f r"

text \<open>The status codes the decorators declare for success.\<close>

definition success_status :: "api_call \<Rightarrow> int" where
  "success_status call =
     (case call of
        CreateKey q \<Rightarrow> 201
      | RegisterAgent q \<Rightarrow> 201
      | PostTelemetry evs \<Rightarrow> 202
      | DeleteAgent i \<Rightarrow> 204
      | PurgeAudit d \<Rightarrow> 204
      | _ \<Rightarrow> 200)"

text \<open>The \<open>Depends\<close> of each endpoint, and what it returns.\<close>

definition access_of :: "api_call \<Rightarrow> access" where
  "access_of call =
     (case call of
        CreateKey q \<Rightarrow> Roles [lit ''admin'']
      | ExchangeToken key \<Rightarrow> Anyone
      | RegisterAgent q \<Rightarrow> Anyone
      | ListAudit n k a since \<Rightarrow> Roles [lit ''admin'', lit ''viewer'']
      | VerifyAudit \<Rightarrow> Roles [lit ''admin'']
      | PurgeAudit d \<Rightarrow> Roles [lit ''admin'']
      | ResetAudit \<Rightarrow> Roles [lit ''admin'']
      | Health \<Rightarrow> Anyone
      | IllFormed a \<Rightarrow> a
      | _ \<Rightarrow> AnyCredential)"

definition authorize :: "api_config \<Rightarrow> int \<Rightarrow> api_key_row list \<Rightarrow> access \<Rightarrow> credentials \<Rightarrow> pystr http" where
  "authorize cfg now keys a c =
     (case a of
        Anyone \<Rightarrow> Inr []
      | AnyCredential \<Rightarrow> verify_api_key (ac_lib cfg) (ac_settings cfg) (ac_pem cfg) keys now c
      | Roles rs \<Rightarrow> require_role (ac_lib cfg) (ac_settings cfg) (ac_pem cfg) keys now rs c)"

text \<open>The endpoints that take a JSON body, and the call a body makes of them.\<close>

datatype post_endpoint = PostKeys | PostToken | PostEvents | PostRegister | PostInspect

definition post_access :: "post_endpoint \<Rightarrow> access" where
  "post_access p =
     (case p of PostKeys \<Rightarrow> Roles [lit ''admin''] | PostToken \<Rightarrow> Anyone | PostEvents \<Rightarrow> AnyCredential
      | PostRegister \<Rightarrow> Anyone | PostInspect \<Rightarrow> AnyCredential)"

definition body_call :: "pydantic \<Rightarrow> post_endpoint \<Rightarrow> json \<Rightarrow> api_call" where
  "body_call pd p v =
     (case (case p of
              PostKeys \<Rightarrow> map_option CreateKey (read_key_request pd v)
            | PostToken \<Rightarrow> map_option ExchangeToken (read_token_request v)
            | PostEvents \<Rightarrow> map_option PostTelemetry (read_batch pd v)
            | PostRegister \<Rightarrow> map_option RegisterAgent (read_register v)
            | PostInspect \<Rightarrow> map_option InspectCall (read_inspect v)) of
        None \<Rightarrow> IllFormed (post_access p)
      | Some call \<Rightarrow> call)"

text \<open>No body changes what its endpoint demands.\<close>

lemma body_call_access: "access_of (body_call pd p v) = post_access p"
  by (cases p) (auto simp: body_call_def post_access_def access_of_def split: option.split)

subsection \<open>Dispatch\<close>

text \<open>The health endpoint of \<open>main.py\<close> needs nothing; every other one calls the handler of its router.\<close>

definition api :: "api_config \<Rightarrow> api_env \<Rightarrow> api_call \<Rightarrow> credentials \<Rightarrow> api_state \<Rightarrow> api_reply http \<times> api_state" where
  "api cfg env call c s =
     (let lib = ac_lib cfg; st = ac_settings cfg; pem = ac_pem cfg; now = en_now env; keys = ap_keys s; db = ap_db s;
          auth = verify_api_key lib st pem keys now c; row_iso = ac_row_iso cfg
      in case call of
           CreateKey q \<Rightarrow>
             (case create_api_key lib st pem now (en_key env) q c keys of
                (r, keys') \<Rightarrow> (answered (NewKey \<circ> show_key) r, s\<lparr>ap_keys := keys'\<rparr>))
         | ExchangeToken key \<Rightarrow> (answered (Token \<circ> show_token) (exchange_for_token lib st pem keys now key), s)
         | WhoAmI \<Rightarrow> (answered Actor (whoami lib st pem keys now c), s)
         | GetUpdates since i \<Rightarrow>
             (case get_updates auth now since i (ap_sigs s) db of
                (r, db') \<Rightarrow> (answered (Signatures \<circ> map (show_update row_iso)) r, s\<lparr>ap_db := db'\<rparr>))
         | PostTelemetry evs \<Rightarrow>
             (case ingest_telemetry auth evs of
                (r, task) \<Rightarrow>
                  (answered (Queued \<circ> show_ack) r,
                   s\<lparr>ap_tasks := ap_tasks s @ (case task of None \<Rightarrow> [] | Some (a, es) \<Rightarrow> [PersistEvents a es])\<rparr>))
         | RegisterAgent q \<Rightarrow>
             (case register_agent lib st now q db of (r, db') \<Rightarrow> (answered (AgentRow \<circ> show_agent row_iso) r, s\<lparr>ap_db := db'\<rparr>))
         | ListAgents \<Rightarrow> (answered (AgentRows \<circ> map (show_agent row_iso)) (list_agents auth db), s)
         | SetAgentMode i m \<Rightarrow>
             (case set_agent_mode auth i m db of (r, db') \<Rightarrow> (answered ModeSet r, s\<lparr>ap_db := db'\<rparr>))
         | Heartbeat i \<Rightarrow>
             (case agent_heartbeat auth now i db of (r, db') \<Rightarrow> (answered Seen r, s\<lparr>ap_db := db'\<rparr>))
         | DeleteAgent i \<Rightarrow>
             (case delete_agent auth i db of (r, db') \<Rightarrow> (answered (\<lambda>u. NoContent) r, s\<lparr>ap_db := db'\<rparr>))
         | GetSummary h a \<Rightarrow> (answered Summary (get_summary auth now h a db), s)
         | GetTimeline h a \<Rightarrow> (answered Timeline (get_timeline auth now h a db), s)
         | GetEvents n a \<Rightarrow> (answered EventRows (get_events auth n a db), s)
         | ListAudit n k a since \<Rightarrow>
             (answered AuditRows (get_audit lib st pem keys now c n k a since (as_rows (ap_audit s))), s)
         | VerifyAudit \<Rightarrow>
             (answered Verified (get_verify lib st pem keys now c row_iso (as_rows (ap_audit s))), s)
         | PurgeAudit d \<Rightarrow>
             (case delete_purge lib st pem keys now c d (ap_audit s) of
                (r, a) \<Rightarrow> (answered (\<lambda>u. NoContent) r, s\<lparr>ap_audit := a\<rparr>))
         | ResetAudit \<Rightarrow>
             (case post_reset lib st pem keys now c True (ap_audit s) of
                (r, a) \<Rightarrow> (answered ChainReset r, s\<lparr>ap_audit := a\<rparr>))
         | InspectCall q \<Rightarrow>
             (case auth of
                Inl e \<Rightarrow> (Inl e, s)
              | Inr actor \<Rightarrow>
                  (case inspect_request (ap_cache s) (en_mono env) (en_uuid env) q of
                     (v, stored) \<Rightarrow>
                       (Inr (Verdict v), s\<lparr>ap_tasks := ap_tasks s @ (if stored then [PersistInspect q v actor] else [])\<rparr>)))
         | Health \<Rightarrow> (Inr Healthy, s)
         | IllFormed a \<Rightarrow> (case authorize cfg now keys a c of Inl e \<Rightarrow> (Inl e, s) | Inr x \<Rightarrow> (Inl 422, s)))"

text \<open>
  The routes behind the stack. \<open>decode\<close> gives the call, or the status of the framework's own answer (404, 405, 307, or
  422 for a body that is not JSON). The handlers' only 500 is an exception of the commit, which passes through the stack as one.
\<close>

definition api_route ::
  "(server_request \<Rightarrow> int + api_call) \<Rightarrow> api_config \<Rightarrow> api_env \<Rightarrow> server_request \<Rightarrow> api_state \<Rightarrow>
     (api_reply http) server_response option \<times> api_state" where
  "api_route decode cfg env r s =
     (case decode r of
        Inl n \<Rightarrow> (Some \<lparr>sr_status = n, sr_headers = [], sr_body = Routed (Inl (nat n))\<rparr>, s)
      | Inr call \<Rightarrow>
          (case api cfg env call (cred_view r) s of
             (Inl e, s') \<Rightarrow>
               (if e = 500 then None else Some \<lparr>sr_status = int e, sr_headers = [], sr_body = Routed (Inl e)\<rparr>, s')
           | (Inr x, s') \<Rightarrow> (Some \<lparr>sr_status = success_status call, sr_headers = [], sr_body = Routed (Inr x)\<rparr>, s')))"

text \<open>The stack and the routes share the audit table.\<close>

definition serve_api ::
  "(server_request \<Rightarrow> int + api_call) \<Rightarrow> api_config \<Rightarrow> meeting \<Rightarrow> api_env \<Rightarrow> server_request \<Rightarrow> api_state server \<Rightarrow>
     (api_reply http) server_response option \<times> api_state server" where
  "serve_api decode cfg m env r s =
     (case serve (api_route decode cfg env) m r (s\<lparr>sv_app := (sv_app s)\<lparr>ap_audit := sv_audit s\<rparr>\<rparr>) of
        (p, s') \<Rightarrow> (p, s'\<lparr>sv_audit := ap_audit (sv_app s')\<rparr>))"

subsection \<open>Runs\<close>

text \<open>A background task that has been left by a handler runs; requests of other clients may have come between.\<close>

definition run_task :: "int \<Rightarrow> nat \<Rightarrow> api_state \<Rightarrow> api_state" where
  "run_task now i s =
     (if i < length (ap_tasks s) then
        s\<lparr>ap_db := (case ap_tasks s ! i of
                      PersistEvents a evs \<Rightarrow> persist_events now a evs (ap_db s)
                    | PersistInspect q v actor \<Rightarrow> persist_inspect_event now q v actor (ap_db s)),
          ap_tasks := take i (ap_tasks s) @ drop (Suc i) (ap_tasks s)\<rparr>
      else s)"

datatype server_step =
    Request meeting api_env server_request
  | Worker int bool nat
  | Background int nat
  | SyncFeeds "pystr \<Rightarrow> bool" int pystr feeds
  | RefreshCache "pystr \<Rightarrow> bool \<Rightarrow> (pystr \<Rightarrow> bool) option" int

definition server_step ::
  "(server_request \<Rightarrow> int + api_call) \<Rightarrow> api_config \<Rightarrow> server_step \<Rightarrow> api_state server \<Rightarrow> api_state server" where
  "server_step decode cfg e s =
     (case e of
        Request m env r \<Rightarrow> snd (serve_api decode cfg m env r s)
      | Worker now io i \<Rightarrow> run_worker (al_hmac (ac_lib cfg)) (st_secret (ac_settings cfg)) now io i s
      | Background now i \<Rightarrow> s\<lparr>sv_app := run_task now i (sv_app s)\<rparr>
      | SyncFeeds valid now nvd_api_key f \<Rightarrow>
          s\<lparr>sv_app := (sv_app s)\<lparr>ap_sigs := snd (sync_all valid now nvd_api_key f (ap_sigs (sv_app s)))\<rparr>\<rparr>
      | RefreshCache cmp now \<Rightarrow>
          s\<lparr>sv_app := (sv_app s)\<lparr>ap_cache := loaded cmp (ap_sigs (sv_app s)) now (ap_cache (sv_app s))\<rparr>\<rparr>)"

definition server_run ::
  "(server_request \<Rightarrow> int + api_call) \<Rightarrow> api_config \<Rightarrow> server_step list \<Rightarrow> api_state server \<Rightarrow> api_state server" where
  "server_run decode cfg es s = foldl (\<lambda>s e. server_step decode cfg e s) s es"

subsection \<open>Who may call what\<close>

definition admits :: "api_config \<Rightarrow> int \<Rightarrow> api_key_row list \<Rightarrow> access \<Rightarrow> credentials \<Rightarrow> bool" where
  "admits cfg now keys a c \<longleftrightarrow>
     a = Anyone \<or>
     (\<exists>raw actor role. presented c = Some raw \<and>
        grants (ac_lib cfg) (ac_settings cfg) (ac_pem cfg) keys now raw actor role \<and>
        (case a of Roles rs \<Rightarrow> role \<in> set rs | _ \<Rightarrow> True))"

abbreviation in_production :: "api_config \<Rightarrow> bool" where
  "in_production cfg \<equiv> st_environment (ac_settings cfg) \<noteq> lit ''development''"

lemma with_role_error: "verify_api_key_with_role lib st pem rows now c = Inl e \<Longrightarrow> e = 401 \<or> e = 403"
  using lookup_error
  by (fastforce simp: verify_api_key_with_role_def decode_access_token_def Let_def split: option.splits if_splits sum.splits)

lemma verify_error: "verify_api_key lib st pem rows now c = Inl e \<Longrightarrow> e = 401 \<or> e = 403"
  using lookup_error
  by (fastforce simp: verify_api_key_def decode_access_token_def Let_def split: option.splits if_splits sum.splits)

lemma authorize_error: "authorize cfg now keys a c = Inl e \<Longrightarrow> e = 401 \<or> e = 403"
  by (auto simp: authorize_def require_role_def dest: with_role_error verify_error split: access.splits sum.splits if_splits)

lemma authorize_iff:
  assumes "in_production cfg" "distinct (map k_hash keys)"
  shows "(\<exists>x. authorize cfg now keys a c = Inr x) \<longleftrightarrow> admits cfg now keys a c"
proof (cases a)
  case AnyCredential
  have "(\<exists>x. verify_api_key (ac_lib cfg) (ac_settings cfg) (ac_pem cfg) keys now c = Inr x) \<longleftrightarrow>
      (\<exists>actor role. verify_api_key_with_role (ac_lib cfg) (ac_settings cfg) (ac_pem cfg) keys now c = Inr (actor, role))"
    unfolding verify_api_key_actor [OF assms(1)]
    by (cases "verify_api_key_with_role (ac_lib cfg) (ac_settings cfg) (ac_pem cfg) keys now c") auto
  with AnyCredential show ?thesis unfolding with_role_exact [OF assms] by (auto simp: authorize_def admits_def)
next
  case (Roles rs)
  have "(\<exists>x. require_role (ac_lib cfg) (ac_settings cfg) (ac_pem cfg) keys now rs c = Inr x) \<longleftrightarrow>
      (\<exists>actor role. verify_api_key_with_role (ac_lib cfg) (ac_settings cfg) (ac_pem cfg) keys now c = Inr (actor, role) \<and>
        role \<in> set rs)"
    by (auto simp: require_role_def split: sum.split)
  with Roles show ?thesis unfolding with_role_exact [OF assms] by (auto simp: authorize_def admits_def)
qed (simp add: authorize_def admits_def)

lemmas api_handlers =
  create_api_key_def exchange_for_token_def whoami_def get_updates_def ingest_telemetry_def list_agents_def
  set_agent_mode_def agent_heartbeat_def delete_agent_def get_summary_def get_timeline_def get_events_def
  get_audit_def get_verify_def delete_purge_def post_reset_def

lemma api_refused:
  assumes "authorize cfg (en_now env) (ap_keys s) (access_of call) c = Inl e"
  shows "api cfg env call c s = (Inl e, s)"
  using assms
  by (cases call) (simp_all add: api_def access_of_def authorize_def api_handlers answered_def)

lemma api_granted:
  assumes "authorize cfg (en_now env) (ap_keys s) (access_of call) c = Inr x" "access_of call \<noteq> Anyone"
  shows "fst (api cfg env call c s) \<noteq> Inl 401" "fst (api cfg env call c s) \<noteq> Inl 403"
  using assms
  by (cases call;
      auto simp: api_def access_of_def authorize_def api_handlers answered_def Let_def split: option.split prod.split if_split)+

lemma api_open:
  assumes "access_of call = Anyone"
  shows "\<exists>db. snd (api cfg env call c s) = s\<lparr>ap_db := db\<rparr> \<and> ed_events db = ed_events (ap_db s) \<and>
    (\<exists>new. ed_agents db = ed_agents (ap_db s) @ new \<and> list_all (\<lambda>(i, a). ag_mode a = lit ''shadow'') new)"
proof -
  have same: "\<exists>db. s = s\<lparr>ap_db := db\<rparr> \<and> ed_events db = ed_events (ap_db s) \<and>
      (\<exists>new. ed_agents db = ed_agents (ap_db s) @ new \<and> list_all (\<lambda>(i, a). ag_mode a = lit ''shadow'') new)"
    by (rule exI [of _ "ap_db s"]) simp
  show ?thesis
  proof (cases call)
    case (RegisterAgent q)
    show ?thesis
    proof (cases "map_of (ed_agents (ap_db s)) (rg_agent_id q)")
      case None
      then show ?thesis
        by (intro exI [of _ "snd (register_agent (ac_lib cfg) (ac_settings cfg) (en_now env) q (ap_db s))"])
          (simp add: RegisterAgent api_def register_agent_def Let_def)
    next
      case (Some a)
      with same show ?thesis by (simp add: RegisterAgent api_def register_agent_def Let_def)
    qed
  qed (use assms same in \<open>simp_all add: api_def access_of_def authorize_def\<close>)
qed

text \<open>What the stack does to the state around the routes.\<close>

lemma serve_state:
  "\<exists>ls es. snd (serve route m r s) = s\<lparr>sv_limits := ls, sv_pending := sv_pending s @ es,
     sv_app := (if fst (rate_dispatch (mt_now m) (limit_view r) (sv_limits s)) = None then sv_app s
                else snd (route r (sv_app s)))\<rparr>"
proof (cases "rate_dispatch (mt_now m) (limit_view r) (sv_limits s)")
  case (Pair d ls)
  show ?thesis
  proof (cases d)
    case None
    with Pair show ?thesis
      by (intro exI [of _ ls] exI [of _ "[]"]) (simp add: serve_def)
  next
    case (Some left)
    then show ?thesis using Pair
      by (intro exI [of _ ls] exI [of _ "snd (audit_dispatch (mt_uuid m) (mt_elapsed m) r
          (security_dispatch (mt_header_uuid m) r (fst (route r (sv_app s)))))"])
        (simp add: serve_def split: prod.split)
  qed
qed

lemma api_route_state:
  "snd (api_route decode cfg env r s) =
     (case decode r of Inl n \<Rightarrow> s | Inr call \<Rightarrow> snd (api cfg env call (cred_view r) s))"
  by (simp add: api_route_def split: sum.split prod.split)

lemma serve_api_state:
  obtains ls es app where
    "snd (serve_api decode cfg m env r s) = s\<lparr>sv_limits := ls, sv_pending := sv_pending s @ es, sv_audit := ap_audit app, sv_app := app\<rparr>"
    "app = (sv_app s)\<lparr>ap_audit := sv_audit s\<rparr> \<or>
     (\<exists>call. decode r = Inr call \<and> app = snd (api cfg env call (cred_view r) ((sv_app s)\<lparr>ap_audit := sv_audit s\<rparr>)))"
proof -
  let ?s = "s\<lparr>sv_app := (sv_app s)\<lparr>ap_audit := sv_audit s\<rparr>\<rparr>"
  let ?app = "sv_app (snd (serve (api_route decode cfg env) m r ?s))"
  obtain ls es app where h: "snd (serve (api_route decode cfg env) m r ?s) = ?s\<lparr>sv_limits := ls, sv_pending := sv_pending s @ es, sv_app := app\<rparr>"
    "app = sv_app ?s \<or> app = snd (api_route decode cfg env r (sv_app ?s))"
    using serve_state [of "api_route decode cfg env" m r ?s] by (auto split: if_splits)
  have "snd (serve_api decode cfg m env r s) = s\<lparr>sv_limits := ls, sv_pending := sv_pending s @ es, sv_audit := ap_audit app, sv_app := app\<rparr>"
    using h(1) by (simp add: serve_api_def case_prod_beta)
  moreover have "app = sv_app ?s \<or> (\<exists>call. decode r = Inr call \<and> app = snd (api cfg env call (cred_view r) (sv_app ?s)))"
    using h(2) by (auto simp: api_route_state split: sum.splits)
  ultimately show thesis using that by simp
qed

subsection \<open>Clients without rights\<close>

text \<open>Steps of clients whose credentials the server refuses, with the server's own work on what they leave.\<close>

definition refused :: "api_config \<Rightarrow> api_key_row list \<Rightarrow> server_step \<Rightarrow> bool" where
  "refused cfg keys e \<longleftrightarrow>
     (case e of
        Request m env r \<Rightarrow> (case authorize cfg (en_now env) keys AnyCredential (cred_view r) of Inl n \<Rightarrow> True | Inr a \<Rightarrow> False)
      | Worker now io i \<Rightarrow> True
      | Background now i \<Rightarrow> True
      | SyncFeeds valid now k f \<Rightarrow> False
      | RefreshCache cmp now \<Rightarrow> False)"

text \<open>All that differs: new agents in shadow mode, new rows of the audit log.\<close>

definition unharmed :: "api_state server \<Rightarrow> api_state server \<Rightarrow> bool" where
  "unharmed s s' \<longleftrightarrow>
     ap_keys (sv_app s') = ap_keys (sv_app s) \<and> ap_sigs (sv_app s') = ap_sigs (sv_app s) \<and>
     ap_cache (sv_app s') = ap_cache (sv_app s) \<and> ap_tasks (sv_app s') = ap_tasks (sv_app s) \<and>
     ed_events (ap_db (sv_app s')) = ed_events (ap_db (sv_app s)) \<and>
     (\<exists>new. ed_agents (ap_db (sv_app s')) = ed_agents (ap_db (sv_app s)) @ new \<and>
        list_all (\<lambda>(i, a). ag_mode a = lit ''shadow'') new) \<and>
     (\<exists>rows. as_rows (sv_audit s') = as_rows (sv_audit s) @ rows)"

lemma unharmed_refl: "unharmed s s"
  by (simp add: unharmed_def)

lemma unharmed_trans: "unharmed s s' \<Longrightarrow> unharmed s' s'' \<Longrightarrow> unharmed s s''"
  unfolding unharmed_def by fastforce

lemma refused_call:
  assumes "in_production cfg" "authorize cfg (en_now env) (ap_keys s) AnyCredential c = Inl n" "access_of call \<noteq> Anyone"
  shows "\<exists>e. api cfg env call c s = (Inl e, s) \<and> (e = 401 \<or> e = 403)"
proof -
  have "\<exists>e. authorize cfg (en_now env) (ap_keys s) (access_of call) c = Inl e"
    using assms
    by (cases "access_of call") (auto simp: authorize_def verify_api_key_actor require_role_def map_sum_def split: sum.splits)
  then show ?thesis using api_refused authorize_error by blast
qed

lemma refused_request:
  assumes "in_production cfg" "refused cfg (ap_keys (sv_app s)) (Request m env r)"
  shows "unharmed s (snd (serve_api decode cfg m env r s))"
proof (rule serve_api_state [of decode cfg m env r s])
  fix ls es app
  let ?a = "(sv_app s)\<lparr>ap_audit := sv_audit s\<rparr>"
  assume h: "snd (serve_api decode cfg m env r s) = s\<lparr>sv_limits := ls, sv_pending := sv_pending s @ es, sv_audit := ap_audit app, sv_app := app\<rparr>"
  assume "app = ?a \<or> (\<exists>call. decode r = Inr call \<and> app = snd (api cfg env call (cred_view r) ?a))"
  then show ?thesis
  proof
    assume "app = ?a"
    with h show ?thesis by (simp add: unharmed_def)
  next
    assume "\<exists>call. decode r = Inr call \<and> app = snd (api cfg env call (cred_view r) ?a)"
    then obtain call where call: "app = snd (api cfg env call (cred_view r) ?a)" by blast
    obtain n where n: "authorize cfg (en_now env) (ap_keys ?a) AnyCredential (cred_view r) = Inl n"
      using assms(2) by (auto simp: refused_def split: sum.splits)
    show ?thesis
    proof (cases "access_of call = Anyone")
      case True
      from api_open [OF this, of cfg env "cred_view r" ?a] h call show ?thesis by (auto simp: unharmed_def)
    next
      case False
      from refused_call [OF assms(1) n False] h call show ?thesis by (auto simp: unharmed_def)
    qed
  qed
qed

lemma worker_unharmed: "unharmed s (run_worker hm secret now io i s)"
proof (cases "i < length (sv_pending s)")
  case True
  then show ?thesis
    using append_cases [of hm secret now io "sv_pending s ! i" "sv_audit s"]
    by (cases "append_to_chain hm secret now io (sv_pending s ! i) (sv_audit s) = sv_audit s")
      (auto simp: run_worker_def unharmed_def, metis audit_state.select_convs(1))
qed (simp add: run_worker_def unharmed_refl)

lemma refused_step:
  assumes "in_production cfg" "refused cfg (ap_keys (sv_app s)) e" "ap_tasks (sv_app s) = []"
  shows "unharmed s (server_step decode cfg e s)"
proof (cases e)
  case (Request m env r)
  with refused_request [OF assms(1)] assms(2) show ?thesis by (simp add: server_step_def)
next
  case (Worker now io i)
  then show ?thesis by (simp add: server_step_def worker_unharmed)
next
  case (Background now i)
  with assms(3) show ?thesis by (simp add: server_step_def run_task_def unharmed_def)
qed (use assms(2) in \<open>simp_all add: refused_def\<close>)

lemma refused_run:
  assumes "in_production cfg" "list_all (refused cfg (ap_keys (sv_app s))) es" "ap_tasks (sv_app s) = []"
  shows "unharmed s (server_run decode cfg es s)"
  using assms(2,3)
proof (induction es arbitrary: s)
  case Nil
  then show ?case by (simp add: server_run_def unharmed_refl)
next
  case (Cons e es)
  let ?s = "server_step decode cfg e s"
  have u: "unharmed s ?s" using refused_step [OF assms(1)] Cons.prems by simp
  then have "list_all (refused cfg (ap_keys (sv_app ?s))) es" "ap_tasks (sv_app ?s) = []"
    using Cons.prems by (simp_all add: unharmed_def)
  from unharmed_trans [OF u Cons.IH [OF this]] show ?case by (simp add: server_run_def)
qed

subsection \<open>Integrity of the whole state\<close>

definition task_ok :: "background \<Rightarrow> bool" where
  "task_ok t \<longleftrightarrow> (case t of PersistEvents a evs \<Rightarrow> length evs \<le> 1000 | PersistInspect q v actor \<Rightarrow> True)"

definition state_ok :: "api_config \<Rightarrow> api_state \<Rightarrow> bool" where
  "state_ok cfg s \<longleftrightarrow>
     db_ok (ap_db s) \<and> distinct (map k_hash (ap_keys s)) \<and> distinct (map cv_id (ap_sigs s)) \<and>
     list_all task_ok (ap_tasks s) \<and>
     list_all (sealed (al_hmac (ac_lib cfg)) (st_secret (ac_settings cfg))) (as_rows (ap_audit s))"

definition server_ok :: "api_config \<Rightarrow> api_state server \<Rightarrow> bool" where
  "server_ok cfg s \<longleftrightarrow> state_ok cfg ((sv_app s)\<lparr>ap_audit := sv_audit s\<rparr>)"

lemma db_ok_ensure: "db_ok db \<Longrightarrow> db_ok (snd (ensure_agent_registered now a db))"
  by (auto simp: ensure_agent_registered_def Let_def intro: db_ok_update db_ok_new_agent split: option.split)

lemma db_ok_inspect: "db_ok db \<Longrightarrow> db_ok (persist_inspect_event now q v actor db)"
  using db_ok_ensure [of db now "or_else (ir_source_app q) (or_else actor VERCEL_AGENT_ID)"]
  by (auto simp: persist_inspect_event_def Let_def case_prod_beta intro: db_ok_commit split: sum.split)

lemma db_ok_handlers:
  assumes "db_ok db"
  shows "db_ok (snd (register_agent lib st now q db))" "db_ok (snd (set_agent_mode auth i m db))"
    "db_ok (snd (agent_heartbeat auth now i db))" "db_ok (snd (delete_agent auth i db))"
    "db_ok (snd (get_updates auth now since i sigs db))"
proof -
  show "db_ok (snd (delete_agent auth i db))" using assms by (rule db_ok_delete)
  show "db_ok (snd (register_agent lib st now q db))"
    using assms by (auto simp: register_agent_def Let_def intro: db_ok_new_agent split: option.split)
  show "db_ok (snd (set_agent_mode auth i m db))" "db_ok (snd (agent_heartbeat auth now i db))"
    using assms by (auto simp: set_agent_mode_def agent_heartbeat_def intro: db_ok_update split: sum.split)
  show "db_ok (snd (get_updates auth now since i sigs db))"
    using assms by (auto simp: get_updates_def intro: db_ok_update split: sum.split option.split)
qed

lemma keys_created:
  "distinct (map k_hash keys) \<Longrightarrow> distinct (map k_hash (snd (create_api_key lib st pem now raw q c keys)))"
  by (auto simp: create_api_key_def split: sum.split)

lemma audit_kept:
  assumes "list_all P (as_rows s)"
  shows "list_all P (as_rows (snd (delete_purge lib st pem keys now c d s)))"
    "list_all P (as_rows (snd (post_reset lib st pem keys now c h s)))"
  using assms
  by (auto simp: delete_purge_def purge_old_entries_def post_reset_def reset_chain_def list_all_iff split: sum.split)

lemma state_ok_parts:
  assumes "state_ok cfg s"
  shows "db_ok db \<Longrightarrow> state_ok cfg (s\<lparr>ap_db := db\<rparr>)"
    "distinct (map k_hash keys) \<Longrightarrow> state_ok cfg (s\<lparr>ap_keys := keys\<rparr>)"
    "list_all task_ok ts \<Longrightarrow> state_ok cfg (s\<lparr>ap_tasks := ap_tasks s @ ts\<rparr>)"
    "list_all (sealed (al_hmac (ac_lib cfg)) (st_secret (ac_settings cfg))) (as_rows a) \<Longrightarrow> state_ok cfg (s\<lparr>ap_audit := a\<rparr>)"
  using assms by (simp_all add: state_ok_def)

lemma inspect_call_ok:
  assumes "state_ok cfg s"
  shows "state_ok cfg (snd (api cfg env (InspectCall q) c s))"
proof (cases "verify_api_key (ac_lib cfg) (ac_settings cfg) (ac_pem cfg) (ap_keys s) (en_now env) c")
  case (Inr actor)
  obtain v stored where v: "inspect_request (ap_cache s) (en_mono env) (en_uuid env) q = (v, stored)"
    by (cases "inspect_request (ap_cache s) (en_mono env) (en_uuid env) q")
  have "list_all task_ok (if stored then [PersistInspect q v actor] else [])" by (simp add: task_ok_def)
  from state_ok_parts(3) [OF assms this] show ?thesis by (simp add: api_def Inr v Let_def)
qed (use assms in \<open>simp add: api_def Let_def\<close>)

lemma api_ok:
  assumes "state_ok cfg s"
  shows "state_ok cfg (snd (api cfg env call c s))"
proof -
  have tasks: "list_all task_ok (case snd (ingest_telemetry auth evs) of None \<Rightarrow> [] | Some p \<Rightarrow> [PersistEvents (fst p) (snd p)])"
    for auth evs by (simp add: ingest_telemetry_def task_ok_def MAX_BATCH_SIZE_def split: sum.split)
  have parts: "db_ok (ap_db s)" "distinct (map k_hash (ap_keys s))"
    "list_all (sealed (al_hmac (ac_lib cfg)) (st_secret (ac_settings cfg))) (as_rows (ap_audit s))"
    using assms by (simp_all add: state_ok_def)
  note kept = state_ok_parts [OF assms] db_ok_handlers [OF parts(1)] keys_created [OF parts(2)] audit_kept [OF parts(3)] tasks assms
  show ?thesis
  proof (cases call)
    case (InspectCall q)
    with inspect_call_ok [OF assms] show ?thesis by simp
  next
    case (IllFormed a)
    with assms show ?thesis by (simp add: api_def Let_def split: sum.split)
  qed (simp_all only: api_def Let_def case_prod_beta api_call.case snd_conv kept)
qed

lemma upsert_ids: "distinct (map cv_id rs) \<Longrightarrow> distinct (map cv_id (snd (upsert_patterns valid now ps rs)))"
  unfolding upsert_patterns_def by (rule upsert_loop_ids)

lemma sync_ids:
  assumes "distinct (map cv_id rows)"
  shows "distinct (map cv_id (snd (sync_cisa_kev valid now c rows)))" "distinct (map cv_id (snd (sync_osv valid now os rows)))"
    "distinct (map cv_id (snd (sync_nvd valid now nv rows)))"
  using assms by (simp_all add: sync_cisa_kev_def sync_osv_def sync_nvd_def upsert_ids split: option.split)

lemma sync_all_ids:
  assumes "distinct (map cv_id rows)"
  shows "distinct (map cv_id (snd (sync_all valid now k f rows)))"
proof -
  let ?r1 = "snd (upsert_patterns valid now HANDCRAFTED_PATTERNS rows)"
  let ?r3 = "snd (sync_osv valid now (fd_osv f) (snd (sync_cisa_kev valid now (fd_cisa f) ?r1)))"
  have "distinct (map cv_id ?r3)" using assms by (intro sync_ids upsert_ids)
  moreover have "snd (sync_all valid now k f rows) = (if k = [] then ?r3 else snd (sync_nvd valid now (fd_nvd f) ?r3))"
    by (simp add: sync_all_def Let_def split: prod.split)
  ultimately show ?thesis using sync_ids(3) by simp
qed

lemma step_ok:
  assumes "server_ok cfg s"
  shows "server_ok cfg (server_step decode cfg e s)"
proof (cases e)
  case (Request m env r)
  show ?thesis
  proof (rule serve_api_state [of decode cfg m env r s])
    fix ls es app
    assume "snd (serve_api decode cfg m env r s) = s\<lparr>sv_limits := ls, sv_pending := sv_pending s @ es, sv_audit := ap_audit app, sv_app := app\<rparr>"
      and "app = (sv_app s)\<lparr>ap_audit := sv_audit s\<rparr> \<or>
        (\<exists>call. decode r = Inr call \<and> app = snd (api cfg env call (cred_view r) ((sv_app s)\<lparr>ap_audit := sv_audit s\<rparr>)))"
    with api_ok assms show ?thesis by (auto simp: Request server_step_def server_ok_def)
  qed
next
  case (Worker now io i)
  let ?hm = "al_hmac (ac_lib cfg)" and ?k = "st_secret (ac_settings cfg)"
  have "list_all (sealed ?hm ?k) (as_rows (append_to_chain ?hm ?k now io x (sv_audit s)))" for x
    using assms by (cases rule: append_cases [of ?hm ?k now io x "sv_audit s"]) (simp_all add: server_ok_def state_ok_def)
  with assms show ?thesis by (simp add: Worker server_step_def run_worker_def server_ok_def state_ok_def)
next
  case (Background now i)
  let ?ts = "ap_tasks (sv_app s)"
  have "list_all task_ok (take i ?ts @ drop (Suc i) ?ts)"
    using assms by (auto simp: server_ok_def state_ok_def list_all_iff dest: in_set_takeD in_set_dropD)
  with assms show ?thesis
    by (auto simp: Background server_step_def run_task_def server_ok_def state_ok_def db_ok_persist db_ok_inspect
        split: background.split)
next
  case (SyncFeeds valid now k f)
  with assms show ?thesis by (simp add: server_step_def server_ok_def state_ok_def sync_all_ids)
next
  case (RefreshCache cmp now)
  with assms show ?thesis by (simp add: server_step_def server_ok_def state_ok_def)
qed

lemma run_ok: "server_ok cfg s \<Longrightarrow> server_ok cfg (server_run decode cfg es s)"
proof (induction es arbitrary: s)
  case (Cons e es)
  from Cons.IH [OF step_ok [OF Cons.prems]] show ?case by (simp add: server_run_def)
qed (simp add: server_run_def)

text \<open>A server with empty tables, as a first start leaves them before the seeding.\<close>

definition new_state :: api_state where
  "new_state =
     \<lparr>ap_keys = [], ap_sigs = [], ap_db = \<lparr>ed_agents = [], ed_events = []\<rparr>,
      ap_audit = \<lparr>as_rows = [], as_last = GENESIS\<rparr>, ap_cache = empty_cache, ap_tasks = []\<rparr>"

definition new_server :: "nat \<Rightarrow> api_state server" where
  "new_server rpm =
     \<lparr>sv_limits = new_rate_limits rpm, sv_pending = [], sv_audit = \<lparr>as_rows = [], as_last = GENESIS\<rparr>, sv_app = new_state\<rparr>"

lemma new_server_ok: "server_ok cfg (new_server n)"
  by (simp add: server_ok_def state_ok_def new_server_def new_state_def db_ok_def)

lemma serve_status:
  assumes "fst (serve route m r s) = Some p"
  shows "sr_status p = 429 \<or> (\<exists>q. fst (route r (sv_app s)) = Some q \<and> sr_status p = sr_status q)"
proof (cases "rate_dispatch (mt_now m) (limit_view r) (sv_limits s)")
  case (Pair d ls)
  show ?thesis
  proof (cases d)
    case None
    with Pair assms show ?thesis by (auto simp: serve_def too_many_def)
  next
    case (Some left)
    obtain q app where route: "route r (sv_app s) = (q, app)" by (cases "route r (sv_app s)")
    from Some Pair assms route show ?thesis
      by (cases q) (auto simp: serve_def audit_dispatch_def security_dispatch_def split: option.splits)
  qed
qed

text \<open>Setting one mode after the other.\<close>

lemma mode_runs:
  assumes "authorize cfg (en_now env) (ap_keys s) AnyCredential c = Inr x" "set ids \<subseteq> fst ` set (ed_agents (ap_db s))"
  shows "foldl (\<lambda>s i. snd (api cfg env (SetAgentMode i (lit ''shadow'')) c s)) s ids =
    s\<lparr>ap_db := (ap_db s)\<lparr>ed_agents :=
      map (\<lambda>(j, a). (j, if j \<in> set ids then a\<lparr>ag_mode := lit ''shadow''\<rparr> else a)) (ed_agents (ap_db s))\<rparr>\<rparr>"
  using assms
proof (induction ids arbitrary: s)
  case (Cons i ids)
  let ?db = "(ap_db s)\<lparr>ed_agents := update_row i (\<lambda>r. r\<lparr>ag_mode := lit ''shadow''\<rparr>) (ed_agents (ap_db s))\<rparr>"
  have "map_of (ed_agents (ap_db s)) i \<noteq> None" using Cons.prems(2) by (simp add: map_of_None_iff)
  then have step: "snd (api cfg env (SetAgentMode i (lit ''shadow'')) c s) = s\<lparr>ap_db := ?db\<rparr>"
    using Cons.prems(1) by (auto simp: api_def authorize_def set_agent_mode_def Let_def)
  have "foldl (\<lambda>s i. snd (api cfg env (SetAgentMode i (lit ''shadow'')) c s)) (s\<lparr>ap_db := ?db\<rparr>) ids =
      (s\<lparr>ap_db := ?db\<rparr>)\<lparr>ap_db := ?db\<lparr>ed_agents :=
        map (\<lambda>(j, a). (j, if j \<in> set ids then a\<lparr>ag_mode := lit ''shadow''\<rparr> else a)) (ed_agents ?db)\<rparr>\<rparr>"
    using Cons.IH [of "s\<lparr>ap_db := ?db\<rparr>"] Cons.prems by simp
  moreover have "map (\<lambda>(j, a). (j, if j \<in> set ids then a\<lparr>ag_mode := lit ''shadow''\<rparr> else a)) (ed_agents ?db) =
      map (\<lambda>(j, a). (j, if j \<in> set (i # ids) then a\<lparr>ag_mode := lit ''shadow''\<rparr> else a)) (ed_agents (ap_db s))"
    by (auto simp: update_row_def)
  ultimately show ?case by (simp only: foldl_Cons step) simp
qed (simp add: case_prod_beta)

subsection \<open>Properties\<close>


text \<open>A production server with a viewer's key, and a client with no credentials.\<close>

definition demo_config :: api_config where
  "demo_config = \<lparr>ac_lib = toy_lib, ac_settings = production, ac_pem = ([], []), ac_row_iso = iso_utc\<rparr>"

definition demo_env :: api_env where
  "demo_env = \<lparr>en_now = 50, en_mono = 0, en_key = lit ''k9'', en_uuid = lit ''u9''\<rparr>"

definition demo_agent :: agent_row where
  "demo_agent = \<lparr>ag_hostname = [], ag_ip = [], ag_server_type = [], ag_version = [], ag_mode = lit ''enforce'',
     ag_api_key_hash = [], ag_last_seen = None, ag_last_cve_sync = None, ag_created = 0\<rparr>"

definition demo_state :: api_state where
  "demo_state = new_state\<lparr>ap_keys := [viewer_row],
     ap_db := \<lparr>ed_agents = [(lit ''edge-1'', demo_agent), (lit ''edge-2'', demo_agent)], ed_events = []\<rparr>\<rparr>"

definition no_credentials :: credentials where
  "no_credentials = \<lparr>cr_api_key = None, cr_authorization = None\<rparr>"

lemma demo_production: "in_production demo_config" "distinct (map k_hash (ap_keys demo_state))"
  by code_simp+



text \<open>After a stranger has registered an agent, another one asks for the list of agents.\<close>

definition stranger :: server_request where
  "stranger = \<lparr>sq_method = lit ''GET'', sq_path = lit ''/v1/agents/'', sq_query = [], sq_headers = [], sq_peer = lit ''198.51.100.9''\<rparr>"

definition joining :: server_request where
  "joining = stranger\<lparr>sq_method := lit ''POST'', sq_path := lit ''/v1/agents/register''\<rparr>"

definition demo_decode :: "server_request \<Rightarrow> int + api_call" where
  "demo_decode r =
     (if sq_path r = lit ''/v1/agents/'' then Inr ListAgents
      else Inr (RegisterAgent \<lparr>rg_agent_id = lit ''edge-3'', rg_hostname = [], rg_ip = None, rg_server_type = [],
                  rg_version = None, rg_api_key = []\<rparr>))"

definition demo_server :: "api_state server" where
  "demo_server = (new_server 1000)\<lparr>sv_app := demo_state\<rparr>"

definition demo_run :: "server_step list" where
  "demo_run = [Request stack_meeting demo_env joining, Worker 9 True 0]"


text \<open>
  C11: The state of the whole server is consistent under every interleaving of requests by anybody, audit workers,
  background tasks, feed synchronisations and cache refreshes, from empty tables on: agent, event and signature
  identifiers and key hashes are unique, every event belongs to a registered agent, no waiting batch holds more
  than 1000 events, and every row of the audit log carries the HMAC of its own fields.
\<close>

theorem api_integrity:
  "let s = server_run decode cfg es (new_server rpm); a = sv_app s
   in distinct (map fst (ed_agents (ap_db a))) \<and> distinct (map fst (ed_events (ap_db a))) \<and>
      list_all (\<lambda>(i, e). er_agent_id e \<in> fst ` set (ed_agents (ap_db a))) (ed_events (ap_db a)) \<and>
      distinct (map k_hash (ap_keys a)) \<and> distinct (map cv_id (ap_sigs a)) \<and>
      list_all (\<lambda>t. case t of PersistEvents i evs \<Rightarrow> length evs \<le> 1000 | PersistInspect q v actor \<Rightarrow> True) (ap_tasks a) \<and>
      list_all (sealed (al_hmac (ac_lib cfg)) (st_secret (ac_settings cfg))) (as_rows (sv_audit s))"
proof -
  have "server_ok cfg (server_run decode cfg es (new_server rpm))" by (rule run_ok [OF new_server_ok])
  then show ?thesis
    by (simp add: server_ok_def state_ok_def db_ok_def task_ok_def [abs_def] Let_def list_all_iff)
qed



end
