(* ===== verification/ApiSecrets.thy ===== *)
theory ApiSecrets
  imports ServerApi
begin

text \<open>
  The key an agent registers with: what depends on it. Two servers whose agents differ only in the stored key hashes,
  asked the same things except for the keys in registrations, are compared call by call and task by task.
\<close>

subsection \<open>Forgetting the agents' keys\<close>

abbreviation no_key :: "agent_row \<Rightarrow> agent_row" where
  "no_key a \<equiv> a\<lparr>ag_api_key_hash := []\<rparr>"

definition bare :: "pystr \<times> agent_row \<Rightarrow> pystr \<times> agent_row" where
  "bare p = (fst p, no_key (snd p))"

lemma bare_simps [simp]: "bare (i, a) = (i, no_key a)" "bare (bare p) = bare p" "fst (bare p) = fst p"
  by (simp_all add: bare_def)

lemma map_bare_idem [simp]: "map bare (map bare t) = map bare t"
  by (simp add: o_def)

definition no_keys :: "event_db \<Rightarrow> event_db" where
  "no_keys db = db\<lparr>ed_agents := map bare (ed_agents db)\<rparr>"

definition forget_keys :: "api_state \<Rightarrow> api_state" where
  "forget_keys s = s\<lparr>ap_db := no_keys (ap_db s)\<rparr>"

definition forget_key :: "api_call \<Rightarrow> api_call" where
  "forget_key call = (case call of RegisterAgent q \<Rightarrow> RegisterAgent (q\<lparr>rg_api_key := []\<rparr>) | _ \<Rightarrow> call)"

lemma map_of_no_keys: "map_of (map bare t) i = map_option no_key (map_of t i)"
  by (induction t) auto

lemma no_keys_simps [simp]:
  "ed_events (no_keys db) = ed_events db" "ed_agents (no_keys db) = map bare (ed_agents db)"
  "fst ` set (map bare t) = fst ` set t"
  by (force simp: no_keys_def)+

lemma show_no_key: "show_agent ri (bare p) = show_agent ri p"
  by (cases p) (simp add: show_agent_def)

lemma no_keys_idem: "no_keys (no_keys db) = no_keys db"
  by (simp add: no_keys_def o_def)

lemma no_keys_update:
  assumes "\<And>a. no_key (f a) = f (no_key a)"
  shows "no_keys ((no_keys db)\<lparr>ed_agents := update_row i f (map bare (ed_agents db))\<rparr>) =
    no_keys (db\<lparr>ed_agents := update_row i f (ed_agents db)\<rparr>)"
proof -
  have "map bare (update_row i f (map bare t)) = map bare (update_row i f t)" for t
    using assms by (induction t) (auto simp: update_row_def)
  then show ?thesis by (simp add: no_keys_def)
qed

subsection \<open>Handlers\<close>

lemma register_no_key:
  "map_sum id (show_agent ri) (fst (register_agent lib st now (q\<lparr>rg_api_key := []\<rparr>) (no_keys db))) =
     map_sum id (show_agent ri) (fst (register_agent lib st now q db))"
  "no_keys (snd (register_agent lib st now (q\<lparr>rg_api_key := []\<rparr>) (no_keys db))) = no_keys (snd (register_agent lib st now q db))"
  by (simp_all add: register_agent_def Let_def map_of_no_keys show_agent_def no_keys_def o_def split: option.split)

lemma list_no_key:
  "map_sum id (map (show_agent ri)) (list_agents auth (no_keys db)) = map_sum id (map (show_agent ri)) (list_agents auth db)"
proof -
  have "sort_key (\<lambda>(i, r). ag_created r) (map bare t) = map bare (sort_key (\<lambda>(i, r). ag_created r) t)" for t
    by (rule sort_key_map) auto
  then show ?thesis by (simp add: list_agents_def rev_map [symmetric] o_def show_no_key split: sum.split)
qed

lemma update_handlers_no_key:
  "fst (set_agent_mode auth i m (no_keys db)) = fst (set_agent_mode auth i m db)"
  "no_keys (snd (set_agent_mode auth i m (no_keys db))) = no_keys (snd (set_agent_mode auth i m db))"
  "fst (agent_heartbeat auth now i (no_keys db)) = fst (agent_heartbeat auth now i db)"
  "no_keys (snd (agent_heartbeat auth now i (no_keys db))) = no_keys (snd (agent_heartbeat auth now i db))"
  "fst (get_updates auth now since i sigs (no_keys db)) = fst (get_updates auth now since i sigs db)"
  "no_keys (snd (get_updates auth now since i sigs (no_keys db))) = no_keys (snd (get_updates auth now since i sigs db))"
  by (cases auth; simp add: set_agent_mode_def agent_heartbeat_def get_updates_def map_of_no_keys no_keys_idem no_keys_update
      split: option.split)+

lemma delete_no_key:
  "fst (delete_agent auth i (no_keys db)) = fst (delete_agent auth i db)"
  "no_keys (snd (delete_agent auth i (no_keys db))) = no_keys (snd (delete_agent auth i db))"
proof -
  have "map bare (filter (\<lambda>(j, r). j \<noteq> i) (map bare t)) =
      map bare (filter (\<lambda>(j, r). j \<noteq> i) t)" for t
    by (induction t) auto
  then show "fst (delete_agent auth i (no_keys db)) = fst (delete_agent auth i db)"
    "no_keys (snd (delete_agent auth i (no_keys db))) = no_keys (snd (delete_agent auth i db))"
    by (cases auth; simp add: delete_agent_def map_of_no_keys no_keys_idem; simp add: no_keys_def)+
qed

lemma stats_no_key:
  "get_summary auth now h a (no_keys db) = get_summary auth now h a db"
  "get_timeline auth now h a (no_keys db) = get_timeline auth now h a db"
  "get_events auth n act (no_keys db) = get_events auth n act db"
  by (cases auth; simp add: get_summary_def get_timeline_def get_events_def)+

lemma commit_no_key: "commit_events evs (no_keys db) = map_sum id no_keys (commit_events evs db)"
  by (simp add: commit_events_def map_of_no_keys no_keys_def)

lemma commit_forget: "no_keys db = no_keys db' \<Longrightarrow> map_sum id no_keys (commit_events evs db) = map_sum id no_keys (commit_events evs db')"
  using commit_no_key [of evs db] commit_no_key [of evs db'] by simp

lemma persist_no_key: "no_keys (persist_events now a evs (no_keys db)) = no_keys (persist_events now a evs db)"
  by (simp add: persist_events_def commit_no_key no_keys_idem split: sum.split)

lemma ensure_no_key:
  "fst (ensure_agent_registered now a (no_keys db)) = fst (ensure_agent_registered now a db)"
  "no_keys (snd (ensure_agent_registered now a (no_keys db))) = no_keys (snd (ensure_agent_registered now a db))"
  by (simp_all add: ensure_agent_registered_def Let_def map_of_no_keys no_keys_update split: option.split)

lemma case_of_forgotten:
  "map_sum id f x = map_sum id f y \<Longrightarrow> (case x of Inl e \<Rightarrow> d | Inr z \<Rightarrow> f z) = (case y of Inl e \<Rightarrow> d | Inr z \<Rightarrow> f z)"
  by (cases x; cases y) auto

lemma persist_inspect_no_key:
  "no_keys (persist_inspect_event now q v actor (no_keys db)) = no_keys (persist_inspect_event now q v actor db)"
proof -
  let ?a = "or_else (ir_source_app q) (or_else actor VERCEL_AGENT_ID)"
  let ?d = "snd (ensure_agent_registered now ?a db)" and ?d' = "snd (ensure_agent_registered now ?a (no_keys db))"
  have "map_sum id no_keys (commit_events evs ?d') = map_sum id no_keys (commit_events evs ?d)" for evs
    by (rule commit_forget) (rule ensure_no_key)
  from case_of_forgotten [OF this] have "(case commit_events evs ?d' of Inl e \<Rightarrow> no_keys db | Inr x \<Rightarrow> no_keys x) =
      (case commit_events evs ?d of Inl e \<Rightarrow> no_keys db | Inr x \<Rightarrow> no_keys x)" for evs .
  then show ?thesis
    by (simp add: persist_inspect_event_def Let_def case_prod_beta ensure_no_key(1) no_keys_idem if_distrib
        sum.case_distrib [of no_keys] cong: sum.case_cong)
qed

subsection \<open>Calls and sessions\<close>

lemma forget_keys_simps [simp]:
  "ap_keys (forget_keys s) = ap_keys s" "ap_sigs (forget_keys s) = ap_sigs s" "ap_audit (forget_keys s) = ap_audit s"
  "ap_cache (forget_keys s) = ap_cache s" "ap_tasks (forget_keys s) = ap_tasks s" "ap_db (forget_keys s) = no_keys (ap_db s)"
  "forget_keys (forget_keys s) = forget_keys s"
  by (simp_all add: forget_keys_def no_keys_idem)

lemma answered_comp: "answered (g \<circ> f) r = map_sum (\<lambda>e. e) g (map_sum id f r)"
  by (cases r) (simp_all add: answered_def)

lemma answered_id: "answered f r = map_sum (\<lambda>e. e) f r"
  by (simp add: answered_def)

lemma forget_with_db: "no_keys db = no_keys db' \<Longrightarrow> forget_keys (s\<lparr>ap_db := db\<rparr>) = forget_keys (forget_keys s\<lparr>ap_db := db'\<rparr>)"
  by (simp add: forget_keys_def)

lemma api_forgets:
  "fst (api cfg env (forget_key call) c (forget_keys s)) = fst (api cfg env call c s) \<and>
   forget_keys (snd (api cfg env (forget_key call) c (forget_keys s))) = forget_keys (snd (api cfg env call c s))"
proof (cases call)
  case (RegisterAgent q)
  note r = register_no_key [where lib = "ac_lib cfg" and st = "ac_settings cfg" and now = "en_now env" and q = q and db = "ap_db s"]
  show ?thesis
    using r(1) [of "ac_row_iso cfg"] r(2)
    by (simp add: RegisterAgent forget_key_def api_def Let_def case_prod_beta answered_comp forget_keys_def no_keys_idem)
next
  case ListAgents
  then show ?thesis by (simp add: forget_key_def api_def Let_def answered_comp list_no_key)
next
  case (InspectCall q)
  then show ?thesis
    by (simp add: forget_key_def api_def Let_def case_prod_beta forget_keys_def no_keys_idem split: sum.split)
qed (simp_all add: forget_key_def api_def Let_def case_prod_beta update_handlers_no_key delete_no_key stats_no_key
  forget_keys_def no_keys_idem split: sum.split)

text \<open>A session: calls by anybody with their answers, and the background tasks between them.\<close>

datatype api_event = Call api_env api_call credentials | Task int nat

fun api_session :: "api_config \<Rightarrow> api_event list \<Rightarrow> api_state \<Rightarrow> api_reply http list \<times> api_state" where
  "api_session cfg [] s = ([], s)"
| "api_session cfg (Call env call c # es) s =
     (case api cfg env call c s of (r, s') \<Rightarrow> (case api_session cfg es s' of (rs, s'') \<Rightarrow> (r # rs, s'')))"
| "api_session cfg (Task now i # es) s = api_session cfg es (run_task now i s)"

definition forget_event :: "api_event \<Rightarrow> api_event" where
  "forget_event e = (case e of Call env call c \<Rightarrow> Call env (forget_key call) c | Task now i \<Rightarrow> Task now i)"

lemma forget_event_iff:
  "forget_event e = forget_event (Call env call c) \<longleftrightarrow> (\<exists>call'. e = Call env call' c \<and> forget_key call' = forget_key call)"
  "forget_event e = forget_event (Task now i) \<longleftrightarrow> e = Task now i"
  by (cases e; auto simp: forget_event_def)+

lemma forgotten_Cons:
  assumes "map forget_event (x # es) = map forget_event es'"
  obtains y es0 where "es' = y # es0" "forget_event y = forget_event x" "map forget_event es = map forget_event es0"
  using assms by (cases es') auto

lemma api_same:
  assumes "forget_keys s = forget_keys s'" "forget_key call = forget_key call'"
  shows "fst (api cfg env call c s) = fst (api cfg env call' c s')"
    "forget_keys (snd (api cfg env call c s)) = forget_keys (snd (api cfg env call' c s'))"
  using api_forgets [of cfg env call c s] api_forgets [of cfg env call' c s'] assms by simp_all

lemma task_forgets: "forget_keys (run_task now i (forget_keys s)) = forget_keys (run_task now i s)"
  by (simp add: run_task_def split: background.split)
    (simp add: forget_keys_def no_keys_idem persist_no_key persist_inspect_no_key)

lemma task_same: "forget_keys s = forget_keys s' \<Longrightarrow> forget_keys (run_task now i s) = forget_keys (run_task now i s')"
  using task_forgets [of now i s] task_forgets [of now i s'] by simp

lemma session_same:
  assumes "forget_keys s = forget_keys s'" "map forget_event es = map forget_event es'"
  shows "fst (api_session cfg es s) = fst (api_session cfg es' s') \<and>
    forget_keys (snd (api_session cfg es s)) = forget_keys (snd (api_session cfg es' s'))"
  using assms
proof (induction cfg es s arbitrary: es' s' rule: api_session.induct)
  case (1 cfg s)
  then show ?case by simp
next
  case (2 cfg env call c es s)
  obtain y es0 where y: "es' = y # es0" "forget_event y = forget_event (Call env call c)" "map forget_event es = map forget_event es0"
    by (rule forgotten_Cons [OF 2(3)])
  then obtain call' where e: "es' = Call env call' c # es0" "forget_key call = forget_key call'" "map forget_event es = map forget_event es0"
    by (auto simp: forget_event_iff)
  note a = api_same [OF 2(2) e(2), of cfg env c]
  show ?case using 2(1) [OF prod.collapse a(2) e(3)] a(1) by (simp add: e(1) case_prod_beta)
next
  case (3 cfg now i es s)
  obtain y es0 where y: "es' = y # es0" "forget_event y = forget_event (Task now i)" "map forget_event es = map forget_event es0"
    by (rule forgotten_Cons [OF 3(3)])
  then have e: "es' = Task now i # es0" "map forget_event es = map forget_event es0" by (simp_all add: forget_event_iff)
  show ?case using 3(1) [OF task_same [OF 3(2)] e(2)] by (simp add: e(1))
qed

subsection \<open>Properties\<close>

text \<open>
  C23: The key an agent registers with has no effect. Take two servers whose tables differ at most in the stored
  hashes of the agents' keys, and two sessions of calls and background tasks that differ at most in the keys given in registrations: every call gets
  the same answer, and the states differ again at most in those hashes. So the hash is shown to nobody, and the key gives its holder no access.
\<close>

theorem api_agent_key_unused:
  assumes "forget_keys s = forget_keys s'" "map forget_event es = map forget_event es'"
  shows "fst (api_session cfg es s) = fst (api_session cfg es' s') \<and>
    forget_keys (snd (api_session cfg es s)) = forget_keys (snd (api_session cfg es' s'))"
  using assms by (rule session_same)

text \<open>An agent registers with one key or with another; a viewer lists the agents.\<close>

definition joins_with :: "string \<Rightarrow> api_event list" where
  "joins_with k =
     [Call demo_env (RegisterAgent \<lparr>rg_agent_id = lit ''edge-3'', rg_hostname = [], rg_ip = None, rg_server_type = [],
        rg_version = None, rg_api_key = lit k\<rparr>) no_credentials,
      Call demo_env ListAgents (api_key_cred (lit ''key-1''))]"

theorem api_agent_key_unused_witness:
  "fst (api_session demo_config (joins_with ''one'') demo_state) = fst (api_session demo_config (joins_with ''two'') demo_state)"
  by (rule conjunct1 [OF api_agent_key_unused [OF refl]]) (simp add: joins_with_def forget_event_def forget_key_def)

end
