(* ===== verification/Startup.thy ===== *)
theory Startup
  imports Auth CveSync
begin

text \<open>
  The start of the central server, the \<open>lifespan\<close> of \<open>server/app/main.py\<close>: the tables and migrations of
  \<open>server/app/database.py\<close>, the bootstrap key (theory \<open>Auth\<close>) and the first synchronisation of the signatures
  (theory \<open>CveSync\<close>). The tables modelled are the API keys, which a database of version 1.0 has without the
  column \<open>role\<close>, and the signatures. The background tasks are started between these steps and do not touch them.
\<close>

datatype key_table = NoTable | WithoutRole "api_key_row list" | Keys "api_key_row list"

record server_db =
  db_keys :: key_table
  db_cves :: "cve_row list"

text \<open>\<open>create_all\<close> creates the missing tables and leaves the others as they are.\<close>

definition create_all :: "key_table \<Rightarrow> key_table" where
  "create_all t = (case t of NoTable \<Rightarrow> Keys [] | _ \<Rightarrow> t)"

text \<open>\<open>ALTER TABLE api_keys ADD COLUMN role DEFAULT 'agent'\<close>: \<open>None\<close> where it fails because the column exists.\<close>

definition add_role_column :: "key_table \<Rightarrow> key_table option" where
  "add_role_column t =
     (case t of WithoutRole rs \<Rightarrow> Some (Keys (map (\<lambda>r. r\<lparr>k_role := lit ''agent''\<rparr>) rs)) | _ \<Rightarrow> None)"

definition MIGRATIONS :: "(key_table \<Rightarrow> key_table option) list" where
  "MIGRATIONS = [add_role_column]"

text \<open>A migration that fails is skipped.\<close>

definition run_migrations :: "key_table \<Rightarrow> key_table" where
  "run_migrations t = foldl (\<lambda>t ddl. case ddl t of None \<Rightarrow> t | Some t' \<Rightarrow> t') t MIGRATIONS"

definition init_db :: "key_table \<Rightarrow> key_table" where
  "init_db t = run_migrations (create_all t)"

definition server_start ::
  "auth_lib \<Rightarrow> settings \<Rightarrow> (pystr \<Rightarrow> bool) \<Rightarrow> int \<Rightarrow> pystr \<Rightarrow> feeds \<Rightarrow> server_db \<Rightarrow> server_db result" where
  "server_start lib st valid now nvd_api_key f db =
     (case init_db (db_keys db) of
        Keys rows \<Rightarrow>
          (case seed_bootstrap_key lib st rows of
             Inl e \<Rightarrow> Inl e
           | Inr rows' \<Rightarrow>
               Inr \<lparr>db_keys = Keys rows', db_cves = snd (sync_all valid now nvd_api_key f (db_cves db))\<rparr>)
      | _ \<Rightarrow> Inl OtherException)"

subsection \<open>Lemmas\<close>

text \<open>The keys a start finds, and what it demands of them in production.\<close>

definition found_keys :: "key_table \<Rightarrow> api_key_row list" where
  "found_keys t =
     (case t of NoTable \<Rightarrow> [] | WithoutRole rs \<Rightarrow> map (\<lambda>r. r\<lparr>k_role := lit ''agent''\<rparr>) rs | Keys rs \<Rightarrow> rs)"

definition admin_key :: "api_key_row \<Rightarrow> bool" where
  "admin_key r \<longleftrightarrow> k_role r = lit ''admin'' \<and> k_active r"

lemma init_db_keys: "init_db t = Keys (found_keys t)"
  by (cases t) (simp_all add: init_db_def create_all_def run_migrations_def MIGRATIONS_def add_role_column_def found_keys_def)

lemma init_db_idem: "init_db (init_db t) = init_db t"
  by (simp add: init_db_keys found_keys_def)

lemma seed_cases:
  obtains (kept) "seed_bootstrap_key lib st rows = Inr rows" "st_environment st = lit ''development'' \<or> (\<exists>r \<in> set rows. admin_key r)"
  | (failed) "seed_bootstrap_key lib st rows = Inl IntegrityError" "st_environment st \<noteq> lit ''development''"
      "\<not> (\<exists>r \<in> set rows. admin_key r)" "hash_api_key lib st (st_secret st) \<in> k_hash ` set rows"
  | (seeded) r where "seed_bootstrap_key lib st rows = Inr (rows @ [r])" "admin_key r" "k_hash r = hash_api_key lib st (st_secret st)"
      "st_environment st \<noteq> lit ''development''"
      "\<not> (\<exists>r \<in> set rows. admin_key r)" "hash_api_key lib st (st_secret st) \<notin> k_hash ` set rows"
proof (cases "st_environment st = lit ''development'' \<or> (\<exists>r \<in> set rows. admin_key r)")
  case True
  then have "seed_bootstrap_key lib st rows = Inr rows"
    by (auto simp: seed_bootstrap_key_def admin_key_def scan_simps)
  with True show thesis by (rule kept [rotated])
next
  case False
  then have none: "first_match (\<lambda>r. k_role r = lit ''admin'' \<and> k_active r) rows = None"
    by (auto simp: admin_key_def scan_simps)
  show thesis
  proof (cases "hash_api_key lib st (st_secret st) \<in> k_hash ` set rows")
    case True
    with False none show thesis by (intro failed) (simp_all add: seed_bootstrap_key_def)
  next
    case new: False
    let ?r = "\<lparr>k_hash = hash_api_key lib st (st_secret st),
        k_description = lit ''Bootstrap admin key (value = AISS_SECRET_KEY env var)'',
        k_agent_id = Some (lit ''bootstrap-admin''), k_role = lit ''admin'', k_active = True, k_expires = None\<rparr>"
    from False none new show thesis by (intro seeded [of ?r]) (simp_all add: seed_bootstrap_key_def admin_key_def)
  qed
qed

text \<open>A signature that is present and active stays so.\<close>

definition served_cve :: "cve_row list \<Rightarrow> pystr \<Rightarrow> bool" where
  "served_cve rows i \<longleftrightarrow> (case lookup_cve rows i of None \<Rightarrow> False | Some r \<Rightarrow> cv_active r)"

lemma upsert_keeps: "served_cve rows i \<Longrightarrow> served_cve (snd (upsert_patterns valid now ps rows)) i"
  by (auto simp: served_cve_def upsert_patterns_def upsert_loop_lookup upsert_spec_def refresh_row_def new_row_def
      split: option.splits)

lemma upsert_adds:
  assumes "p \<in> set ps" "list_all (\<lambda>p. fp_pattern p \<noteq> [] \<and> fp_cve_id p \<noteq> [] \<and> valid (fp_pattern p)) ps"
  shows "served_cve (snd (upsert_patterns valid now ps rows)) (fp_cve_id p)"
proof -
  have "usable (fp_cve_id p) p" using assms by (auto simp: usable_def list_all_iff)
  then obtain q where "first_match (usable (fp_cve_id p)) ps = Some q" using first_match_exists assms(1) by metis
  moreover from this have "valid (fp_pattern q)" using first_match_SomeD assms(2) by (fastforce simp: list_all_iff)
  ultimately show ?thesis
    by (auto simp: served_cve_def upsert_patterns_def upsert_loop_lookup upsert_spec_def refresh_row_def new_row_def
        split: option.split)
qed

lemma sync_all_parts:
  "snd (sync_all valid now k f rows) =
     (let r = snd (sync_osv valid now (fd_osv f)
            (snd (sync_cisa_kev valid now (fd_cisa f) (snd (upsert_patterns valid now HANDCRAFTED_PATTERNS rows)))))
      in if k = [] then r else snd (sync_nvd valid now (fd_nvd f) r))"
  by (simp add: sync_all_def Let_def split: prod.split)

lemma sync_keeps:
  "served_cve rows i \<Longrightarrow> served_cve (snd (sync_cisa_kev valid now c rows)) i"
  "served_cve rows i \<Longrightarrow> served_cve (snd (sync_osv valid now os rows)) i"
  "served_cve rows i \<Longrightarrow> served_cve (snd (sync_nvd valid now nv rows)) i"
  by (simp_all add: sync_cisa_kev_def sync_osv_def sync_nvd_def upsert_keeps split: option.split)

lemma handcrafted_usable: "list_all (\<lambda>p. fp_pattern p \<noteq> [] \<and> fp_cve_id p \<noteq> []) HANDCRAFTED_PATTERNS"
  by code_simp

lemma sync_serves_builtin:
  assumes "list_all (\<lambda>p. valid (fp_pattern p)) HANDCRAFTED_PATTERNS"
  shows "list_all (\<lambda>p. served_cve (snd (sync_all valid now k f rows)) (fp_cve_id p)) HANDCRAFTED_PATTERNS"
proof -
  have "list_all (\<lambda>p. fp_pattern p \<noteq> [] \<and> fp_cve_id p \<noteq> [] \<and> valid (fp_pattern p)) HANDCRAFTED_PATTERNS"
    using assms handcrafted_usable by (simp add: list_all_iff)
  from upsert_adds [OF _ this] show ?thesis
    by (simp add: list_all_iff sync_all_parts Let_def sync_keeps)
qed

subsection \<open>Properties\<close>

text \<open>
  C34: What a start of the server does to its database, for every database it finds. It fails exactly in production
  when there is no active administrator key and the secret is already registered (as after a deactivation, or a
  migration from version 1.0, which makes every key an agent key). Otherwise it keeps every key, ends with an active
  administrator key in production, serves every built-in signature, and a further start changes no key.
\<close>

theorem startup_exact:
  assumes "list_all (\<lambda>p. valid (fp_pattern p)) HANDCRAFTED_PATTERNS"
  shows "case server_start lib st valid now nvd f db of
      Inl e \<Rightarrow> e = IntegrityError \<and> st_environment st \<noteq> lit ''development'' \<and>
        \<not> (\<exists>r \<in> set (found_keys (db_keys db)). admin_key r) \<and>
        hash_api_key lib st (st_secret st) \<in> k_hash ` set (found_keys (db_keys db))
    | Inr db' \<Rightarrow> \<exists>rows more. db_keys db' = Keys rows \<and> rows = found_keys (db_keys db) @ more \<and> length more \<le> 1 \<and>
        (st_environment st = lit ''development'' \<or> (\<exists>r \<in> set rows. admin_key r)) \<and>
        list_all (\<lambda>p. served_cve (db_cves db') (fp_cve_id p)) HANDCRAFTED_PATTERNS \<and>
        map_sum id db_keys (server_start lib st valid now' nvd' f' db') = Inr (db_keys db')"
proof -
  let ?rows = "found_keys (db_keys db)"
  note served = sync_serves_builtin [OF assms]
  have again: "map_sum id db_keys (server_start lib st valid now' nvd' f' \<lparr>db_keys = Keys rows, db_cves = c\<rparr>) = Inr (Keys rows)"
    if "st_environment st = lit ''development'' \<or> (\<exists>r \<in> set rows. admin_key r)" for rows c
    using that by (cases rule: seed_cases [of lib st rows]) (auto simp: server_start_def init_db_keys found_keys_def)
  show ?thesis
  proof (cases rule: seed_cases [of lib st ?rows])
    case kept
    with served again [OF kept(2)] show ?thesis by (simp add: server_start_def init_db_keys)
  next
    case failed
    then show ?thesis by (auto simp: server_start_def init_db_keys)
  next
    case (seeded r)
    from seeded(2) have "st_environment st = lit ''development'' \<or> (\<exists>r \<in> set (?rows @ [r]). admin_key r)" by simp
    with seeded served again [OF this] show ?thesis by (simp add: server_start_def init_db_keys)
  qed
qed

text \<open>A database of version 1.0 in which the operator had registered the secret as a key.\<close>

definition old_database :: server_db where
  "old_database = \<lparr>db_keys = WithoutRole [\<lparr>k_hash = hash_api_key toy_lib production (st_secret production),
     k_description = [], k_agent_id = None, k_role = [], k_active = True, k_expires = None\<rparr>], db_cves = []\<rparr>"

theorem startup_exact_witness:
  "server_start toy_lib production (\<lambda>p. True) 0 [] \<lparr>fd_cisa = None, fd_osv = [], fd_nvd = None\<rparr> old_database =
     Inl IntegrityError"
proof -
  let ?s = "server_start toy_lib production (\<lambda>p. True) 0 [] \<lparr>fd_cisa = None, fd_osv = [], fd_nvd = None\<rparr> old_database"
  have "seed_bootstrap_key toy_lib production (found_keys (db_keys old_database)) = Inl IntegrityError" by code_simp
  then obtain e where e: "?s = Inl e" by (simp add: server_start_def init_db_keys)
  have "list_all (\<lambda>p. True) HANDCRAFTED_PATTERNS" by (simp add: list_all_iff)
  from startup_exact [OF this, where lib = toy_lib and st = production and now = 0 and nvd = "[]"
      and f = "\<lparr>fd_cisa = None, fd_osv = [], fd_nvd = None\<rparr>" and db = old_database]
  show ?thesis unfolding e by simp
qed

end
