(* ===== verification/Proto.thy ===== *)
theory Proto
  imports PyLib
begin

text \<open>
  The message classes of \<open>proto/gen/python/aiss_pb2.py\<close>: one record and one default value per dataclass, and which
  modules \<open>grpc_server.py\<close> needs to find before it serves anything.
\<close>

record pb_event =
  ge_request_id :: pystr
  ge_agent_id :: pystr
  ge_client_ip :: pystr
  ge_method :: pystr
  ge_uri :: pystr
  ge_action :: pystr
  ge_tier :: int
  ge_cve_id :: pystr
  ge_rule_name :: pystr
  ge_reason :: pystr
  ge_ml_score :: pyfloat
  ge_latency_ms :: pyfloat
  ge_server_type :: pystr
  ge_timestamp :: int

definition new_pb_event :: pb_event where
  "new_pb_event =
     \<lparr>ge_request_id = [], ge_agent_id = [], ge_client_ip = [], ge_method = [], ge_uri = [], ge_action = [],
      ge_tier = 0, ge_cve_id = [], ge_rule_name = [], ge_reason = [], ge_ml_score = Fin 0, ge_latency_ms = Fin 0,
      ge_server_type = [], ge_timestamp = 0\<rparr>"

record pb_batch =
  pb_events :: "pb_event list"

record pb_telemetry_ack =
  gt_accepted :: int
  gt_message :: pystr

record pb_update_request =
  gu_agent_id :: pystr
  gu_since :: pystr
  gu_api_key :: pystr

record pb_signature =
  gs_id :: int
  gs_cve_id :: pystr
  gs_name :: pystr
  gs_pattern :: pystr
  gs_flags :: pystr
  gs_severity :: pystr
  gs_cvss :: pyfloat
  gs_product :: pystr
  gs_active :: bool
  gs_modified_at :: pystr

definition new_pb_signature :: pb_signature where
  "new_pb_signature =
     \<lparr>gs_id = 0, gs_cve_id = [], gs_name = [], gs_pattern = [], gs_flags = [], gs_severity = [], gs_cvss = Fin 0,
      gs_product = [], gs_active = True, gs_modified_at = []\<rparr>"

record pb_agent_info =
  ga_id :: pystr
  ga_hostname :: pystr
  ga_ip :: pystr
  ga_server_type :: pystr
  ga_version :: pystr
  ga_mode :: pystr
  ga_api_key :: pystr

definition new_pb_agent_info :: pb_agent_info where
  "new_pb_agent_info =
     \<lparr>ga_id = [], ga_hostname = [], ga_ip = [], ga_server_type = [], ga_version = [], ga_mode = [], ga_api_key = []\<rparr>"

record pb_agent_ack =
  gk_ok :: bool
  gk_message :: pystr

definition new_pb_agent_ack :: pb_agent_ack where
  "new_pb_agent_ack = \<lparr>gk_ok = False, gk_message = []\<rparr>"

text \<open>
  The import at the head of \<open>grpc_server.py\<close>: one missing module is enough. The repository has the first of the two;
  the second is generated from the service definition.
\<close>

definition use_proto :: "pystr list \<Rightarrow> bool" where
  "use_proto modules \<longleftrightarrow> lit ''aiss_pb2'' \<in> set modules \<and> lit ''aiss_pb2_grpc'' \<in> set modules"

definition REPOSITORY_STUBS :: "pystr list" where
  "REPOSITORY_STUBS = [lit ''aiss_pb2'']"

lemma repository_stubs: "\<not> use_proto REPOSITORY_STUBS"
  by code_simp

end
