(* ===== verification/Doris.thy ===== *)
theory Doris
  imports BQueue PyLib CveSync Proto
begin

text \<open>
  The analytics writer, \<open>server/app/doris.py\<close>, and the gRPC handlers that feed it and read the signature
  table, \<open>server/app/grpc_server.py\<close>. An event is a dictionary of columns with the text \<open>str\<close> gives their
  values. The HTTP call of a stream load is the parameter \<open>put\<close>: the content to the \<open>Status\<close> of the answer
  (\<open>None\<close> where it raises or has no such field).
\<close>

subsection \<open>Stream load\<close>

type_synonym doris_event = "(pystr \<times> pystr) list"

definition doris_columns :: "pystr list" where
  "doris_columns = map lit [''created_at'', ''id'', ''agent_id'', ''client_ip'', ''method'', ''uri'', ''action'', ''tier'',
     ''cve_id'', ''rule_name'', ''reason'', ''ml_score'', ''latency_ms'', ''server_type'']"

text \<open>\<open>csv.QUOTE_ALL\<close>: every field in quotes, quotes doubled.\<close>

definition csv_field :: "pystr \<Rightarrow> pystr" where
  "csv_field s = [34] @ concat (map (\<lambda>c. if c = 34 then [34, 34] else [c]) s) @ [34]"

definition csv_row :: "pystr list \<Rightarrow> pystr" where
  "csv_row fs = join_with [44] (map csv_field fs) @ [10]"

definition set_default :: "pystr \<Rightarrow> pystr \<Rightarrow> doris_event \<Rightarrow> doris_event" where
  "set_default k v e = (if map_of e k = None then e @ [(k, v)] else e)"

definition load_content :: "pystr \<Rightarrow> doris_event list \<Rightarrow> pystr" where
  "load_content now events =
     concat (map (\<lambda>e. csv_row (map (\<lambda>c. dict_get (set_default (lit ''created_at'') now e) c []) doris_columns)) events)"

definition stream_load_batch :: "(pystr \<Rightarrow> pystr option) \<Rightarrow> pystr \<Rightarrow> doris_event list \<Rightarrow> bool" where
  "stream_load_batch put now events =
     (if events = [] then True
      else case put (load_content now events) of
             None \<Rightarrow> False
           | Some status \<Rightarrow> status = lit ''Success'' \<or> status = lit ''Publish Timeout'')"

subsection \<open>The batching writer\<close>

definition DORIS_QUEUE :: nat where
  "DORIS_QUEUE = 100000"

definition FLUSH_BATCH_SIZE :: nat where
  "FLUSH_BATCH_SIZE = 5000"

text \<open>The queue, and what has left it, in order: \<open>True\<close> for events whose load was reported a success.\<close>

record doris =
  dw_queue :: "doris_event list"
  dw_done :: "(doris_event \<times> bool) list"

definition new_writer :: doris where
  "new_writer = \<lparr>dw_queue = [], dw_done = []\<rparr>"

definition doris_enqueue :: "doris_event \<Rightarrow> doris \<Rightarrow> doris \<times> bool" where
  "doris_enqueue e s =
     (case put_nowait DORIS_QUEUE e (dw_queue s) of
        Some q \<Rightarrow> (s\<lparr>dw_queue := q\<rparr>, True)
      | None \<Rightarrow> (s, False))"

definition collect :: "nat \<Rightarrow> doris \<Rightarrow> doris_event list \<times> doris" where
  "collect k s = (let (b, q) = drain (min FLUSH_BATCH_SIZE k) (dw_queue s) in (b, s\<lparr>dw_queue := q\<rparr>))"

text \<open>One round of \<open>_flush_loop\<close>; \<open>k\<close> is how many events arrive before the deadline.\<close>

definition doris_round :: "(pystr \<Rightarrow> pystr option) \<Rightarrow> pystr \<Rightarrow> nat \<Rightarrow> doris \<Rightarrow> doris" where
  "doris_round put now k s =
     (let (b, s') = collect k s
      in if b = [] then s'
         else s'\<lparr>dw_done := dw_done s' @ map (\<lambda>e. (e, stream_load_batch put now b)) b\<rparr>)"

text \<open>
  \<open>stop\<close>: the task is cancelled where it waits for the next event, with \<open>k\<close> events in its local batch; then the
  rest of the queue is loaded as one batch.
\<close>

definition doris_stop :: "(pystr \<Rightarrow> pystr option) \<Rightarrow> pystr \<Rightarrow> nat \<Rightarrow> doris \<Rightarrow> doris" where
  "doris_stop put now k s =
     (let (b, s') = collect k s;
          rest = dw_queue s'
      in s'\<lparr>dw_queue := [],
            dw_done := dw_done s' @ map (\<lambda>e. (e, False)) b @ map (\<lambda>e. (e, stream_load_batch put now rest)) rest\<rparr>)"

interpretation dq: bounded_buffer DORIS_QUEUE dw_queue doris_enqueue collect
  by unfold_locales (auto simp: doris_enqueue_def collect_def put_nowait_def drain_eq split: if_splits)

text \<open>A run: the events accepted so far and the state.\<close>

inductive doris_run :: "(pystr \<Rightarrow> pystr option) \<Rightarrow> doris_event list \<Rightarrow> doris \<Rightarrow> bool" for put where
  doris_start: "doris_run put [] new_writer"
| doris_offer: "doris_run put acc s \<Longrightarrow> doris_enqueue e s = (s', ok) \<Longrightarrow>
    doris_run put (if ok then acc @ [e] else acc) s'"
| doris_flush: "doris_run put acc s \<Longrightarrow> doris_run put acc (doris_round put now k s)"
| doris_end: "doris_run put acc s \<Longrightarrow> doris_run put acc (doris_stop put now k s)"

definition doris_inv :: "doris_event list \<Rightarrow> doris \<Rightarrow> bool" where
  "doris_inv acc s \<longleftrightarrow> map fst (dw_done s) @ dw_queue s = acc \<and> length (dw_queue s) \<le> DORIS_QUEUE"

lemma collect_parts:
  assumes "collect k s = (b, s')"
  shows "dw_queue s = b @ dw_queue s' \<and> dw_done s' = dw_done s \<and> length (dw_queue s') \<le> length (dw_queue s) \<and>
    length b \<le> k"
  using assms by (auto simp: collect_def drain_eq)

lemma doris_run_inv: "doris_run put acc s \<Longrightarrow> doris_inv acc s"
proof (induction rule: doris_run.induct)
  case doris_start
  then show ?case by (simp add: doris_inv_def new_writer_def)
next
  case (doris_offer acc s e s' ok)
  have "dw_done s' = dw_done s" using doris_offer.hyps(2) by (auto simp: doris_enqueue_def split: option.splits)
  with doris_offer dq.offer_items [OF doris_offer.hyps(2)] show ?case
    by (auto simp: doris_inv_def room_def DORIS_QUEUE_def)
next
  case (doris_flush acc s now k)
  obtain b s' where c: "collect k s = (b, s')" by (cases "collect k s")
  with collect_parts [OF c] doris_flush.IH show ?case
    by (auto simp: doris_inv_def doris_round_def Let_def o_def)
next
  case (doris_end acc s now k)
  obtain b s' where c: "collect k s = (b, s')" by (cases "collect k s")
  with collect_parts [OF c] doris_end.IH show ?case
    by (auto simp: doris_inv_def doris_stop_def Let_def o_def)
qed

subsection \<open>The upserts of the MySQL interface\<close>

text \<open>
  \<open>pymysql\<close> is a parameter with a connection type: opening a connection, executing a statement with a row,
  leaving the \<open>with\<close> block, and committing; \<open>None\<close> is an exception.
\<close>

record 'c mysql =
  my_connect :: "'c option"
  my_execute :: "pystr \<Rightarrow> doris_event \<Rightarrow> 'c \<Rightarrow> 'c option"
  my_exit :: "'c \<Rightarrow> 'c"
  my_commit :: "'c \<Rightarrow> 'c option"

text \<open>The text of the statements, up to white space.\<close>

definition insert_sql :: "pystr \<Rightarrow> pystr list \<Rightarrow> pystr" where
  "insert_sql table cols =
     lit ''INSERT INTO '' @ table @ lit '' ('' @ join_with (lit '', '') cols @ lit '') VALUES ('' @
     join_with (lit '', '') (map (\<lambda>c. lit ''%('' @ c @ lit '')s'') cols) @ lit '')''"

text \<open>
  The common body of \<open>upsert_cve_signature\<close> and \<open>upsert_agent\<close>: whether it ends without a warning. The commit is
  outside the \<open>with\<close> block of the connection.
\<close>

definition run_upsert :: "'c mysql \<Rightarrow> pystr \<Rightarrow> doris_event \<Rightarrow> bool" where
  "run_upsert lib sql row =
     (case my_connect lib of
        None \<Rightarrow> False
      | Some c \<Rightarrow>
          (case my_execute lib sql row c of
             None \<Rightarrow> False
           | Some c' \<Rightarrow> my_commit lib (my_exit lib c') \<noteq> None))"

definition upsert_cve_signature :: "'c mysql \<Rightarrow> pystr \<Rightarrow> doris_event \<Rightarrow> bool" where
  "upsert_cve_signature lib now row =
     run_upsert lib
       (insert_sql (lit ''cve_signatures'')
          (map lit [''cve_id'', ''name'', ''description'', ''pattern'', ''flags'', ''severity'', ''cvss'',
             ''affected_product'', ''active'', ''source'', ''modified_at'']))
       (set_default (lit ''modified_at'') now row)"

definition upsert_agent :: "'c mysql \<Rightarrow> doris_event \<Rightarrow> bool" where
  "upsert_agent lib row =
     run_upsert lib
       (insert_sql (lit ''agents'')
          (map lit [''id'', ''hostname'', ''ip'', ''server_type'', ''version'', ''mode'', ''last_seen'', ''created_at'']))
       row"

text \<open>\<open>execute_ddl\<close>: a statement without a row and without a commit of its own.\<close>

definition execute_ddl :: "'c mysql \<Rightarrow> pystr \<Rightarrow> bool" where
  "execute_ddl lib sql = (case my_connect lib of None \<Rightarrow> False | Some c \<Rightarrow> my_execute lib sql [] c \<noteq> None)"

text \<open>Since version 1.0 leaving the block closes the connection, and a commit on a closed connection raises.\<close>

lemma upsert_always_warns: "(\<And>c. my_commit lib (my_exit lib c) = None) \<Longrightarrow> \<not> run_upsert lib sql row"
  by (simp add: run_upsert_def split: option.split)

subsection \<open>The gRPC handlers\<close>

text \<open>\<open>RegisterAgent\<close>: the acknowledgement, whatever became of the upsert, and whether it succeeded.\<close>

definition grpc_agent_row :: "pystr \<Rightarrow> pb_agent_info \<Rightarrow> doris_event" where
  "grpc_agent_row now a =
     [(lit ''id'', ga_id a), (lit ''hostname'', ga_hostname a), (lit ''ip'', ga_ip a),
      (lit ''server_type'', ga_server_type a), (lit ''version'', ga_version a), (lit ''mode'', ga_mode a),
      (lit ''last_seen'', now), (lit ''created_at'', now)]"

definition grpc_register :: "'c mysql \<Rightarrow> pystr \<Rightarrow> pb_agent_info \<Rightarrow> pb_agent_ack \<times> bool" where
  "grpc_register lib now a =
     (\<lparr>gk_ok = True, gk_message = lit ''registered''\<rparr>, upsert_agent lib (grpc_agent_row now a))"

text \<open>
  \<open>serve_grpc\<close>: the port that is opened, if any. \<open>files\<close> gives the content of the certificate files, \<open>tls\<close> whether the
  library accepts key, certificate and authority.
\<close>

datatype grpc_port = MutualTls pystr | InsecurePort pystr

definition serve_grpc ::
  "pystr list \<Rightarrow> (pystr \<Rightarrow> pystr option) \<Rightarrow> (pystr \<Rightarrow> pystr \<Rightarrow> pystr \<Rightarrow> bool) \<Rightarrow> int \<Rightarrow> grpc_port option" where
  "serve_grpc modules files tls port =
     (if \<not> use_proto modules then None
      else let addr = lit ''[::]:'' @ dec_int port
           in case (files (lit ''aiss-server.crt''), files (lit ''aiss-server.key''), files (lit ''ca.crt'')) of
                (Some crt, Some key, Some ca) \<Rightarrow> Some (if tls key crt ca then MutualTls addr else InsecurePort addr)
              | _ \<Rightarrow> Some (InsecurePort addr))"

text \<open>
  \<open>created\<close> is the formatted time, \<open>ns\<close> the clock reading used where the event has no identifier, \<open>shown\<close> the text
  of a floating-point number.
\<close>

definition grpc_dict :: "(pyfloat \<Rightarrow> pystr) \<Rightarrow> pystr \<Rightarrow> int \<Rightarrow> pb_event \<Rightarrow> doris_event" where
  "grpc_dict shown created ns ev =
     [(lit ''created_at'', created), (lit ''id'', or_else (ge_request_id ev) (lit ''grpc-'' @ dec_int ns)),
      (lit ''agent_id'', ge_agent_id ev), (lit ''client_ip'', ge_client_ip ev), (lit ''method'', ge_method ev),
      (lit ''uri'', take 2048 (ge_uri ev)), (lit ''action'', ge_action ev), (lit ''tier'', dec_int (ge_tier ev)),
      (lit ''cve_id'', ge_cve_id ev), (lit ''rule_name'', ge_rule_name ev), (lit ''reason'', take 1024 (ge_reason ev)),
      (lit ''ml_score'', shown (ge_ml_score ev)), (lit ''latency_ms'', shown (ge_latency_ms ev)),
      (lit ''server_type'', ge_server_type ev)]"

text \<open>The loop of \<open>SubmitTelemetry\<close>, which counts the events the queue takes, and the acknowledgement.\<close>

fun submit_events :: "(pyfloat \<Rightarrow> pystr) \<Rightarrow> pystr \<Rightarrow> int \<Rightarrow> pb_event list \<Rightarrow> doris \<Rightarrow> nat \<times> doris" where
  "submit_events shown created ns [] s = (0, s)"
| "submit_events shown created ns (ev # evs) s =
     (let (s', ok) = doris_enqueue (grpc_dict shown created ns ev) s;
          (n, s'') = submit_events shown created ns evs s'
      in ((if ok then Suc n else n), s''))"

definition submit_telemetry ::
  "(pyfloat \<Rightarrow> pystr) \<Rightarrow> pystr \<Rightarrow> int \<Rightarrow> pb_batch \<Rightarrow> doris \<Rightarrow> pb_telemetry_ack \<times> doris" where
  "submit_telemetry shown created ns batch s =
     (let (n, s') = submit_events shown created ns (pb_events batch) s
      in (\<lparr>gt_accepted = int n, gt_message = lit ''ok''\<rparr>, s'))"

text \<open>
  \<open>GetCVEUpdates\<close> over the selected rows, each with its primary key: the messages sent, and the exception that
  ends the stream. Without the generated modules nothing is sent. \<open>row_iso\<close> is \<open>isoformat\<close> of a stored time.
\<close>

definition cve_message :: "(int \<Rightarrow> pystr) \<Rightarrow> int \<Rightarrow> cve_row \<Rightarrow> pb_signature" where
  "cve_message row_iso i r =
     \<lparr>gs_id = i, gs_cve_id = cv_id r, gs_name = cv_name r, gs_pattern = cv_pattern r, gs_flags = cv_flags r,
      gs_severity = cv_severity r, gs_cvss = cv_cvss r, gs_product = cv_product r, gs_active = cv_active r,
      gs_modified_at = row_iso (cv_modified r)\<rparr>"

fun stream_rows ::
  "bool \<Rightarrow> (int \<Rightarrow> pystr) \<Rightarrow> (pystr \<times> cve_row) list \<Rightarrow> pb_signature list \<times> py_error option" where
  "stream_rows protos row_iso [] = ([], None)"
| "stream_rows protos row_iso ((key, r) # rs) =
     (if \<not> protos then stream_rows protos row_iso rs
      else case (if key = [] then Some 0 else py_int key) of
             None \<Rightarrow> ([], Some ValueError)
           | Some i \<Rightarrow> (let (out, e) = stream_rows protos row_iso rs in (cve_message row_iso i r # out, e)))"

text \<open>
  \<open>since\<close> is what \<open>fromisoformat\<close> makes of the request's text, a final \<open>Z\<close> read as the offset zero; an empty or
  unreadable text means the beginning of the epoch.
\<close>

definition since_of :: "(pystr \<Rightarrow> int option) \<Rightarrow> pystr \<Rightarrow> int" where
  "since_of fromiso t = (if t = [] then 0 else case fromiso t of None \<Rightarrow> 0 | Some n \<Rightarrow> n)"

definition get_cve_updates ::
  "bool \<Rightarrow> (int \<Rightarrow> pystr) \<Rightarrow> (pystr \<Rightarrow> int option) \<Rightarrow> pb_update_request \<Rightarrow> (pystr \<times> cve_row) list \<Rightarrow>
     pb_signature list \<times> py_error option" where
  "get_cve_updates protos row_iso fromiso q rows =
     stream_rows protos row_iso (filter (\<lambda>(k, r). cv_active r \<and> since_of fromiso (gu_since q) \<le> cv_modified r) rows)"

text \<open>The text of a UUID, the default of \<open>models.CVESignature.id\<close>: hexadecimal digits, with hyphens inside.\<close>

definition uuid_text :: "pystr \<Rightarrow> bool" where
  "uuid_text k \<longleftrightarrow> k \<noteq> [] \<and> hd k \<noteq> 45 \<and> 45 \<in> set k \<and>
     (\<forall>c \<in> set k. c = 45 \<or> in_range 48 57 c \<or> in_range 97 102 c)"

lemma drop_underscores_set: "drop_underscores p s = Some t \<Longrightarrow> c \<in> set s \<Longrightarrow> c \<noteq> 95 \<Longrightarrow> c \<in> set t"
proof (induction p s arbitrary: t rule: drop_underscores.induct)
  case (2 prev d cs)
  then show ?case by (cases "d = 95") (auto split: if_splits)
qed (auto split: if_splits)

lemma drop_underscores_hd: "drop_underscores p (c # s) = Some t \<Longrightarrow> c \<noteq> 95 \<Longrightarrow> \<exists>u. t = c # u"
  by (auto split: if_splits)

lemma uuid_not_int:
  assumes "uuid_text k"
  shows "py_int k = None"
proof (cases "drop_underscores 0 (strip k)")
  case (Some s)
  obtain c k' where k: "k = c # k'" using assms by (cases k) (auto simp: uuid_text_def)
  have c: "c \<noteq> 95" "c \<noteq> 45" "c \<noteq> 43" using assms by (auto simp: uuid_text_def k)
  have "strip k = k"
    unfolding strip_def using assms by (intro strip_by_id) (auto simp: uuid_text_def is_space_def)
  with Some have d: "drop_underscores 0 (c # k') = Some s" by (simp add: k)
  obtain u where u: "s = c # u" using drop_underscores_hd [OF d c(1)] by blast
  have "45 \<in> set s" using drop_underscores_set [OF d, of 45] assms by (auto simp: uuid_text_def k)
  then have "45 \<in> set u" using c by (simp add: u)
  then have "\<exists>x \<in> set s. \<not> is_digit x" by (intro bexI [of _ 45]) (simp_all add: u is_digit_def)
  with Some c show ?thesis by (simp add: py_int_def Let_def u)
qed (simp add: py_int_def)

lemma stream_uuid:
  "\<forall>(k, r) \<in> set rows. uuid_text k \<Longrightarrow>
     stream_rows protos row_iso rows = ([], if protos \<and> rows \<noteq> [] then Some ValueError else None)"
proof (cases "protos")
  case False
  then have "stream_rows protos row_iso rows = ([], None)" for rows :: "(pystr \<times> cve_row) list"
    by (induction rows) auto
  with False show ?thesis by simp
qed (cases rows, auto simp: uuid_not_int uuid_text_def)

subsection \<open>Properties\<close>

text \<open>
  C33: The writer keeps order and count: in every run the events that have left the queue, followed by those
  still queued, are exactly the accepted ones in order, each handled once, and the queue never exceeds
  100000 events; after a stop nothing is queued, and the events it lost unsent are at most those the cancelled
  task had already taken.
\<close>

theorem doris_conservation:
  assumes "doris_run put acc s" "\<And>c. put c = Some (lit ''Success'')"
  shows "map fst (dw_done s) @ dw_queue s = acc \<and> length (dw_queue s) \<le> 100000 \<and>
    dw_queue (doris_stop put now k s) = [] \<and> map fst (dw_done (doris_stop put now k s)) = acc \<and>
    length (filter (\<lambda>d. \<not> snd d) (dw_done (doris_stop put now k s))) \<le> k + length (filter (\<lambda>d. \<not> snd d) (dw_done s))"
proof -
  have inv: "doris_inv acc s" "doris_inv acc (doris_stop put now k s)"
    using doris_run_inv [OF assms(1)] doris_run_inv [OF doris_end [OF assms(1)]] by blast+
  obtain b s' where c: "collect k s = (b, s')" by (cases "collect k s")
  have "stream_load_batch put now rest" for rest using assms(2) by (simp add: stream_load_batch_def)
  then have "length (filter (\<lambda>d. \<not> snd d) (dw_done (doris_stop put now k s))) =
      length b + length (filter (\<lambda>d. \<not> snd d) (dw_done s))"
    using c collect_parts [OF c] by (simp add: doris_stop_def filter_map o_def)
  moreover have "length b \<le> k" using collect_parts [OF c] by blast
  moreover have "dw_queue (doris_stop put now k s) = []" using c by (simp add: doris_stop_def Let_def)
  ultimately show ?thesis using inv by (simp add: doris_inv_def DORIS_QUEUE_def)
qed

theorem doris_conservation_witness:
  "map fst (dw_done (doris_stop (\<lambda>c. Some (lit ''Success'')) [] 1 (fst (doris_enqueue [([1], [2])] new_writer)))) = [[([1], [2])]]"
proof -
  have e: "doris_enqueue [([1], [2])] new_writer = (fst (doris_enqueue [([1], [2])] new_writer), True)"
    by (simp add: doris_enqueue_def put_nowait_def room_def new_writer_def DORIS_QUEUE_def)
  have "doris_run (\<lambda>c. Some (lit ''Success'')) [[([1], [2])]] (fst (doris_enqueue [([1], [2])] new_writer))"
    using doris_offer [OF doris_start e] by simp
  from doris_conservation [OF this refl, of "[]" 1] show ?thesis by simp
qed

text \<open>A batch over gRPC: the queue takes a prefix of it, in order.\<close>

lemma submit_events_prefix:
  assumes "doris_run put acc s" "submit_events shown created ns evs s = (n, s')"
  shows "n = min (length evs) (DORIS_QUEUE - length (dw_queue s)) \<and>
    doris_run put (acc @ map (grpc_dict shown created ns) (take n evs)) s'"
  using assms
proof (induction evs arbitrary: acc s n)
  case (Cons ev evs)
  let ?d = "grpc_dict shown created ns ev"
  obtain s1 ok where o: "doris_enqueue ?d s = (s1, ok)" by (cases "doris_enqueue ?d s")
  obtain m where m: "submit_events shown created ns evs s1 = (m, s')" "n = (if ok then Suc m else m)"
    using Cons.prems(2) o by (auto split: prod.splits)
  have run: "doris_run put (if ok then acc @ [?d] else acc) s1" using Cons.prems(1) o by (rule doris_offer)
  note IH = Cons.IH [OF run m(1)]
  have q: "dw_queue s1 = dw_queue s @ (if ok then [?d] else [])" "ok \<longleftrightarrow> room DORIS_QUEUE (dw_queue s)"
    using dq.offer_items [OF o] by simp_all
  show ?case
  proof (cases ok)
    case True
    then have "length (dw_queue s) < DORIS_QUEUE" using q(2) by (simp add: room_def DORIS_QUEUE_def)
    moreover have "length (dw_queue s1) = Suc (length (dw_queue s))" using q(1) True by simp
    ultimately have "n = min (length (ev # evs)) (DORIS_QUEUE - length (dw_queue s))" using IH True m(2) by simp
    moreover have "doris_run put (acc @ map (grpc_dict shown created ns) (take n (ev # evs))) s'"
      using conjunct2 [OF IH] True m(2) by (simp only: if_True) simp
    ultimately show ?thesis by blast
  next
    case False
    then have "DORIS_QUEUE \<le> length (dw_queue s)" using q(2) by (simp add: room_def not_less)
    with IH False m(2) q(1) show ?thesis by auto
  qed
qed simp

text \<open>
  Telemetry over gRPC joins the writer's queue: the acknowledgement counts the events for which there was room,
  they are the first ones of the batch, and the writer goes on as if they had been offered one by one, so the
  conservation of every accepted event covers them.
\<close>

theorem grpc_submit_joins_queue:
  assumes "doris_run put acc s" "submit_telemetry shown created ns batch s = (ack, s')"
  shows "gt_accepted ack = min (int (length (pb_events batch))) (100000 - int (length (dw_queue s))) \<and>
    doris_run put (acc @ map (grpc_dict shown created ns) (take (nat (gt_accepted ack)) (pb_events batch))) s'"
proof -
  obtain n where n: "submit_events shown created ns (pb_events batch) s = (n, s')" "gt_accepted ack = int n"
    using assms(2) by (auto simp: submit_telemetry_def split: prod.splits)
  have "length (dw_queue s) \<le> 100000" using doris_run_inv [OF assms(1)] by (simp add: doris_inv_def DORIS_QUEUE_def)
  with submit_events_prefix [OF assms(1) n(1)] n(2) show ?thesis by (auto simp: DORIS_QUEUE_def)
qed

theorem grpc_submit_joins_queue_witness:
  "gt_accepted (fst (submit_telemetry (\<lambda>x. []) [] 0 \<lparr>pb_events = [new_pb_event, new_pb_event]\<rparr> new_writer)) = 2"
  by (subst conjunct1 [OF grpc_submit_joins_queue [OF doris_start, OF prod.collapse [symmetric]]])
    (simp add: new_writer_def)

text \<open>
  The gRPC signature stream never delivers a signature. Without the generated modules it sends nothing; with them
  \<open>int\<close> is applied to the primary key, whose default is the text of a UUID, so on a table with such keys
  \<open>GetCVEUpdates\<close> fails with ValueError exactly when some active row has been modified since the given time.
\<close>

theorem grpc_stream_fails:
  assumes "\<forall>(k, r) \<in> set rows. uuid_text k"
  shows "fst (get_cve_updates protos row_iso fromiso q rows) = [] \<and>
    (snd (get_cve_updates protos row_iso fromiso q rows) = Some ValueError \<longleftrightarrow>
       protos \<and> (\<exists>(k, r) \<in> set rows. cv_active r \<and> since_of fromiso (gu_since q) \<le> cv_modified r)) \<and>
    snd (get_cve_updates protos row_iso fromiso q rows) \<in> {None, Some ValueError}"
proof -
  let ?since = "since_of fromiso (gu_since q)"
  have "\<forall>(k, r) \<in> set (filter (\<lambda>(k, r). cv_active r \<and> ?since \<le> cv_modified r) rows). uuid_text k"
    using assms by auto
  from stream_uuid [OF this] show ?thesis
    by (auto simp: get_cve_updates_def filter_empty_conv split_beta)
qed

theorem grpc_stream_fails_witness:
  "snd (get_cve_updates True (\<lambda>t. []) (\<lambda>t. None) \<lparr>gu_agent_id = [], gu_since = [], gu_api_key = []\<rparr>
     [(lit ''6f1c2d3e-0a1b-4c5d-8e9f-001122334455'',
       \<lparr>cv_id = lit ''CVE-2021-44228'', cv_name = [], cv_description = [], cv_pattern = [97], cv_flags = [],
        cv_severity = lit ''CRITICAL'', cv_cvss = NotANumber, cv_product = [], cv_active = True, cv_source = [],
        cv_modified = 7\<rparr>)]) = Some ValueError"
proof -
  have u: "uuid_text (lit ''6f1c2d3e-0a1b-4c5d-8e9f-001122334455'')" by code_simp
  show ?thesis
    by (subst conjunct1 [OF conjunct2 [OF grpc_stream_fails]]) (simp_all add: u since_of_def)
qed

end
