(* ===== verification/TelemetryPath.thy ===== *)
theory TelemetryPath
  imports WafProxy ServerDb
begin

text \<open>
  The way of an event from the agent through the proxy to the server's table: the registration and the telemetry
  post of \<open>waf-proxy/main.py\<close>, received by \<open>routers/agents.py\<close> and \<open>routers/telemetry.py\<close> with the key check of
  \<open>auth.py\<close>. The HTTP exchange itself is taken to succeed.
\<close>

subsection \<open>What the proxy posts\<close>

record px_identity =
  pi_agent_id :: pystr
  pi_api_key :: pystr

text \<open>The defaults of the environment variables.\<close>

definition default_identity :: px_identity where
  "default_identity = \<lparr>pi_agent_id = lit ''waf-proxy-demo'', pi_api_key = lit ''dev-key''\<rparr>"

definition registration :: "px_identity \<Rightarrow> pystr \<Rightarrow> register_request" where
  "registration env hostname =
     \<lparr>rg_agent_id = pi_agent_id env, rg_hostname = hostname, rg_ip = Some (lit ''waf-proxy''),
      rg_server_type = lit ''nginx'', rg_version = Some (lit ''1.0.0''), rg_api_key = pi_api_key env\<rparr>"

text \<open>
  The event as the server's schema reads it: \<open>action\<close> must be a text, the optional fields a text or null;
  \<open>None\<close> is a validation error.
\<close>

definition schema_text :: "json \<Rightarrow> pystr option option" where
  "schema_text v = (case v of JStr s \<Rightarrow> Some (Some s) | JNull \<Rightarrow> Some None | _ \<Rightarrow> None)"

definition posted_event :: "px_event \<Rightarrow> telemetry_event option" where
  "posted_event e =
     (let v = pe_verdict e
      in case (pv_action v, schema_text (pv_cve_id v), schema_text (pv_rule_name v), schema_text (pv_reason v)) of
           (JStr a, Some c, Some n, Some r) \<Rightarrow>
             Some \<lparr>te_id = pe_id e, te_client_ip = pe_client_ip e, te_method = pe_method e, te_uri = pe_uri e,
                   te_action = a, te_tier = pv_tier v, te_cve_id = c, te_rule_name = n, te_reason = r\<rparr>
         | _ \<Rightarrow> None)"

text \<open>
  \<open>_send_telemetry\<close> and what the server makes of it: the answer and the tables after the background task. The key is
  checked before the body is validated.
\<close>

definition send_telemetry ::
  "auth_lib \<Rightarrow> settings \<Rightarrow> pystr \<times> pystr \<Rightarrow> api_key_row list \<Rightarrow> int \<Rightarrow> px_identity \<Rightarrow> px_event \<Rightarrow> event_db \<Rightarrow>
     nat http \<times> event_db" where
  "send_telemetry lib st pem keys now env e db =
     (let auth = verify_api_key lib st pem keys now \<lparr>cr_api_key = Some (pi_api_key env), cr_authorization = None\<rparr>
      in case (auth, posted_event e) of
           (Inr a, None) \<Rightarrow> (Inl 422, db)
         | (_, ev) \<Rightarrow>
             (case ingest_telemetry auth (case ev of None \<Rightarrow> [] | Some x \<Rightarrow> [x]) of
                (answer, None) \<Rightarrow> (answer, db)
              | (answer, Some (actor, batch)) \<Rightarrow> (answer, persist_events now actor batch db)))"

subsection \<open>Lemmas\<close>

text \<open>The fields of an event that come from the agent's reply.\<close>

definition reply_fields :: "reply \<Rightarrow> pystr \<times> int \<times> pystr \<times> pystr" where
  "reply_fields p =
     (case p of
        FailOpen \<Rightarrow> (lit ''PERMIT'', 0, [], lit ''fail-open'')
      | Answer a tier cve reason \<Rightarrow> (action_text a, int tier, get_or [] cve, reason))"

definition event_row_of :: "int \<Rightarrow> pystr \<Rightarrow> px_request \<Rightarrow> reply \<Rightarrow> event_row" where
  "event_row_of now actor q p =
     (case reply_fields p of
        (a, tier, cve, reason) \<Rightarrow>
          \<lparr>er_agent_id = actor, er_client_ip = client_ip q, er_method = px_method q, er_uri = px_path q,
           er_action = a, er_tier = tier, er_cve_id = cve, er_rule_name = [], er_reason = reason, er_created = now\<rparr>)"

lemma posted_view:
  "\<exists>ev. posted_event (px_event_of uuid q (verdict_view score latency p)) = Some ev \<and>
     stored_event now actor ev = (uuid, event_row_of now actor q p)"
  by (cases p) (auto simp: posted_event_def px_event_of_def verdict_view_def schema_text_def stored_event_def
      event_row_of_def reply_fields_def text_or_def Let_def)

lemma handled_event:
  assumes "plain_request uuid q" "cutting pieces" "reply_number score" "reply_number latency"
    "fst (check cfg lat (agent_request uuid q) (fst st)) = Inr v" "plain_reply (agent_reply timeout lat v)"
  shows "fst (snd (proxy_handle px backend (agent_wire cfg timeout lat True pieces score latency st) exc uuid q)) =
    Some (px_event_of uuid q (verdict_view score latency (agent_reply timeout lat v)))"
  using handle_with_agent [OF assms, of px backend exc] by (simp add: Let_def forwarded_def)

lemma registered_agents:
  "map_of (ed_agents (snd (register_agent lib st now rq db))) i \<noteq> None \<longleftrightarrow>
     i = rg_agent_id rq \<or> map_of (ed_agents db) i \<noteq> None"
  by (auto simp: register_agent_def Let_def map_add_def split: option.splits)

lemma persist_one:
  "persist_events now actor [ev] db =
     (if map_of (ed_events db) (te_id ev) = None \<and> map_of (ed_agents db) actor \<noteq> None
      then db\<lparr>ed_events := ed_events db @ [stored_event now actor ev]\<rparr> else db)"
  by (simp add: persist_events_def commit_events_def stored_event_def)

subsection \<open>Properties\<close>

text \<open>
  C31: Where the agent's verdict ends up. When the agent's check of a request returns a verdict and the server accepts the
  proxy's key for some actor, the telemetry post is acknowledged, and the event is stored, once, with the action,
  tier, CVE and reason the proxy was told and an empty rule name, exactly when its identifier is new and the actor
  is the name the proxy registered under or another registered agent; otherwise it is lost without an error. In the
  development environment the actor is the key itself.
\<close>

theorem telemetry_reaches_table:
  assumes "plain_request uuid q" "cutting pieces" "reply_number score" "reply_number latency"
    and "fst (check cfg lat (agent_request uuid q) (fst pst)) = Inr v" "plain_reply (agent_reply timeout lat v)"
    and "verify_api_key lib st pem keys now \<lparr>cr_api_key = Some (pi_api_key env), cr_authorization = None\<rparr> = Inr actor"
    and "db = snd (register_agent lib st t (registration env host) db0)"
  shows "\<exists>e. fst (snd (proxy_handle px backend (agent_wire cfg timeout lat True pieces score latency pst) exc uuid q)) = Some e \<and>
    send_telemetry lib st pem keys now env e db =
      (Inr 1,
       if map_of (ed_events db) uuid = None \<and> (actor = pi_agent_id env \<or> map_of (ed_agents db0) actor \<noteq> None)
       then db\<lparr>ed_events := ed_events db @ [(uuid, event_row_of now actor q (agent_reply timeout lat v))]\<rparr>
       else db) \<and>
    (st_environment st = lit ''development'' \<longrightarrow> actor = pi_api_key env)"
proof -
  let ?e = "px_event_of uuid q (verdict_view score latency (agent_reply timeout lat v))"
  obtain ev where ev: "posted_event ?e = Some ev"
    "stored_event now actor ev = (uuid, event_row_of now actor q (agent_reply timeout lat v))"
    using posted_view by blast
  have i: "te_id ev = uuid" using ev(2) by (simp add: stored_event_def)
  have "map_of (ed_agents db) actor \<noteq> None \<longleftrightarrow> actor = pi_agent_id env \<or> map_of (ed_agents db0) actor \<noteq> None"
    unfolding assms(8) registered_agents by (simp add: registration_def)
  moreover have "send_telemetry lib st pem keys now env ?e db = (Inr 1, persist_events now actor [ev] db)"
    using assms(7) ev(1) by (simp add: send_telemetry_def ingest_telemetry_def MAX_BATCH_SIZE_def)
  ultimately have "send_telemetry lib st pem keys now env ?e db =
      (Inr 1,
       if map_of (ed_events db) uuid = None \<and> (actor = pi_agent_id env \<or> map_of (ed_agents db0) actor \<noteq> None)
       then db\<lparr>ed_events := ed_events db @ [(uuid, event_row_of now actor q (agent_reply timeout lat v))]\<rparr>
       else db)"
    unfolding persist_one i ev(2) by presburger
  moreover have "actor = pi_api_key env" if "st_environment st = lit ''development''"
    using assms(7) that by (auto simp: verify_api_key_def presented_def extract_bearer_def split: if_splits option.splits)
  ultimately show ?thesis using handled_event [OF assms(1-6), of px backend exc] by blast
qed

text \<open>With the defaults everywhere the event is lost: the proxy registers under one name and posts under another.\<close>

theorem telemetry_reaches_table_witness:
  "\<exists>e. fst (snd (proxy_handle demo_px (\<lambda>og. BackendReply 200 [] []) demo_wire [] [117] (demo_get (lit ''/a.css'') []))) = Some e \<and>
     send_telemetry toy_lib default_settings ([], []) [] 5 default_identity e
       (snd (register_agent toy_lib default_settings 0 (registration default_identity []) \<lparr>ed_agents = [], ed_events = []\<rparr>)) =
     (Inr 1, snd (register_agent toy_lib default_settings 0 (registration default_identity []) \<lparr>ed_agents = [], ed_events = []\<rparr>))"
proof -
  let ?q = "demo_get (lit ''/a.css'') []"
  have p: "plain_request [117] ?q" and s: "is_static_file (px_path ?q)" by code_simp+
  have a: "verify_api_key toy_lib default_settings ([], []) [] 5
      \<lparr>cr_api_key = Some (pi_api_key default_identity), cr_authorization = None\<rparr> = Inr (lit ''dev-key'')" by code_simp
  have n: "lit ''dev-key'' \<noteq> pi_agent_id default_identity" by code_simp
  from telemetry_reaches_table [OF p demo_exchange demo_exchange(2) static_permit [OF s] plain_static a refl,
      where px = demo_px and exc = "[]" and t = 0 and host = "[]" and ?db0.0 = "\<lparr>ed_agents = [], ed_events = []\<rparr>"] n
  show ?thesis unfolding demo_wire_def by simp blast
qed

end
