(* ===== verification/Upkeep.thy ===== *)
theory Upkeep
  imports Store Startup ServerApi Doris TelemetryPath
begin

text \<open>
  What runs beside the requests, and how it ends: the synchronisation loop of \<open>cve_sync.py\<close>, the heartbeat of
  \<open>waf-proxy/main.py\<close>, the shutdown of \<open>server/app/main.py\<close>, the closing of the agent's store in \<open>duckdb_store.py\<close>. An endless
  loop is a function of the list of its rounds; the rounds given are as many as one looks at.
\<close>

subsection \<open>The synchronisation loop\<close>

text \<open>
  \<open>sync_all\<close> in its four stages. A round of \<open>run_forever\<close> may end with an exception of the database after some of
  them, which the loop swallows; each stage commits what it did.
\<close>

definition upsert_handcrafted :: "(pystr \<Rightarrow> bool) \<Rightarrow> int \<Rightarrow> cve_row list \<Rightarrow> nat \<times> cve_row list" where
  "upsert_handcrafted valid now rows = upsert_patterns valid now HANDCRAFTED_PATTERNS rows"

definition sync_stages :: "(pystr \<Rightarrow> bool) \<Rightarrow> int \<Rightarrow> pystr \<Rightarrow> feeds \<Rightarrow> (cve_row list \<Rightarrow> nat \<times> cve_row list) list" where
  "sync_stages valid now nvd_api_key f =
     [upsert_handcrafted valid now, sync_cisa_kev valid now (fd_cisa f), sync_osv valid now (fd_osv f)] @
     (if nvd_api_key = [] then [] else [sync_nvd valid now (fd_nvd f)])"

record sync_round =
  sy_took :: int
  sy_feeds :: feeds
  sy_stages :: nat    \<comment> \<open>the stages that end before an exception, if there is one\<close>

definition run_stages :: "(cve_row list \<Rightarrow> nat \<times> cve_row list) list \<Rightarrow> cve_row list \<Rightarrow> cve_row list" where
  "run_stages fs rows = foldl (\<lambda>rows g. snd (g rows)) rows fs"

text \<open>The table after each round, with the time it is left; \<open>hours\<close> is the configured interval, times are seconds.\<close>

fun run_forever ::
  "(pystr \<Rightarrow> bool) \<Rightarrow> pystr \<Rightarrow> int \<Rightarrow> int \<Rightarrow> sync_round list \<Rightarrow> cve_row list \<Rightarrow> (int \<times> cve_row list) list" where
  "run_forever valid nvd_api_key hours t [] rows = []"
| "run_forever valid nvd_api_key hours t (r # rs) rows =
     (let rows' = run_stages (take (sy_stages r) (sync_stages valid t nvd_api_key (sy_feeds r))) rows;
          t' = t + sy_took r
      in (t', rows') # run_forever valid nvd_api_key hours (t' + hours * 3600) rs rows')"

lemma stages_sync_all: "run_stages (sync_stages valid now k f) rows = snd (sync_all valid now k f rows)"
  by (simp add: run_stages_def sync_stages_def upsert_handcrafted_def sync_all_parts Let_def)

lemma stage_keeps:
  assumes "served_cve rows i" "g \<in> set (sync_stages valid now k f)"
  shows "served_cve (snd (g rows)) i"
  using assms sync_keeps [OF assms(1)] upsert_keeps [OF assms(1)]
  by (auto simp: sync_stages_def upsert_handcrafted_def split: if_splits)

lemma stages_keep: "served_cve rows i \<Longrightarrow> set fs \<subseteq> set (sync_stages valid now k f) \<Longrightarrow> served_cve (run_stages fs rows) i"
proof (induction fs arbitrary: rows)
  case (Cons g fs)
  from Cons.prems(2) have g: "g \<in> set (sync_stages valid now k f)" "set fs \<subseteq> set (sync_stages valid now k f)" by simp_all
  from Cons.IH [OF stage_keeps [OF Cons.prems(1) g(1)] g(2)] show ?case by (simp add: run_stages_def)
qed (simp add: run_stages_def)

lemma rounds_keep:
  "served_cve rows i \<Longrightarrow> list_all (\<lambda>(u, c). served_cve c i) (run_forever valid k hours t rs rows)"
proof (induction rs arbitrary: t rows)
  case (Cons r rs)
  let ?rows = "run_stages (take (sy_stages r) (sync_stages valid t k (sy_feeds r))) rows"
  have s: "served_cve ?rows i" using Cons.prems by (rule stages_keep) (rule set_take_subset)
  from Cons.IH [OF s] s show ?case by (simp add: Let_def)
qed simp

text \<open>
  A signature once served is served for ever. From the first synchronisation of the start on, every built-in
  signature is present and active after every round of the worker, whatever the feeds answer and however many rounds fail,
  and a round without a failure is the whole synchronisation.
\<close>

theorem worker_serves_builtin:
  assumes "list_all (\<lambda>p. valid (fp_pattern p)) HANDCRAFTED_PATTERNS"
    and "hist = run_forever valid k hours t rs (snd (sync_all valid now k f rows))"
  shows "list_all (\<lambda>(u, c). list_all (\<lambda>p. served_cve c (fp_cve_id p)) HANDCRAFTED_PATTERNS) hist \<and>
    run_stages (sync_stages valid now k f) rows = snd (sync_all valid now k f rows)"
proof -
  have "list_all (\<lambda>p. served_cve (snd (sync_all valid now k f rows)) (fp_cve_id p)) HANDCRAFTED_PATTERNS"
    using assms(1) by (rule sync_serves_builtin)
  then have "list_all (\<lambda>(u, c). served_cve c (fp_cve_id p)) hist" if "p \<in> set HANDCRAFTED_PATTERNS" for p
    unfolding assms(2) using that by (intro rounds_keep) (auto simp: list_all_iff)
  then show ?thesis by (auto simp: list_all_iff stages_sync_all)
qed

definition no_feeds :: feeds where
  "no_feeds = \<lparr>fd_cisa = None, fd_osv = [], fd_nvd = None\<rparr>"

theorem worker_serves_builtin_witness:
  "list_all (\<lambda>(u, c). list_all (\<lambda>p. served_cve c (fp_cve_id p)) HANDCRAFTED_PATTERNS)
     (run_forever (\<lambda>p. True) [] 1 0 [\<lparr>sy_took = 5, sy_feeds = no_feeds, sy_stages = 0\<rparr>, \<lparr>sy_took = 9, sy_feeds = no_feeds, sy_stages = 3\<rparr>]
        (snd (sync_all (\<lambda>p. True) 0 [] no_feeds [])))"
proof -
  have "list_all (\<lambda>p. True) HANDCRAFTED_PATTERNS" by (simp add: list_all_iff)
  from conjunct1 [OF worker_serves_builtin [OF this refl]] show ?thesis .
qed

subsection \<open>The heartbeat\<close>

definition HEARTBEAT_PAUSE :: int where
  "HEARTBEAT_PAUSE = 30"

text \<open>
  \<open>_heartbeat_loop\<close> against the server: each round posts once, with the state it meets, and whatever comes of
  it is ignored. A round is the call's environment, or \<open>None\<close> where the post does not reach the server.
\<close>

definition beat :: "px_identity \<Rightarrow> api_call \<times> credentials" where
  "beat px = (Heartbeat (pi_agent_id px), \<lparr>cr_api_key = Some (pi_api_key px), cr_authorization = None\<rparr>)"

fun heartbeat_loop :: "api_config \<Rightarrow> px_identity \<Rightarrow> api_env option list \<Rightarrow> api_state \<Rightarrow> api_state" where
  "heartbeat_loop cfg px [] s = s"
| "heartbeat_loop cfg px (None # rs) s = heartbeat_loop cfg px rs s"
| "heartbeat_loop cfg px (Some env # rs) s =
     heartbeat_loop cfg px rs (snd (api cfg env (fst (beat px)) (snd (beat px)) s))"

text \<open>\<open>on_startup\<close> starts the registration and the heartbeat at once; the first beat may come before the registration.\<close>

definition on_startup :: "api_config \<Rightarrow> px_identity \<Rightarrow> pystr \<Rightarrow> api_env option list \<Rightarrow> api_env \<Rightarrow> api_env option list \<Rightarrow> api_state \<Rightarrow> api_state" where
  "on_startup cfg px hostname before reg later s =
     heartbeat_loop cfg px later
       (snd (api cfg reg (RegisterAgent (registration px hostname)) (snd (beat px)) (heartbeat_loop cfg px before s)))"

definition seen_at :: "api_env option list \<Rightarrow> int option \<Rightarrow> int option" where
  "seen_at rs t = foldl (\<lambda>t r. case r of None \<Rightarrow> t | Some env \<Rightarrow> Some (en_now env)) t rs"

abbreviation key_ok :: "api_config \<Rightarrow> api_key_row list \<Rightarrow> px_identity \<Rightarrow> api_env option \<Rightarrow> bool" where
  "key_ok cfg keys px r \<equiv>
     (case r of None \<Rightarrow> True
      | Some env \<Rightarrow> \<not> isl (authorize cfg (en_now env) keys AnyCredential (snd (beat px))))"

lemma beat_step:
  "ap_keys (snd (api cfg env (fst (beat px)) (snd (beat px)) s)) = ap_keys s"
  "map_of (ed_agents (ap_db s)) (pi_agent_id px) = None \<Longrightarrow> snd (api cfg env (fst (beat px)) (snd (beat px)) s) = s"
  by (cases "verify_api_key (ac_lib cfg) (ac_settings cfg) (ac_pem cfg) (ap_keys s) (en_now env) (snd (beat px))";
      simp add: beat_def api_def agent_heartbeat_def Let_def)+

lemma update_row_lookup: "map_of (update_row k f t) i = (if i = k then map_option f (map_of t i) else map_of t i)"
  by (induction t) (auto simp: update_row_def)

lemma beat_registered:
  assumes "map_of (ed_agents (ap_db s)) (pi_agent_id px) = Some a"
    "\<not> isl (authorize cfg (en_now env) (ap_keys s) AnyCredential (snd (beat px)))"
  shows "map_of (ed_agents (ap_db (snd (api cfg env (fst (beat px)) (snd (beat px)) s)))) (pi_agent_id px) =
    Some (a\<lparr>ag_last_seen := Some (en_now env)\<rparr>)"
  using assms
  by (cases "verify_api_key (ac_lib cfg) (ac_settings cfg) (ac_pem cfg) (ap_keys s) (en_now env) (snd (beat px))")
    (simp_all add: beat_def api_def agent_heartbeat_def authorize_def Let_def update_row_lookup)

lemma unregistered_beats:
  "map_of (ed_agents (ap_db s)) (pi_agent_id px) = None \<Longrightarrow> heartbeat_loop cfg px rs s = s"
  by (induction cfg px rs s rule: heartbeat_loop.induct) (simp_all add: beat_step(2))

lemma registered_beats:
  assumes "map_of (ed_agents (ap_db s)) (pi_agent_id px) = Some a" "list_all (key_ok cfg (ap_keys s) px) rs"
  shows "map_of (ed_agents (ap_db (heartbeat_loop cfg px rs s))) (pi_agent_id px) =
    Some (a\<lparr>ag_last_seen := seen_at rs (ag_last_seen a)\<rparr>)"
  using assms
proof (induction cfg px rs s arbitrary: a rule: heartbeat_loop.induct)
  case (1 cfg px s)
  then show ?case by (simp add: seen_at_def)
next
  case (2 cfg px rs s)
  then show ?case by (simp add: seen_at_def)
next
  case (3 cfg px env rs s)
  let ?s = "snd (api cfg env (fst (beat px)) (snd (beat px)) s)"
  have "map_of (ed_agents (ap_db ?s)) (pi_agent_id px) = Some (a\<lparr>ag_last_seen := Some (en_now env)\<rparr>)"
    using 3(2,3) by (intro beat_registered) simp_all
  moreover have "list_all (key_ok cfg (ap_keys ?s) px) rs" using 3(3) unfolding beat_step(1) by simp
  ultimately show ?case using 3(1) by (simp add: seen_at_def)
qed

text \<open>
  A proxy that starts against a server that does not know it is listed in shadow mode, and as seen at the time of
  the last beat the server received after the registration, if its key is accepted; the beats before the registration are lost.
\<close>

theorem heartbeat_tracks:
  assumes "map_of (ed_agents (ap_db s)) (pi_agent_id px) = None" "list_all (key_ok cfg (ap_keys s) px) later"
  shows "\<exists>a. map_of (ed_agents (ap_db (on_startup cfg px hostname before reg later s))) (pi_agent_id px) = Some a \<and>
    ag_mode a = lit ''shadow'' \<and> ag_last_seen a = seen_at later None"
proof -
  let ?s = "snd (api cfg reg (RegisterAgent (registration px hostname)) (snd (beat px)) s)"
  have r: "\<exists>a. map_of (ed_agents (ap_db ?s)) (pi_agent_id px) = Some a \<and> ag_mode a = lit ''shadow'' \<and> ag_last_seen a = None"
    "ap_keys ?s = ap_keys s"
    using assms(1) by (simp_all add: api_def register_agent_def registration_def Let_def map_add_def)
  then obtain a where a: "map_of (ed_agents (ap_db ?s)) (pi_agent_id px) = Some a" "ag_mode a = lit ''shadow''" "ag_last_seen a = None"
    by blast
  have "list_all (key_ok cfg (ap_keys ?s) px) later" using assms(2) unfolding r(2) .
  from registered_beats [OF a(1) this] a(2,3) show ?thesis
    by (simp add: on_startup_def unregistered_beats [OF assms(1)])
qed

theorem heartbeat_tracks_witness:
  "\<exists>a. map_of (ed_agents (ap_db (on_startup (demo_config\<lparr>ac_settings := default_settings\<rparr>) default_identity [] [Some demo_env] demo_env
       [Some demo_env, None, Some (demo_env\<lparr>en_now := 80\<rparr>)] new_state))) (lit ''waf-proxy-demo'') = Some a \<and>
     ag_mode a = lit ''shadow'' \<and> ag_last_seen a = Some 80"
proof -
  let ?cfg = "demo_config\<lparr>ac_settings := default_settings\<rparr>" and ?rs = "[Some demo_env, None, Some (demo_env\<lparr>en_now := 80\<rparr>)]"
  have "list_all (key_ok ?cfg (ap_keys new_state) default_identity) ?rs" by code_simp
  from heartbeat_tracks [OF _ this] show ?thesis
    by (simp add: new_state_def default_identity_def seen_at_def)
qed

subsection \<open>The end of the server\<close>

text \<open>
  The shutdown of \<open>lifespan\<close>: the gRPC task is only asked to end, and goes on serving for its grace period of five seconds
  while the writer stops. \<open>late\<close> are the batches that arrive then, after the writer has drained its queue.
\<close>

fun submit_all :: "(pyfloat \<Rightarrow> pystr) \<Rightarrow> pystr \<Rightarrow> int \<Rightarrow> pb_batch list \<Rightarrow> doris \<Rightarrow> pb_telemetry_ack list \<times> doris" where
  "submit_all shown created ns [] s = ([], s)"
| "submit_all shown created ns (b # bs) s =
     (let (ack, s') = submit_telemetry shown created ns b s;
          (acks, s'') = submit_all shown created ns bs s'
      in (ack # acks, s''))"

definition lifespan_end ::
  "(pystr \<Rightarrow> pystr option) \<Rightarrow> (pyfloat \<Rightarrow> pystr) \<Rightarrow> pystr \<Rightarrow> int \<Rightarrow> nat \<Rightarrow> pb_batch list \<Rightarrow> doris \<Rightarrow> pb_telemetry_ack list \<times> doris" where
  "lifespan_end put shown created ns k late s = submit_all shown created ns late (doris_stop put created k s)"

lemma submit_done: "dw_done (snd (submit_events shown created ns evs s)) = dw_done s"
proof (induction shown created ns evs s rule: submit_events.induct)
  case (2 shown created ns ev evs s)
  obtain s' ok where o: "doris_enqueue (grpc_dict shown created ns ev) s = (s', ok)"
    by (cases "doris_enqueue (grpc_dict shown created ns ev) s")
  moreover have "dw_done s' = dw_done s" using o by (auto simp: doris_enqueue_def split: option.splits)
  ultimately show ?case using 2 by (simp add: case_prod_beta Let_def)
qed simp

lemma submit_all_run:
  assumes "doris_run put acc s"
  shows "\<exists>more. doris_run put (acc @ more) (snd (submit_all shown created ns bs s)) \<and>
    int (length more) = sum_list (map gt_accepted (fst (submit_all shown created ns bs s))) \<and>
    dw_done (snd (submit_all shown created ns bs s)) = dw_done s"
  using assms
proof (induction bs arbitrary: acc s)
  case Nil
  then show ?case by (intro exI [of _ "[]"]) simp
next
  case (Cons b bs)
  obtain n s' where n: "submit_events shown created ns (pb_events b) s = (n, s')"
    by (cases "submit_events shown created ns (pb_events b) s")
  note p = submit_events_prefix [OF Cons.prems n]
  let ?first = "map (grpc_dict shown created ns) (take n (pb_events b))"
  obtain more where more: "doris_run put ((acc @ ?first) @ more) (snd (submit_all shown created ns bs s'))"
    "int (length more) = sum_list (map gt_accepted (fst (submit_all shown created ns bs s')))"
    "dw_done (snd (submit_all shown created ns bs s')) = dw_done s'"
    using Cons.IH [OF conjunct2 [OF p]] by blast
  have d: "dw_done s' = dw_done s" using submit_done [of shown created ns "pb_events b" s] n by simp
  have "length ?first = n" using p by simp
  then show ?case using more n d
    by (intro exI [of _ "?first @ more"]) (simp add: submit_telemetry_def case_prod_beta Let_def)
qed

text \<open>
  Telemetry acknowledged during the shutdown is lost: after the end of the lifespan the queue holds exactly as many
  events as the gRPC handlers still acknowledged, and none of them is among the events the writer handled.
\<close>

theorem shutdown_loses_late:
  assumes "doris_run put acc s" "lifespan_end put shown created ns k late s = (acks, s')"
  shows "int (length (dw_queue s')) = sum_list (map gt_accepted acks) \<and> map fst (dw_done s') = acc"
proof -
  let ?s = "doris_stop put created k s"
  have run: "doris_run put acc ?s" using assms(1) by (rule doris_end)
  have q: "dw_queue ?s = []" by (simp add: doris_stop_def case_prod_beta Let_def)
  with doris_run_inv [OF run] have d: "map fst (dw_done ?s) = acc" by (simp add: doris_inv_def)
  obtain more where m: "doris_run put (acc @ more) s'" "int (length more) = sum_list (map gt_accepted acks)" "dw_done s' = dw_done ?s"
    using submit_all_run [OF run, of shown created ns late] assms(2) by (auto simp: lifespan_end_def)
  from doris_run_inv [OF m(1)] d m(3) have "dw_queue s' = more" by (simp add: doris_inv_def)
  with m d show ?thesis by simp
qed

theorem shutdown_loses_late_witness:
  "length (dw_queue (snd (lifespan_end (\<lambda>c. None) (\<lambda>x. []) [] 0 0 [\<lparr>pb_events = [new_pb_event]\<rparr>] new_writer))) = 1"
proof -
  let ?e = "lifespan_end (\<lambda>c. None) (\<lambda>x. []) [] 0 0 [\<lparr>pb_events = [new_pb_event]\<rparr>] new_writer"
  have "map gt_accepted (fst ?e) = [1]"
    by (simp add: lifespan_end_def submit_telemetry_def doris_stop_def collect_def drain_eq new_writer_def doris_enqueue_def
        put_nowait_def room_def DORIS_QUEUE_def)
  with shutdown_loses_late [OF doris_start prod.collapse [symmetric], of "\<lambda>c. None" "\<lambda>x. []" "[]" 0 0 "[\<lparr>pb_events = [new_pb_event]\<rparr>]"]
  show ?thesis by simp
qed

subsection \<open>The end of the agent's store\<close>

text \<open>
  \<open>close\<close> sets the flag the writer looks at between its rounds, so it ends at most the round it is in (\<open>fin\<close>: it is in one,
  and ends it within the five seconds of the join); what is still queued is gone. A store is a context manager.
\<close>

definition close_store :: "bool \<Rightarrow> int \<Rightarrow> duckdb \<Rightarrow> duckdb" where
  "close_store fin now s = (if fin then write_round now s else s)\<lparr>st_queue := []\<rparr>"

definition with_store :: "pystr \<Rightarrow> tables \<Rightarrow> (duckdb \<Rightarrow> duckdb) \<Rightarrow> bool \<Rightarrow> int \<Rightarrow> tables" where
  "with_store path existing body fin now = st_tables (close_store fin now (body (open_store path existing)))"

text \<open>
  A close forgets queued verdicts. What the next agent finds for a file's hash is what the table held, overridden by the
  verdicts among the first 200 queued statements if the writer still ended a round, and by none otherwise: so
  a file blocked shortly before a restart is unknown after it.
\<close>

theorem close_forgets_verdicts:
  assumes "fresh_ids (st_queue s) (st_tables s)" "path \<noteq> lit '':memory:''"
  shows "get_file_hash sha (open_store path (st_tables (close_store fin now s))) =
    Inr ((map_of (t_hashes (st_tables s)) ++ map_of (rev (hash_writes (take (if fin then 200 else 0) (st_queue s))))) sha)"
proof -
  have "fresh_ids (take 200 (st_queue s)) (st_tables s)"
    using assms(1) event_ids_append [of "take 200 (st_queue s)" "drop 200 (st_queue s)"] by (auto simp: fresh_ids_def)
  from execute_batch_hashes [OF this, of now] show ?thesis
    using assms(2) by (simp add: close_store_def open_store_def get_file_hash_def read_tables_def WRITE_BATCH_def)
qed

theorem close_forgets_verdicts_witness:
  "get_file_hash [1] (open_store (lit ''a.db'') (st_tables (close_store False 0
     (store_file_hash [1] (lit ''BLOCK'') None (open_store (lit ''a.db'') empty_tables))))) = Inr None"
proof -
  let ?s = "store_file_hash [1] (lit ''BLOCK'') None (open_store (lit ''a.db'') empty_tables)"
  have s: "fresh_ids (st_queue ?s) (st_tables ?s)" "lit ''a.db'' \<noteq> lit '':memory:''" "t_hashes (st_tables ?s) = []" by code_simp+
  from close_forgets_verdicts [OF s(1,2), of "[1]" False 0] s(3) show ?thesis by simp
qed

end
