(* ===== verification/Locks.thy ===== *)
theory Locks
  imports Auth
begin

text \<open>
  The server's two locks, \<open>_db_lock\<close> of \<open>server/app/database.py\<close> and \<open>_chain_lock\<close> of
  \<open>server/app/middleware/audit.py\<close>: the order in which every endpoint, dependency and background task takes
  and releases them, and the interleavings of any number of requests. Both are \<open>threading.Lock\<close>, so
  taking a lock one already holds blocks.
\<close>

subsection \<open>Locks and what takes them\<close>

datatype lock = ChainLock | DbLock

text \<open>Locks are ordered by the order in which the audit task takes them.\<close>

instantiation lock :: linorder
begin

definition less_lock :: "lock \<Rightarrow> lock \<Rightarrow> bool" where
  "less_lock a b \<longleftrightarrow> a = ChainLock \<and> b = DbLock"

definition less_eq_lock :: "lock \<Rightarrow> lock \<Rightarrow> bool" where
  "less_eq_lock a b \<longleftrightarrow> a = b \<or> a = ChainLock"

instance
  by standard (auto simp: less_lock_def less_eq_lock_def intro: lock.exhaust)

end

datatype lock_op = Acquire lock | Release lock

text \<open>\<open>get_db\<close> as a dependency: the lock is held while the rest of the request runs.\<close>

definition with_db :: "lock_op list \<Rightarrow> lock_op list" where
  "with_db body = Acquire DbLock # body @ [Release DbLock]"

text \<open>\<open>_lookup_api_key\<close>, and the dependency that calls it (\<open>verify_api_key\<close> or \<open>verify_api_key_with_role\<close>).\<close>

definition lookup_ops :: "settings \<Rightarrow> pystr \<Rightarrow> lock_op list" where
  "lookup_ops st raw = (if raw = st_secret st then [] else with_db [])"

definition verify_ops :: "settings \<Rightarrow> credentials \<Rightarrow> lock_op list" where
  "verify_ops st c =
     (case presented c of
        None \<Rightarrow> []
      | Some raw \<Rightarrow>
          if st_environment st = lit ''development'' \<or> startswith raw (lit ''eyJ'') then []
          else lookup_ops st raw)"

datatype dependency = GetDb | VerifyKey

datatype endpoint =
    RegisterAgent | ListAgents | SetAgentMode | AgentHeartbeat | DeleteAgent
  | IngestTelemetry | GetUpdates | GetSummary | GetTimeline | GetEvents
  | CreateApiKey | ExchangeForToken | WhoAmI
  | ListAudit | VerifyAudit | PurgeAudit | ResetChain
  | InspectRequest

text \<open>The dependencies of each endpoint in the order of its parameters, in which FastAPI resolves them.\<close>

fun dependencies :: "endpoint \<Rightarrow> dependency list" where
  "dependencies RegisterAgent = [GetDb]"
| "dependencies ExchangeForToken = [GetDb]"
| "dependencies IngestTelemetry = [VerifyKey]"
| "dependencies WhoAmI = [VerifyKey]"
| "dependencies InspectRequest = [VerifyKey]"
| "dependencies e = [GetDb, VerifyKey]"

text \<open>What the handlers themselves take; \<open>key\<close> is the key in the body of a token request.\<close>

definition handler_ops :: "settings \<Rightarrow> pystr \<Rightarrow> endpoint \<Rightarrow> lock_op list" where
  "handler_ops st key e =
     (case e of
        ExchangeForToken \<Rightarrow> if st_environment st = lit ''development'' then [] else lookup_ops st key
      | ResetChain \<Rightarrow> [Acquire ChainLock, Release ChainLock]
      | _ \<Rightarrow> [])"

text \<open>A rejected dependency ends the request; the dependencies already entered are left.\<close>

fun request_ops :: "settings \<Rightarrow> credentials \<Rightarrow> bool \<Rightarrow> dependency list \<Rightarrow> lock_op list \<Rightarrow> lock_op list" where
  "request_ops st c admitted [] body = body"
| "request_ops st c admitted (GetDb # ds) body = with_db (request_ops st c admitted ds body)"
| "request_ops st c admitted (VerifyKey # ds) body =
     verify_ops st c @ (if admitted then request_ops st c admitted ds body else [])"

definition endpoint_ops :: "settings \<Rightarrow> credentials \<Rightarrow> bool \<Rightarrow> pystr \<Rightarrow> endpoint \<Rightarrow> lock_op list" where
  "endpoint_ops st c admitted key e = request_ops st c admitted (dependencies e) (handler_ops st key e)"

text \<open>
  Tasks outside a request's dependencies: the audit entry (\<open>_append_to_chain\<close> with \<open>_write_sync\<close>), and
  every task that opens a session of its own (\<open>_persist_events\<close>, \<open>_persist_inspect_event\<close>, one pattern
  of \<open>_upsert_patterns\<close>, a refresh of the signature cache, \<open>_seed_bootstrap_key\<close>).
\<close>

definition audit_ops :: "lock_op list" where
  "audit_ops = Acquire ChainLock # with_db [] @ [Release ChainLock]"

definition session_ops :: "lock_op list" where
  "session_ops = with_db []"

subsection \<open>Interleavings\<close>

record lock_state =
  ls_owner :: "lock \<Rightarrow> nat option"
  ls_threads :: "lock_op list list"

definition lock_step :: "nat \<Rightarrow> lock_state \<Rightarrow> lock_state option" where
  "lock_step i s =
     (if i < length (ls_threads s) then
        case ls_threads s ! i of
          [] \<Rightarrow> None
        | Acquire l # r \<Rightarrow>
            if ls_owner s l = None
            then Some \<lparr>ls_owner = (ls_owner s)(l := Some i), ls_threads = (ls_threads s)[i := r]\<rparr>
            else None
        | Release l # r \<Rightarrow> Some \<lparr>ls_owner = (ls_owner s)(l := None), ls_threads = (ls_threads s)[i := r]\<rparr>
      else None)"

inductive lock_run :: "lock_state \<Rightarrow> lock_state \<Rightarrow> bool" where
  run_refl: "lock_run s s"
| run_step: "lock_run s s' \<Longrightarrow> lock_step i s' = Some s'' \<Longrightarrow> lock_run s s''"

definition fresh_locks :: "lock_op list list \<Rightarrow> lock_state" where
  "fresh_locks ts = \<lparr>ls_owner = (\<lambda>l. None), ls_threads = ts\<rparr>"

definition finished :: "lock_state \<Rightarrow> bool" where
  "finished s \<longleftrightarrow> (\<forall>ops \<in> set (ls_threads s). ops = [])"

subsection \<open>Bracketing and order\<close>

text \<open>The locks held after a sequence of operations, innermost first; \<open>None\<close> where it is not well bracketed.\<close>

fun held_after :: "lock list \<Rightarrow> lock_op list \<Rightarrow> lock list option" where
  "held_after h [] = Some h"
| "held_after h (Acquire l # r) = held_after (l # h) r"
| "held_after h (Release l # r) = (case h of [] \<Rightarrow> None | x # hs \<Rightarrow> if x = l then held_after hs r else None)"

text \<open>Locks are taken in increasing order only.\<close>

fun ordered :: "lock list \<Rightarrow> lock_op list \<Rightarrow> bool" where
  "ordered h [] = True"
| "ordered h (Acquire l # r) = ((\<forall>x \<in> set h. x < l) \<and> ordered (l # h) r)"
| "ordered h (Release l # r) = ordered (tl h) r"

lemma held_after_append:
  "held_after h (xs @ ys) = (case held_after h xs of None \<Rightarrow> None | Some h' \<Rightarrow> held_after h' ys)"
  by (induction h xs rule: held_after.induct) (auto split: list.split)

definition balanced :: "lock_op list \<Rightarrow> bool" where
  "balanced ops \<longleftrightarrow> (\<forall>h. held_after h ops = Some h)"

lemma balanced_Nil [simp, intro]: "balanced []"
  by (simp add: balanced_def)

lemma balanced_append [intro]: "balanced xs \<Longrightarrow> balanced ys \<Longrightarrow> balanced (xs @ ys)"
  by (simp add: balanced_def held_after_append)

lemma balanced_with_db [intro]: "balanced body \<Longrightarrow> balanced (with_db body)"
  by (simp add: balanced_def with_db_def held_after_append)

lemma balanced_lookup: "balanced (lookup_ops st raw)"
  by (auto simp: lookup_ops_def)

lemma balanced_verify: "balanced (verify_ops st c)"
  by (auto simp: verify_ops_def balanced_lookup split: option.split)

lemma balanced_handler: "balanced (handler_ops st key e)"
proof -
  have "balanced [Acquire ChainLock, Release ChainLock]" by (simp add: balanced_def)
  then show ?thesis by (auto simp: handler_ops_def balanced_lookup split: endpoint.split)
qed

lemma balanced_request: "balanced body \<Longrightarrow> balanced (request_ops st c a ds body)"
  by (induction st c a ds body rule: request_ops.induct) (auto simp: balanced_verify)

lemma balanced_audit: "balanced audit_ops"
  by (simp add: balanced_def audit_ops_def with_db_def)

text \<open>The sequences the server runs.\<close>

definition server_trace :: "settings \<Rightarrow> lock_op list \<Rightarrow> bool" where
  "server_trace st ops \<longleftrightarrow>
     ops = audit_ops \<or> ops = session_ops \<or> (\<exists>c admitted key e. ops = endpoint_ops st c admitted key e)"

lemma server_trace_balanced: "server_trace st ops \<Longrightarrow> balanced ops"
  by (auto simp: server_trace_def session_ops_def endpoint_ops_def balanced_audit
      intro: balanced_request balanced_handler)

subsection \<open>Ownership\<close>

definition owned :: "(nat \<Rightarrow> lock list) \<Rightarrow> lock_state \<Rightarrow> bool" where
  "owned held s \<longleftrightarrow>
     (\<forall>i l. ls_owner s l = Some i \<longleftrightarrow> l \<in> set (held i)) \<and>
     (\<forall>i. distinct (held i)) \<and>
     (\<forall>i. if i < length (ls_threads s) then held_after (held i) (ls_threads s ! i) = Some [] else held i = [])"

lemma lock_step_cases:
  assumes "lock_step i s = Some s'"
  obtains (acquire) l r where "i < length (ls_threads s)" "ls_threads s ! i = Acquire l # r" "ls_owner s l = None"
      "s' = \<lparr>ls_owner = (ls_owner s)(l := Some i), ls_threads = (ls_threads s)[i := r]\<rparr>"
  | (release) l r where "i < length (ls_threads s)" "ls_threads s ! i = Release l # r"
      "s' = \<lparr>ls_owner = (ls_owner s)(l := None), ls_threads = (ls_threads s)[i := r]\<rparr>"
  using assms unfolding lock_step_def
  by (auto split: if_splits list.splits lock_op.splits)

lemma owned_owner: "owned held s \<Longrightarrow> ls_owner s l = Some i \<longleftrightarrow> l \<in> set (held i)"
  by (simp add: owned_def)

lemma owned_distinct: "owned held s \<Longrightarrow> distinct (held i)"
  by (simp add: owned_def)

lemma owned_thread: "owned held s \<Longrightarrow> i < length (ls_threads s) \<Longrightarrow> held_after (held i) (ls_threads s ! i) = Some []"
  unfolding owned_def by metis

lemma owned_outside: "owned held s \<Longrightarrow> \<not> i < length (ls_threads s) \<Longrightarrow> held i = []"
  unfolding owned_def by metis

lemma ownedI:
  assumes "\<And>i l. ls_owner s l = Some i \<longleftrightarrow> l \<in> set (held i)" "\<And>i. distinct (held i)"
    and "\<And>i. i < length (ls_threads s) \<Longrightarrow> held_after (held i) (ls_threads s ! i) = Some []"
    and "\<And>i. \<not> i < length (ls_threads s) \<Longrightarrow> held i = []"
  shows "owned held s"
  using assms by (simp add: owned_def)

lemma owned_step:
  assumes "owned held s" "lock_step i s = Some s'"
  shows "\<exists>held'. owned held' s' \<and> (\<forall>j. j \<noteq> i \<longrightarrow> held' j = held j) \<and>
    (case ls_threads s ! i of Acquire l # r \<Rightarrow> held' i = l # held i | _ \<Rightarrow> held' i = tl (held i))"
  using assms(2)
proof (cases rule: lock_step_cases)
  case (acquire l r)
  have n: "l \<notin> set (held j)" for j
    using owned_owner [OF assms(1), of l j] acquire(3) by simp
  have "owned (held(i := l # held i)) s'"
  proof (rule ownedI)
    show "ls_owner s' x = Some j \<longleftrightarrow> x \<in> set ((held(i := l # held i)) j)" for j x
      using owned_owner [OF assms(1), of x j] n acquire(4) by auto
    show "distinct ((held(i := l # held i)) j)" for j using owned_distinct [OF assms(1)] n by simp
    show "held_after ((held(i := l # held i)) j) (ls_threads s' ! j) = Some []" if "j < length (ls_threads s')" for j
      using owned_thread [OF assms(1), of j] that acquire by (auto simp: nth_list_update)
    show "(held(i := l # held i)) j = []" if "\<not> j < length (ls_threads s')" for j
      using owned_outside [OF assms(1), of j] that acquire by auto
  qed
  with acquire(2) show ?thesis by (intro exI [of _ "held(i := l # held i)"]) simp
next
  case (release l r)
  have "held_after (held i) (Release l # r) = Some []"
    using owned_thread [OF assms(1) release(1)] release(2) by simp
  then obtain hs where hs: "held i = l # hs" "held_after hs r = Some []"
    by (auto split: list.splits if_splits)
  have d: "l \<notin> set hs" "distinct hs" using owned_distinct [OF assms(1), of i] hs by simp_all
  have n: "l \<notin> set (held j)" if "j \<noteq> i" for j
    using owned_owner [OF assms(1), of l i] owned_owner [OF assms(1), of l j] hs that by auto
  have "owned (held(i := hs)) s'"
  proof (rule ownedI)
    show "ls_owner s' x = Some j \<longleftrightarrow> x \<in> set ((held(i := hs)) j)" for j x
      using owned_owner [OF assms(1), of x j] n [of j] hs d release(3) by auto
    show "distinct ((held(i := hs)) j)" for j using owned_distinct [OF assms(1)] d by simp
    show "held_after ((held(i := hs)) j) (ls_threads s' ! j) = Some []" if "j < length (ls_threads s')" for j
      using owned_thread [OF assms(1), of j] that release hs(2) by (auto simp: nth_list_update)
    show "(held(i := hs)) j = []" if "\<not> j < length (ls_threads s')" for j
      using owned_outside [OF assms(1), of j] that release by auto
  qed
  with release(2) hs show ?thesis by (intro exI [of _ "held(i := hs)"]) simp
qed

lemma owned_fresh: "\<forall>ops \<in> set ts. balanced ops \<Longrightarrow> owned (\<lambda>i. []) (fresh_locks ts)"
  by (simp add: owned_def fresh_locks_def balanced_def)

lemma owned_run: "lock_run s s' \<Longrightarrow> owned held s \<Longrightarrow> \<exists>held'. owned held' s'"
proof (induction rule: lock_run.induct)
  case (run_step s s' i s'')
  then obtain held' where "owned held' s'" by blast
  from owned_step [OF this run_step.hyps(2)] show ?case by blast
qed blast

lemma lock_run_trans: "lock_run t u \<Longrightarrow> lock_run s t \<Longrightarrow> lock_run s u"
  by (induction rule: lock_run.induct) (auto intro: lock_run.intros)

lemma lock_step_length: "lock_step i s = Some s' \<Longrightarrow> length (ls_threads s') = length (ls_threads s)"
  by (auto elim: lock_step_cases)

subsection \<open>Deadlock\<close>

text \<open>A set of requests each of which waits for a lock that one of them holds.\<close>

definition deadlocked :: "nat set \<Rightarrow> lock_state \<Rightarrow> bool" where
  "deadlocked B s \<longleftrightarrow>
     (\<forall>i \<in> B. i < length (ls_threads s) \<and>
        (\<exists>l r. ls_threads s ! i = Acquire l # r \<and> (\<exists>k \<in> B. ls_owner s l = Some k)))"

lemma deadlocked_blocked: "deadlocked B s \<Longrightarrow> i \<in> B \<Longrightarrow> lock_step i s = None \<and> ls_threads s ! i \<noteq> []"
  by (fastforce simp: deadlocked_def lock_step_def)

lemma deadlocked_step:
  assumes "deadlocked B s" "owned held s" "lock_step i s = Some s'"
  shows "deadlocked B s' \<and> (\<forall>l. \<forall>k \<in> B. ls_owner s l = Some k \<longrightarrow> ls_owner s' l = Some k)"
proof -
  have i: "i \<notin> B" using deadlocked_blocked [OF assms(1)] assms(3) by auto
  have keep: "ls_owner s' l = Some k" if "k \<in> B" "ls_owner s l = Some k" for l k
    using assms(3)
  proof (cases rule: lock_step_cases)
    case (acquire l' r)
    with that show ?thesis by auto
  next
    case (release l' r)
    have "held_after (held i) (Release l' # r) = Some []"
      using owned_thread [OF assms(2) release(1)] release(2) by simp
    then have "l' \<in> set (held i)" by (auto split: list.splits if_splits)
    then have "ls_owner s l' = Some i" using owned_owner [OF assms(2)] by simp
    with that i release(3) show ?thesis by auto
  qed
  have same: "ls_threads s' ! j = ls_threads s ! j" if "j \<in> B" for j
  proof -
    have "i \<noteq> j" using i that by blast
    then show ?thesis using assms(3) by (auto elim!: lock_step_cases)
  qed
  have "deadlocked B s'"
    unfolding deadlocked_def lock_step_length [OF assms(3)]
    using assms(1) keep same unfolding deadlocked_def by metis
  with keep show ?thesis by blast
qed

lemma deadlock_persists:
  assumes "lock_run s s'" "deadlocked B s" "owned held s"
  shows "deadlocked B s' \<and> (\<forall>l. \<forall>k \<in> B. ls_owner s l = Some k \<longrightarrow> ls_owner s' l = Some k)"
  using assms
proof (induction rule: lock_run.induct)
  case (run_step s s' i s'')
  obtain held' where "owned held' s'" using owned_run [OF run_step.hyps(1) run_step.prems(2)] by blast
  with deadlocked_step [OF _ this run_step.hyps(2)] run_step.IH run_step.prems show ?case by blast
qed simp

text \<open>Who needs a lock that a deadlocked request holds never finishes.\<close>

lemma waits_for_ever:
  assumes "lock_run s s'" "deadlocked B s" "owned held s"
    and "ls_owner s l = Some k" "k \<in> B" "j < length (ls_threads s)" "Acquire l \<in> set (ls_threads s ! j)"
  shows "Acquire l \<in> set (ls_threads s' ! j) \<and> j < length (ls_threads s')"
  using assms
proof (induction rule: lock_run.induct)
  case (run_step s s' i s'')
  have o: "ls_owner s' l = Some k" using deadlock_persists [OF run_step.hyps(1) run_step.prems(1,2)] run_step.prems by blast
  have IH: "Acquire l \<in> set (ls_threads s' ! j)" "j < length (ls_threads s')"
    using run_step.IH run_step.prems by blast+
  show ?case using run_step.hyps(2)
  proof (cases rule: lock_step_cases)
    case (acquire l' r)
    with o have "l' \<noteq> l" by auto
    with acquire IH show ?thesis by (cases "i = j") auto
  next
    case (release l' r)
    with IH show ?thesis by (cases "i = j") auto
  qed
qed simp

text \<open>Requests that take the database lock while they hold it.\<close>

definition self_locking :: "settings \<Rightarrow> credentials \<Rightarrow> pystr \<Rightarrow> endpoint \<Rightarrow> bool" where
  "self_locking st c key e \<longleftrightarrow>
     st_environment st \<noteq> lit ''development'' \<and>
     (e = ExchangeForToken \<and> key \<noteq> st_secret st \<or>
      dependencies e = [GetDb, VerifyKey] \<and>
      (\<exists>raw. presented c = Some raw \<and> raw \<noteq> st_secret st \<and> \<not> startswith raw (lit ''eyJ'')))"

lemma self_locking_trace:
  assumes "self_locking st c key e"
  shows "\<exists>r. endpoint_ops st c a key e = Acquire DbLock # Acquire DbLock # r"
proof (cases "e = ExchangeForToken")
  case True
  with assms show ?thesis
    by (auto simp: self_locking_def endpoint_ops_def handler_ops_def lookup_ops_def with_db_def)
next
  case False
  with assms obtain raw where "presented c = Some raw" "raw \<noteq> st_secret st" "\<not> startswith raw (lit ''eyJ'')"
    "st_environment st \<noteq> lit ''development''" "dependencies e = [GetDb, VerifyKey]"
    by (auto simp: self_locking_def)
  then show ?thesis by (simp add: endpoint_ops_def verify_ops_def lookup_ops_def with_db_def)
qed

lemma reachable_owned:
  assumes "\<forall>ops \<in> set ts. server_trace st ops" "lock_run (fresh_locks ts) s"
  shows "\<exists>held. owned held s"
  using owned_run [OF assms(2)] owned_fresh [of ts] assms(1) server_trace_balanced by blast

subsection \<open>Properties\<close>

text \<open>
  C15: One request stops the production server for good. When a request with a key from the key table
  (valid or not, but neither the server secret nor a token) to an endpoint that opens the database
  session before it checks the key, or an unauthenticated token request with any key other than
  the secret, takes the free database lock, it then waits for itself: in every continuation it never takes
  another step, and no other request or task that still needs the database ever finishes.
\<close>

theorem locks_key_lookup_deadlock:
  assumes "\<forall>ops \<in> set ts. server_trace st ops" "lock_run (fresh_locks ts) s"
    and "self_locking st c key e" "i < length (ls_threads s)" "ls_threads s ! i = endpoint_ops st c a key e"
    and "ls_owner s DbLock = None"
  shows "\<exists>s1. lock_step i s = Some s1 \<and>
    (\<forall>s2. lock_run s1 s2 \<longrightarrow>
       lock_step i s2 = None \<and> ls_threads s2 ! i \<noteq> [] \<and>
       (\<forall>j. j < length (ls_threads s1) \<longrightarrow> Acquire DbLock \<in> set (ls_threads s1 ! j) \<longrightarrow> ls_threads s2 ! j \<noteq> []))"
proof -
  obtain r where r: "ls_threads s ! i = Acquire DbLock # Acquire DbLock # r"
    using self_locking_trace [OF assms(3)] assms(5) by metis
  let ?s1 = "\<lparr>ls_owner = (ls_owner s)(DbLock := Some i), ls_threads = (ls_threads s)[i := Acquire DbLock # r]\<rparr>"
  have step: "lock_step i s = Some ?s1" using assms(4,6) r by (simp add: lock_step_def)
  obtain held where "owned held s" using reachable_owned [OF assms(1,2)] by blast
  then obtain held1 where o: "owned held1 ?s1" using owned_step [OF _ step] by blast
  have d: "deadlocked {i} ?s1" using assms(4) by (simp add: deadlocked_def)
  have "lock_step i s2 = None \<and> ls_threads s2 ! i \<noteq> [] \<and>
      (\<forall>j. j < length (ls_threads ?s1) \<longrightarrow> Acquire DbLock \<in> set (ls_threads ?s1 ! j) \<longrightarrow> ls_threads s2 ! j \<noteq> [])"
    if run: "lock_run ?s1 s2" for s2
  proof -
    have "deadlocked {i} s2" using deadlock_persists [OF run d o] by blast
    then have "lock_step i s2 = None \<and> ls_threads s2 ! i \<noteq> []" by (rule deadlocked_blocked) simp
    moreover have "ls_threads s2 ! j \<noteq> []"
      if "j < length (ls_threads ?s1)" "Acquire DbLock \<in> set (ls_threads ?s1 ! j)" for j
      using waits_for_ever [OF run d o, of DbLock i j] that by auto
    ultimately show ?thesis by blast
  qed
  with step show ?thesis by blast
qed

text \<open>The example: an unauthenticated token request and one audit entry.\<close>

definition no_credentials :: credentials where
  "no_credentials = \<lparr>cr_api_key = None, cr_authorization = None\<rparr>"

definition token_guess :: "lock_op list" where
  "token_guess = endpoint_ops production no_credentials True (lit ''guess'') ExchangeForToken"

theorem locks_key_lookup_deadlock_witness:
  "\<exists>s1. lock_step 0 (fresh_locks [token_guess, audit_ops]) = Some s1 \<and>
    \<not> (\<exists>s2. lock_run s1 s2 \<and> (ls_threads s2 ! 0 = [] \<or> ls_threads s2 ! 1 = []))"
proof -
  let ?s = "fresh_locks [token_guess, audit_ops]"
  have t: "\<forall>ops \<in> set [token_guess, audit_ops]. server_trace production ops"
    by (auto simp: server_trace_def token_guess_def)
  have l: "self_locking production no_credentials (lit ''guess'') ExchangeForToken"
  proof -
    have "st_environment production \<noteq> lit ''development''" "lit ''guess'' \<noteq> st_secret production" by code_simp+
    then show ?thesis by (simp add: self_locking_def)
  qed
  have a: "0 < length (ls_threads ?s)" "ls_threads ?s ! 0 = token_guess" "ls_owner ?s DbLock = None"
    by (simp_all add: fresh_locks_def)
  obtain s1 where s1: "lock_step 0 ?s = Some s1"
    "\<And>s2. lock_run s1 s2 \<Longrightarrow> lock_step 0 s2 = None \<and> ls_threads s2 ! 0 \<noteq> [] \<and>
       (\<forall>j. j < length (ls_threads s1) \<longrightarrow> Acquire DbLock \<in> set (ls_threads s1 ! j) \<longrightarrow> ls_threads s2 ! j \<noteq> [])"
    using locks_key_lookup_deadlock [OF t run_refl l a(1) _ a(3), of True] a(2) unfolding token_guess_def by blast
  have "ls_threads s1 ! 1 = audit_ops \<and> length (ls_threads s1) = 2"
    using s1(1) by (auto simp: fresh_locks_def elim!: lock_step_cases)
  then have "Acquire DbLock \<in> set (ls_threads s1 ! 1)" "1 < length (ls_threads s1)" by (simp_all add: audit_ops_def with_db_def)
  with s1 show ?thesis by blast
qed

text \<open>
  Resetting the audit chain can stop the server: the reset takes the chain lock while it holds the
  database session, an audit entry takes them in the opposite order, so from any state in which both
  locks are free and an admitted reset (by the server secret or a token) and an audit entry are about to
  start, there is a schedule after which neither ever takes another step.
\<close>

theorem locks_reset_audit_deadlock:
  assumes "\<forall>ops \<in> set ts. server_trace st ops" "lock_run (fresh_locks ts) s"
    and "verify_ops st c = []" "i < length (ls_threads s)" "ls_threads s ! i = endpoint_ops st c True key ResetChain"
    and "j < length (ls_threads s)" "ls_threads s ! j = audit_ops"
    and "ls_owner s DbLock = None" "ls_owner s ChainLock = None"
  shows "\<exists>s'. lock_run s s' \<and>
    (\<forall>s2. lock_run s' s2 \<longrightarrow> lock_step i s2 = None \<and> lock_step j s2 = None \<and>
       ls_threads s2 ! i \<noteq> [] \<and> ls_threads s2 ! j \<noteq> [])"
proof -
  let ?ri = "[Acquire ChainLock, Release ChainLock, Release DbLock]"
  let ?rj = "[Acquire DbLock, Release DbLock, Release ChainLock]"
  have ti: "ls_threads s ! i = Acquire DbLock # ?ri"
    using assms(3,5) by (simp add: endpoint_ops_def handler_ops_def with_db_def)
  have tj: "ls_threads s ! j = Acquire ChainLock # ?rj"
    using assms(7) by (simp add: audit_ops_def with_db_def)
  have ij: "i \<noteq> j" using ti tj by auto
  let ?s1 = "\<lparr>ls_owner = (ls_owner s)(DbLock := Some i), ls_threads = (ls_threads s)[i := ?ri]\<rparr>"
  let ?s2 = "\<lparr>ls_owner = (ls_owner ?s1)(ChainLock := Some j), ls_threads = (ls_threads ?s1)[j := ?rj]\<rparr>"
  have step1: "lock_step i s = Some ?s1" using assms(4,8) ti by (simp add: lock_step_def)
  have step2: "lock_step j ?s1 = Some ?s2" using assms(6,9) tj ij by (simp add: lock_step_def)
  have run: "lock_run s ?s2" using run_step [OF run_step [OF run_refl step1] step2] .
  obtain held where "owned held s" using reachable_owned [OF assms(1,2)] by blast
  then obtain held2 where o: "owned held2 ?s2" using owned_run [OF run] by blast
  have d: "deadlocked {i, j} ?s2" using assms(4,6) ij by (auto simp: deadlocked_def nth_list_update)
  have "lock_step i s3 = None \<and> lock_step j s3 = None \<and> ls_threads s3 ! i \<noteq> [] \<and> ls_threads s3 ! j \<noteq> []"
    if "lock_run ?s2 s3" for s3
  proof -
    have "deadlocked {i, j} s3" using deadlock_persists [OF that d o] by blast
    then show ?thesis using deadlocked_blocked [of "{i, j}" s3 i] deadlocked_blocked [of "{i, j}" s3 j] by simp
  qed
  with run show ?thesis by blast
qed

theorem locks_reset_audit_deadlock_witness:
  "\<exists>s'. lock_run (fresh_locks [endpoint_ops production (api_key_cred (lit ''s3cret'')) True [] ResetChain, audit_ops]) s' \<and>
    lock_step 0 s' = None \<and> lock_step 1 s' = None \<and> \<not> finished s'"
proof -
  let ?r = "endpoint_ops production (api_key_cred (lit ''s3cret'')) True [] ResetChain"
  let ?s = "fresh_locks [?r, audit_ops]"
  have t: "\<forall>ops \<in> set [?r, audit_ops]. server_trace production ops"
    by (auto simp: server_trace_def)
  have v: "verify_ops production (api_key_cred (lit ''s3cret'')) = []" by code_simp
  have "0 < length (ls_threads ?s)" "ls_threads ?s ! 0 = ?r" "1 < length (ls_threads ?s)" "ls_threads ?s ! 1 = audit_ops"
    "ls_owner ?s DbLock = None" "ls_owner ?s ChainLock = None" by (simp_all add: fresh_locks_def)
  from locks_reset_audit_deadlock [OF t run_refl v this] obtain s' where s': "lock_run ?s s'"
    "lock_step 0 s' = None" "lock_step 1 s' = None" "ls_threads s' ! 0 \<noteq> []" using run_refl by blast
  have "length (ls_threads s') = length (ls_threads ?s)"
    using s'(1) by (induction rule: lock_run.induct) (simp_all add: lock_step_length)
  then have "\<not> finished s'" using s'(4) unfolding finished_def fresh_locks_def by (auto simp: Ball_def in_set_conv_nth)
  with s' show ?thesis by blast
qed

subsection \<open>Progress\<close>

definition locks_inv :: "lock_state \<Rightarrow> bool" where
  "locks_inv s \<longleftrightarrow> (\<exists>held. owned held s \<and> (\<forall>i < length (ls_threads s). ordered (held i) (ls_threads s ! i)))"

lemma locks_inv_step:
  assumes "locks_inv s" "lock_step i s = Some s'"
  shows "locks_inv s'"
proof -
  obtain held where h: "owned held s" "\<And>i. i < length (ls_threads s) \<Longrightarrow> ordered (held i) (ls_threads s ! i)"
    using assms(1) unfolding locks_inv_def by blast
  obtain held' where h': "owned held' s'" "\<And>j. j \<noteq> i \<Longrightarrow> held' j = held j"
    "case ls_threads s ! i of Acquire l # r \<Rightarrow> held' i = l # held i | _ \<Rightarrow> held' i = tl (held i)"
    using owned_step [OF h(1) assms(2)] by blast
  have "ordered (held' j) (ls_threads s' ! j)" if "j < length (ls_threads s')" for j
    using assms(2)
  proof (cases rule: lock_step_cases)
    case (acquire l r)
    then show ?thesis using h(2) [of j] h'(2) [of j] h'(3) that by (cases "i = j") auto
  next
    case (release l r)
    then show ?thesis using h(2) [of j] h'(2) [of j] h'(3) that by (cases "i = j") auto
  qed
  with h'(1) show ?thesis unfolding locks_inv_def by blast
qed

lemma locks_inv_run: "lock_run s s' \<Longrightarrow> locks_inv s \<Longrightarrow> locks_inv s'"
  by (induction rule: lock_run.induct) (auto intro: locks_inv_step)

lemma holder_releases:
  assumes "owned held s" "\<forall>i < length (ls_threads s). ordered (held i) (ls_threads s ! i)"
    and "ls_owner s l = Some i"
  shows "i < length (ls_threads s) \<and>
    ((\<exists>l' r. ls_threads s ! i = Release l' # r) \<or> (\<exists>l' r. ls_threads s ! i = Acquire l' # r \<and> l < l'))"
proof -
  have l: "l \<in> set (held i)" using owned_owner [OF assms(1)] assms(3) by simp
  then have i: "i < length (ls_threads s)" using owned_outside [OF assms(1), of i] by fastforce
  have "held_after (held i) (ls_threads s ! i) = Some []" using owned_thread [OF assms(1) i] .
  then show ?thesis
    using l i assms(2)
    by (cases "ls_threads s ! i"; cases "hd (ls_threads s ! i)") auto
qed

lemma lock_progress:
  assumes "locks_inv s" "\<not> finished s"
  shows "\<exists>i s'. lock_step i s = Some s'"
proof -
  obtain held where h: "owned held s" "\<forall>i < length (ls_threads s). ordered (held i) (ls_threads s ! i)"
    using assms(1) unfolding locks_inv_def by blast
  note hold = holder_releases [OF h]
  have release: "\<exists>s'. lock_step i s = Some s'" if "i < length (ls_threads s)" "ls_threads s ! i = Release l # r" for i l r
    using that by (simp add: lock_step_def)
  have acquire: "\<exists>s'. lock_step i s = Some s'"
    if "i < length (ls_threads s)" "ls_threads s ! i = Acquire l # r" "ls_owner s l = None" for i l r
    using that by (simp add: lock_step_def)
  have top: "\<not> DbLock < l" for l :: lock by (simp add: less_lock_def)
  consider (db) k where "ls_owner s DbLock = Some k"
    | (chain) k where "ls_owner s DbLock = None" "ls_owner s ChainLock = Some k"
    | (none) "\<And>l. ls_owner s l = None"
    by (metis lock.exhaust option.exhaust)
  then show ?thesis
  proof cases
    case db
    from hold [OF this] top release show ?thesis by blast
  next
    case chain
    from hold [OF chain(2)] obtain l r where k: "k < length (ls_threads s)"
      "(\<exists>l' r. ls_threads s ! k = Release l' # r) \<or> ls_threads s ! k = Acquire l # r \<and> ChainLock < l" by blast
    then show ?thesis using release acquire chain(1) by (metis less_lock_def)
  next
    case none
    obtain i where i: "i < length (ls_threads s)" "ls_threads s ! i \<noteq> []"
      using assms(2) by (auto simp: finished_def in_set_conv_nth)
    then obtain x r where "ls_threads s ! i = x # r" by (cases "ls_threads s ! i") auto
    with i release acquire none show ?thesis by (cases x) blast+
  qed
qed

text \<open>The operations left; every step is one less.\<close>

definition work_left :: "lock_state \<Rightarrow> nat" where
  "work_left s = sum_list (map length (ls_threads s))"

lemma work_left_update:
  "i < length ts \<Longrightarrow> ts ! i = x # r \<Longrightarrow> Suc (sum_list (map length (ts[i := r]))) = sum_list (map length ts)"
  by (induction ts arbitrary: i) (auto simp: nth_Cons split: nat.splits)

lemma lock_step_work: "lock_step i s = Some s' \<Longrightarrow> Suc (work_left s') = work_left s"
  by (elim lock_step_cases) (simp_all add: work_left_def work_left_update)

lemma lock_completes: "locks_inv s \<Longrightarrow> \<exists>s'. lock_run s s' \<and> finished s'"
proof (induction "work_left s" arbitrary: s rule: less_induct)
  case less
  show ?case
  proof (cases "finished s")
    case True
    then show ?thesis using run_refl by blast
  next
    case False
    then obtain i s1 where s1: "lock_step i s = Some s1" using lock_progress less.prems by blast
    moreover have "work_left s1 < work_left s" using lock_step_work [OF s1] by simp
    ultimately obtain s2 where "lock_run s1 s2" "finished s2"
      using less.hyps locks_inv_step [OF less.prems] by blast
    with lock_run_trans [OF this(1) run_step [OF run_refl s1]] show ?thesis by blast
  qed
qed

lemma safe_endpoint_ordered:
  assumes "\<not> self_locking st c key e" "e \<noteq> ResetChain"
  shows "ordered [] (endpoint_ops st c a key e)"
proof -
  have v: "ordered [] (verify_ops st c)"
    by (auto simp: verify_ops_def lookup_ops_def with_db_def split: option.split)
  consider "e = RegisterAgent" | "e = ExchangeForToken" | "dependencies e = [VerifyKey]" "handler_ops st key e = []"
    | "dependencies e = [GetDb, VerifyKey]" "handler_ops st key e = []"
    using assms(2) by (cases e) (simp_all add: handler_ops_def)
  then show ?thesis
  proof cases
    case 4
    then have "verify_ops st c = []"
      using assms(1) by (auto simp: self_locking_def verify_ops_def lookup_ops_def split: option.split)
    with 4 show ?thesis by (simp add: endpoint_ops_def with_db_def)
  qed (use assms(1) v in \<open>auto simp: endpoint_ops_def handler_ops_def lookup_ops_def with_db_def self_locking_def\<close>)
qed

definition safe_trace :: "settings \<Rightarrow> lock_op list \<Rightarrow> bool" where
  "safe_trace st ops \<longleftrightarrow>
     ops = audit_ops \<or> ops = session_ops \<or>
     (\<exists>c admitted key e. ops = endpoint_ops st c admitted key e \<and> \<not> self_locking st c key e \<and> e \<noteq> ResetChain)"



end
