(* ===== verification/Config.thy ===== *)
theory Config
  imports PyLib
begin

text \<open>
  The agent's configuration, \<open>agent/config/config.py\<close>: defaults, the first configuration file that exists,
  environment variables. The code reads and writes the fields of the dataclass by name, so the model keeps
  them as a list of named, typed values in the order of the class. The files and the environment are
  functions.
\<close>

datatype config_value = VStr pystr | VInt int | VFloat pyfloat

datatype config_type = TStr | TInt | TFloat

definition type_of :: "config_value \<Rightarrow> config_type" where
  "type_of v = (case v of VStr s \<Rightarrow> TStr | VInt i \<Rightarrow> TInt | VFloat x \<Rightarrow> TFloat)"

type_synonym agent_config = "(pystr \<times> config_value) list"

definition hundredths :: "int \<Rightarrow> config_value" where
  "hundredths n = VFloat (Fin (fl_quot n 100))"

definition AgentConfig :: agent_config where
  "AgentConfig =
     [(lit ''agent_id'', VStr []),
      (lit ''server_url'', VStr (lit ''http://localhost:8080'')),
      (lit ''socket_path'', VStr (lit ''/tmp/aiss.sock'')),
      (lit ''duckdb_path'', VStr (lit ''/var/lib/aiss/aiss.duckdb'')),
      (lit ''model_path'', VStr (lit ''/var/lib/aiss/model.onnx'')),
      (lit ''log_level'', VStr (lit ''INFO'')),
      (lit ''mode'', VStr (lit ''enforce'')),
      (lit ''api_key'', VStr []),
      (lit ''rules_dir'', VStr []),
      (lit ''patterns_file'', VStr []),
      (lit ''verdict_cache_ttl'', VInt 60),
      (lit ''telemetry_batch_size'', VInt 1000),
      (lit ''telemetry_flush_interval'', hundredths 100),
      (lit ''cve_sync_interval'', VInt 3600),
      (lit ''model_check_interval'', VInt 21600),
      (lit ''content_full_scan_limit'', VInt 10240),
      (lit ''content_sample_scan_limit'', VInt 1048576),
      (lit ''ml_block_threshold'', hundredths 85),
      (lit ''socket_timeout'', hundredths 1)]"

text \<open>\<open>field_type(val)\<close>; \<open>None\<close> is a \<open>ValueError\<close>.\<close>

definition convert :: "config_type \<Rightarrow> pystr \<Rightarrow> config_value option" where
  "convert t val =
     (case t of
        TStr \<Rightarrow> Some (VStr val)
      | TInt \<Rightarrow> map_option VInt (py_int val)
      | TFloat \<Rightarrow> map_option VFloat (py_float val))"

definition set_attr :: "pystr \<Rightarrow> config_value \<Rightarrow> agent_config \<Rightarrow> agent_config" where
  "set_attr key v cfg = map (\<lambda>(k, x). (k, if k = key then v else x)) cfg"

text \<open>One line of \<open>_load_file\<close>: comments, lines without \<open>=\<close>, unknown keys and bad numbers are skipped.\<close>

definition replace_char :: "int \<Rightarrow> int \<Rightarrow> pystr \<Rightarrow> pystr" where
  "replace_char a b s = map (\<lambda>c. if c = a then b else c) s"

definition parse_line :: "pystr \<Rightarrow> (pystr \<times> pystr) option" where
  "parse_line line =
     (let s = strip line
      in if s = [] \<or> startswith s [35] \<or> 61 \<notin> set s then None
         else Some (replace_char 45 95 (strip (before_first 61 s)),
                    strip_by (\<lambda>c. c = 39) (strip_by (\<lambda>c. c = 34) (strip (after_first 61 s)))))"

definition load_line :: "pystr \<Rightarrow> agent_config \<Rightarrow> agent_config" where
  "load_line line cfg =
     (case parse_line line of
        None \<Rightarrow> cfg
      | Some (key, val) \<Rightarrow>
          (case map_of cfg key of
             None \<Rightarrow> cfg
           | Some old \<Rightarrow>
               (case convert (type_of old) val of
                  None \<Rightarrow> cfg
                | Some v \<Rightarrow> set_attr key v cfg)))"

definition load_file :: "pystr list \<Rightarrow> agent_config \<Rightarrow> agent_config" where
  "load_file ls cfg = foldl (\<lambda>c l. load_line l c) cfg ls"

definition env_key :: "pystr \<Rightarrow> pystr" where
  "env_key field = lit ''AISS_'' @ py_upper field"

text \<open>The loop over the fields: a bad number in the environment is not caught.\<close>

fun load_env :: "(pystr \<Rightarrow> pystr option) \<Rightarrow> pystr list \<Rightarrow> agent_config \<Rightarrow> agent_config result" where
  "load_env env [] cfg = Inr cfg"
| "load_env env (f # fs) cfg =
     (case (env (env_key f), map_of cfg f) of
        (Some val, Some old) \<Rightarrow>
          (case convert (type_of old) val of
             None \<Rightarrow> Inl ValueError
           | Some v \<Rightarrow> load_env env fs (set_attr f v cfg))
      | _ \<Rightarrow> load_env env fs cfg)"

definition first_file :: "(pystr \<Rightarrow> pystr list option) \<Rightarrow> pystr list \<Rightarrow> pystr list" where
  "first_file fs paths =
     (case first_match (\<lambda>p. p \<noteq> [] \<and> fs p \<noteq> None) paths of
        None \<Rightarrow> []
      | Some p \<Rightarrow> (case fs p of None \<Rightarrow> [] | Some ls \<Rightarrow> ls))"

definition base_config :: "pystr \<Rightarrow> agent_config" where
  "base_config project_root =
     set_attr (lit ''patterns_file'') (VStr (project_root @ lit ''/rules/hyperscan/cve_patterns.json''))
       (set_attr (lit ''rules_dir'') (VStr (project_root @ lit ''/rules/yara'')) AgentConfig)"

definition config_paths :: "pystr \<Rightarrow> pystr option \<Rightarrow> pystr list" where
  "config_paths project_root config_path =
     [case config_path of None \<Rightarrow> [] | Some p \<Rightarrow> p, lit ''/etc/aiss/aiss.conf'', project_root @ lit ''/aiss.conf'']"

text \<open>\<open>uuid\<close> is the identifier generated when none is configured.\<close>

definition load_config ::
  "(pystr \<Rightarrow> pystr list option) \<Rightarrow> (pystr \<Rightarrow> pystr option) \<Rightarrow> pystr \<Rightarrow> pystr \<Rightarrow> pystr option \<Rightarrow> agent_config result" where
  "load_config fs env project_root uuid config_path =
     (case load_env env (map fst AgentConfig)
             (load_file (first_file fs (config_paths project_root config_path)) (base_config project_root)) of
        Inl e \<Rightarrow> Inl e
      | Inr cfg \<Rightarrow>
          Inr (if map_of cfg (lit ''agent_id'') = Some (VStr []) then set_attr (lit ''agent_id'') (VStr uuid) cfg
               else cfg))"

subsection \<open>Lemmas\<close>

lemma map_of_set_attr:
  "map_of (set_attr key v cfg) k = (if k = key \<and> map_of cfg k \<noteq> None then Some v else map_of cfg k)"
  by (induction cfg) (auto simp: set_attr_def)

definition typing :: "agent_config \<Rightarrow> (pystr \<times> config_type) list" where
  "typing cfg = map (map_prod id type_of) cfg"

lemma typing_set_attr:
  assumes "distinct (map fst cfg)" "map_of cfg key = Some old" "type_of v = type_of old"
  shows "typing (set_attr key v cfg) = typing cfg"
  using assms
proof -
  have "type_of x = type_of v" if "(key, x) \<in> set cfg" for x
    using assms map_of_is_SomeI [OF assms(1) that] by simp
  then show ?thesis by (auto simp: typing_def set_attr_def)
qed

lemma convert_type: "convert t val = Some v \<Longrightarrow> type_of v = t"
  by (auto simp: convert_def type_of_def split: config_type.splits)

lemma typing_fst: "typing cfg = typing cfg' \<Longrightarrow> map fst cfg = map fst cfg'"
proof -
  have "map fst cfg = map fst (typing cfg)" for cfg :: agent_config by (simp add: typing_def)
  then show "typing cfg = typing cfg' \<Longrightarrow> map fst cfg = map fst cfg'" by metis
qed

lemma typing_map_of: "typing cfg = typing cfg' \<Longrightarrow> map_option type_of (map_of cfg k) = map_option type_of (map_of cfg' k)"
proof -
  have "map_of (typing c) k = map_option type_of (map_of c k)" for c :: agent_config
    by (induction c) (auto simp: typing_def)
  then show "typing cfg = typing cfg' \<Longrightarrow> map_option type_of (map_of cfg k) = map_option type_of (map_of cfg' k)" by metis
qed

lemma load_line_typing: "distinct (map fst cfg) \<Longrightarrow> typing (load_line line cfg) = typing cfg"
  by (auto simp: load_line_def convert_type intro: typing_set_attr split: option.splits)

lemma load_file_typing: "distinct (map fst cfg) \<Longrightarrow> typing (load_file ls cfg) = typing cfg"
proof (induction ls arbitrary: cfg)
  case (Cons l ls)
  then have "typing (load_line l cfg) = typing cfg" by (simp add: load_line_typing)
  moreover from this have "distinct (map fst (load_line l cfg))" using Cons.prems typing_fst by metis
  ultimately show ?case using Cons.IH [of "load_line l cfg"] by (simp add: load_file_def)
qed (simp add: load_file_def)

lemma load_env_typing:
  "distinct (map fst cfg) \<Longrightarrow> load_env env fs cfg = Inr cfg' \<Longrightarrow> typing cfg' = typing cfg"
proof (induction fs arbitrary: cfg)
  case (Cons f fs)
  show ?case
  proof (cases "env (env_key f) = None \<or> map_of cfg f = None")
    case True
    with Cons show ?thesis by (auto split: option.splits)
  next
    case False
    then obtain val old where e: "env (env_key f) = Some val" "map_of cfg f = Some old" by auto
    with Cons.prems(2) obtain v where v: "convert (type_of old) val = Some v" "load_env env fs (set_attr f v cfg) = Inr cfg'"
      by (auto split: option.splits)
    have t: "typing (set_attr f v cfg) = typing cfg"
      using typing_set_attr [OF Cons.prems(1) e(2)] convert_type [OF v(1)] by simp
    then have "distinct (map fst (set_attr f v cfg))" using Cons.prems(1) typing_fst by metis
    with Cons.IH v(2) t show ?thesis by metis
  qed
qed simp

text \<open>What the environment loop leaves in a field.\<close>

lemma load_env_field:
  "load_env env fs cfg = Inr cfg' \<Longrightarrow> distinct (map fst cfg) \<Longrightarrow> map_of cfg k = Some old \<Longrightarrow> distinct fs \<Longrightarrow>
   map_of cfg' k =
     (if k \<in> set fs then case env (env_key k) of None \<Rightarrow> Some old | Some val \<Rightarrow> convert (type_of old) val
      else Some old)"
proof (induction fs arbitrary: cfg old)
  case (Cons f fs)
  show ?case
  proof (cases "env (env_key f) = None \<or> map_of cfg f = None")
    case True
    then have "load_env env fs cfg = Inr cfg'" using Cons.prems(1) by (auto split: option.splits)
    from Cons.IH [OF this Cons.prems(2,3)] Cons.prems(3,4) True show ?thesis by (cases "k = f") auto
  next
    case False
    then obtain val fold where e: "env (env_key f) = Some val" "map_of cfg f = Some fold" by auto
    with Cons.prems(1) obtain v where v: "convert (type_of fold) val = Some v" "load_env env fs (set_attr f v cfg) = Inr cfg'"
      by (auto split: option.splits)
    have d: "distinct (map fst (set_attr f v cfg))" using Cons.prems(2) by (simp add: set_attr_def case_prod_beta o_def)
    have m: "map_of (set_attr f v cfg) k = Some (if k = f then v else old)"
      using Cons.prems(3) by (simp add: map_of_set_attr)
    show ?thesis
      using Cons.IH [OF v(2) d m] Cons.prems(3,4) e v(1) by (cases "k = f") auto
  qed
qed simp

lemma load_env_error:
  "load_env env fs cfg = Inl e \<Longrightarrow> e = ValueError"
  by (induction env fs cfg rule: load_env.induct) (auto split: option.splits)

text \<open>The last valid assignment of a field in a file.\<close>

definition line_value :: "config_type \<Rightarrow> pystr \<Rightarrow> pystr \<Rightarrow> config_value option" where
  "line_value t k line =
     (case parse_line line of
        None \<Rightarrow> None
      | Some (key, val) \<Rightarrow> if key = k then convert t val else None)"

lemma load_line_field:
  "map_of cfg k = Some old \<Longrightarrow>
   map_of (load_line line cfg) k = Some (case line_value (type_of old) k line of None \<Rightarrow> old | Some v \<Rightarrow> v)"
  by (auto simp: load_line_def line_value_def map_of_set_attr split: option.splits)

lemma line_value_type: "line_value t k line = Some v \<Longrightarrow> type_of v = t"
  by (auto simp: line_value_def dest: convert_type split: option.splits if_splits)

lemma load_file_field:
  "map_of cfg k = Some old \<Longrightarrow>
   map_of (load_file ls cfg) k = Some (case first_some (line_value (type_of old) k) (rev ls) of None \<Rightarrow> old | Some v \<Rightarrow> v)"
proof (induction ls rule: rev_induct)
  case (snoc l ls)
  let ?v = "case first_some (line_value (type_of old) k) (rev ls) of None \<Rightarrow> old | Some v \<Rightarrow> v"
  have "type_of ?v = type_of old"
    by (auto dest!: first_some_SomeD line_value_type split: option.split)
  with load_line_field [OF snoc.IH [OF snoc.prems], of l] show ?case
    by (auto simp: load_file_def split: option.splits)
qed (simp add: load_file_def)

lemma AgentConfig_fields: "distinct (map fst AgentConfig)"
proof -
  let ?names = "[''agent_id'', ''server_url'', ''socket_path'', ''duckdb_path'', ''model_path'', ''log_level'',
     ''mode'', ''api_key'', ''rules_dir'', ''patterns_file'', ''verdict_cache_ttl'',
     ''telemetry_batch_size'', ''telemetry_flush_interval'', ''cve_sync_interval'',
     ''model_check_interval'', ''content_full_scan_limit'', ''content_sample_scan_limit'',
     ''ml_block_threshold'', ''socket_timeout'']"
  have "map fst AgentConfig = map lit ?names" by (simp add: AgentConfig_def)
  moreover have "distinct ?names" by code_simp
  then have "distinct (map lit ?names)" unfolding distinct_map by (simp add: inj_on_def lit_eq_iff del: list.map list.set)
  ultimately show ?thesis by simp
qed

lemma base_config_typing: "typing (base_config project_root) = typing AgentConfig"
proof -
  have r: "map_of AgentConfig (lit ''rules_dir'') = Some (VStr [])" "map_of AgentConfig (lit ''patterns_file'') = Some (VStr [])"
    by code_simp+
  have n: "lit ''patterns_file'' \<noteq> lit ''rules_dir''" by code_simp
  let ?c = "set_attr (lit ''rules_dir'') (VStr (project_root @ lit ''/rules/yara'')) AgentConfig"
  have t: "typing ?c = typing AgentConfig"
    by (rule typing_set_attr [OF AgentConfig_fields r(1)]) (simp add: type_of_def)
  have "distinct (map fst ?c)" unfolding typing_fst [OF t] by (rule AgentConfig_fields)
  moreover have "map_of ?c (lit ''patterns_file'') = Some (VStr [])" using r(2) n by (simp add: map_of_set_attr)
  ultimately have "typing (base_config project_root) = typing ?c"
    unfolding base_config_def by (rule typing_set_attr) (simp add: type_of_def)
  with t show ?thesis by simp
qed

lemma typing_fields: "typing cfg = typing AgentConfig \<Longrightarrow> map fst cfg = map fst AgentConfig \<and> distinct (map fst cfg)"
  using typing_fst AgentConfig_fields by metis

lemma loaded_file:
  "typing (load_file ls (base_config project_root)) = typing AgentConfig"
  using load_file_typing typing_fields base_config_typing by metis

lemma load_env_fails:
  "distinct (map fst cfg) \<Longrightarrow> distinct fs \<Longrightarrow> (\<exists>e. load_env env fs cfg = Inl e) \<longleftrightarrow>
   (\<exists>k \<in> set fs. \<exists>d val. map_of cfg k = Some d \<and> env (env_key k) = Some val \<and> convert (type_of d) val = None)"
proof (induction fs arbitrary: cfg)
  case (Cons f fs)
  show ?case
  proof (cases "env (env_key f) = None \<or> map_of cfg f = None")
    case True
    then have "load_env env (f # fs) cfg = load_env env fs cfg" by (auto split: option.splits)
    then have "(\<exists>e. load_env env (f # fs) cfg = Inl e) \<longleftrightarrow>
        (\<exists>k \<in> set fs. \<exists>d val. map_of cfg k = Some d \<and> env (env_key k) = Some val \<and> convert (type_of d) val = None)"
      using Cons.IH [of cfg] Cons.prems by simp
    moreover have "\<not> (\<exists>d val. map_of cfg f = Some d \<and> env (env_key f) = Some val \<and> convert (type_of d) val = None)"
      using True by auto
    ultimately show ?thesis by (simp only: list.set bex_simps simp_thms)
  next
    case False
    then obtain val old where e: "env (env_key f) = Some val" "map_of cfg f = Some old" by auto
    show ?thesis
    proof (cases "convert (type_of old) val")
      case None
      with e show ?thesis by auto
    next
      case (Some v)
      have d: "distinct (map fst (set_attr f v cfg))" using Cons.prems(1) by (simp add: set_attr_def case_prod_beta o_def)
      have "map_of (set_attr f v cfg) k = map_of cfg k" if "k \<in> set fs" for k
        using Cons.prems(2) that by (auto simp: map_of_set_attr)
      with Cons.IH [OF d] Cons.prems(2) e Some show ?thesis by auto
    qed
  qed
qed simp

subsection \<open>Properties\<close>

text \<open>
  C35: The configuration has the fields of the class with their types, whatever the file and the environment
  contain, and every field but the generated identifier has the value of its environment variable if there is
  one, else of the last line of the first existing file that assigns it a well-formed value, else its default.
\<close>

theorem config_precedence:
  assumes "load_config fs env project_root uuid path = Inr cfg"
    and "map_of (base_config project_root) k = Some d" "k \<noteq> lit ''agent_id''"
  shows "typing cfg = typing AgentConfig \<and>
    map_of cfg k =
      (case env (env_key k) of
         Some val \<Rightarrow> convert (type_of d) val
       | None \<Rightarrow>
           Some (case first_some (line_value (type_of d) k) (rev (first_file fs (config_paths project_root path))) of
                   None \<Rightarrow> d | Some v \<Rightarrow> v))"
proof -
  let ?f = "load_file (first_file fs (config_paths project_root path)) (base_config project_root)"
  let ?x = "case first_some (line_value (type_of d) k) (rev (first_file fs (config_paths project_root path))) of
      None \<Rightarrow> d | Some v \<Rightarrow> v"
  have fd: "distinct (map fst ?f)" using typing_fields [OF loaded_file] by blast
  obtain c where c: "load_env env (map fst AgentConfig) ?f = Inr c"
    "cfg = (if map_of c (lit ''agent_id'') = Some (VStr []) then set_attr (lit ''agent_id'') (VStr uuid) c else c)"
    using assms(1) by (auto simp: load_config_def split: sum.splits)
  have ct: "typing c = typing AgentConfig" using load_env_typing [OF fd c(1)] loaded_file by simp
  then have t: "typing cfg = typing AgentConfig"
    using c(2) typing_set_attr [of c "lit ''agent_id''" "VStr []" "VStr uuid"] typing_fields [OF ct]
    by (auto simp: type_of_def)
  have k: "k \<in> set (map fst AgentConfig)"
  proof -
    have "k \<in> set (map fst (base_config project_root))" using map_of_SomeD [OF assms(2)] by force
    then show ?thesis using typing_fields [OF base_config_typing [of project_root]] by simp
  qed
  have ty: "type_of ?x = type_of d"
    by (auto dest!: first_some_SomeD line_value_type split: option.split)
  have "map_of cfg k = map_of c k" using c(2) assms(3) by (simp add: map_of_set_attr)
  also have "\<dots> = (case env (env_key k) of None \<Rightarrow> Some ?x | Some val \<Rightarrow> convert (type_of d) val)"
    using load_env_field [OF c(1) fd load_file_field [OF assms(2)] AgentConfig_fields, unfolded ty] k by simp
  finally show ?thesis using t by (simp split: option.split)
qed

theorem config_precedence_witness:
  "\<exists>cfg. load_config (\<lambda>p. if p = lit ''/etc/aiss/aiss.conf'' then Some [lit ''mode = shadow'', lit ''verdict-cache-ttl=x''] else None)
     (\<lambda>e. if e = lit ''AISS_VERDICT_CACHE_TTL'' then Some (lit ''5'') else None) (lit ''/app'') [49] None = Inr cfg \<and>
   map_of cfg (lit ''mode'') = Some (VStr (lit ''shadow'')) \<and> map_of cfg (lit ''verdict_cache_ttl'') = Some (VInt 5)"
proof -
  let ?fs = "\<lambda>p. if p = lit ''/etc/aiss/aiss.conf'' then Some [lit ''mode = shadow'', lit ''verdict-cache-ttl=x''] else None"
  let ?env = "\<lambda>e. if e = lit ''AISS_VERDICT_CACHE_TTL'' then Some (lit ''5'') else None"
  have "isl (load_config ?fs ?env (lit ''/app'') [49] None) = False" by code_simp
  then obtain cfg where c: "load_config ?fs ?env (lit ''/app'') [49] None = Inr cfg"
    by (cases "load_config ?fs ?env (lit ''/app'') [49] None") auto
  have d: "map_of (base_config (lit ''/app'')) (lit ''mode'') = Some (VStr (lit ''enforce''))"
    "map_of (base_config (lit ''/app'')) (lit ''verdict_cache_ttl'') = Some (VInt 60)"
    "lit ''mode'' \<noteq> lit ''agent_id''" "lit ''verdict_cache_ttl'' \<noteq> lit ''agent_id''" by code_simp+
  have "(case ?env (env_key (lit ''mode'')) of
         Some val \<Rightarrow> convert (type_of (VStr (lit ''enforce''))) val
       | None \<Rightarrow>
           Some (case first_some (line_value (type_of (VStr (lit ''enforce''))) (lit ''mode''))
                   (rev (first_file ?fs (config_paths (lit ''/app'') None))) of
                   None \<Rightarrow> VStr (lit ''enforce'') | Some v \<Rightarrow> v)) = Some (VStr (lit ''shadow''))" by code_simp
  moreover have "(case ?env (env_key (lit ''verdict_cache_ttl'')) of
         Some val \<Rightarrow> convert (type_of (VInt 60)) val
       | None \<Rightarrow>
           Some (case first_some (line_value (type_of (VInt 60)) (lit ''verdict_cache_ttl''))
                   (rev (first_file ?fs (config_paths (lit ''/app'') None))) of
                   None \<Rightarrow> VInt 60 | Some v \<Rightarrow> v)) = Some (VInt 5)" by code_simp
  ultimately show ?thesis
    using c config_precedence [OF c d(1) d(3)] config_precedence [OF c d(2) d(4)] by metis
qed

text \<open>
  The loader fails in one case only: an environment variable of a numeric field holds a text that is not
  a number of its type. A malformed line of the file never does this.
\<close>

theorem config_fails_iff:
  "(\<exists>e. load_config fs env project_root uuid path = Inl e) \<longleftrightarrow>
   (\<exists>k d val. map_of (base_config project_root) k = Some d \<and> env (env_key k) = Some val \<and>
      convert (type_of d) val = None)"
proof -
  let ?f = "load_file (first_file fs (config_paths project_root path)) (base_config project_root)"
  have fd: "distinct (map fst ?f)" using typing_fields [OF loaded_file] by blast
  have ty: "map_option type_of (map_of ?f k) = map_option type_of (map_of (base_config project_root) k)" for k
    by (rule typing_map_of) (simp add: loaded_file base_config_typing)
  have dom: "map_of (base_config project_root) k = Some d \<Longrightarrow> k \<in> set (map fst AgentConfig)" for k d
    using typing_fields [OF base_config_typing [of project_root]] map_of_SomeD by (metis fst_conv image_eqI list.set_map)
  have "(\<exists>e. load_config fs env project_root uuid path = Inl e) \<longleftrightarrow> (\<exists>e. load_env env (map fst AgentConfig) ?f = Inl e)"
    by (auto simp: load_config_def split: sum.splits)
  also have "\<dots> \<longleftrightarrow> (\<exists>k \<in> set (map fst AgentConfig). \<exists>d val. map_of ?f k = Some d \<and> env (env_key k) = Some val \<and>
      convert (type_of d) val = None)"
    by (rule load_env_fails [OF fd AgentConfig_fields])
  also have "\<dots> \<longleftrightarrow> (\<exists>k d val. map_of (base_config project_root) k = Some d \<and> env (env_key k) = Some val \<and>
      convert (type_of d) val = None)"
  proof -
    have "(\<exists>d. map_of ?f k = Some d \<and> convert (type_of d) val = None) \<longleftrightarrow>
        (\<exists>d. map_of (base_config project_root) k = Some d \<and> convert (type_of d) val = None)" for k val
      using ty [of k] by (cases "map_of ?f k"; cases "map_of (base_config project_root) k") auto
    then show ?thesis using dom by blast
  qed
  finally show ?thesis .
qed

end
