(* ===== verification/Spec2Isabelle.thy ===== *)
theory Spec2Isabelle
  imports ProxyBody BlockPage DummyPage AgentServer TrainModel ApiSecrets Upkeep Locks Config
begin

text \<open>
  A verification library for the AISS web application firewall.

  \<^bold>\<open>The program.\<close> A reverse proxy (\<open>waf-proxy/main.py\<close>) describes every HTTP request as one JSON line and
  sends it over a Unix socket to the agent (\<open>agent/\<close>). The agent's socket server hands the request to a pipeline of
  three tiers with content inspection between the second and the third, and answers PERMIT or BLOCK; the proxy shows
  its block page or forwards the request. The agent keeps a local store and a telemetry buffer. The central server
  (\<open>server/app/\<close>) distributes attack signatures it collects from public feeds, ingests telemetry, offers a
  synchronous inspection endpoint, and protects its own API with keys and roles, a rate limit and a chained audit log.

  \<^bold>\<open>Shared theories.\<close>
  \<^item> \<open>Prelude\<close>: text and bytes as lists of code points, string methods, exceptions (\<open>'a result\<close>), first matches.
  \<^item> \<open>PyText\<close>, \<open>PyLib\<close>, \<open>Json\<close>, \<open>Floats\<close>, \<open>Entropy\<close>, \<open>Regex\<close> with \<open>UnicodeTables\<close>: what the program uses of
    Python's standard library, as executable functions: UTF-8, percent and Base64 coding, decimal text, dates,
    \<open>float\<close> and \<open>int\<close> of a text, \<open>json\<close>, double arithmetic, regular expressions. Their lemmas are round trips and the
    agreement of the backtracking matcher with the declarative meaning of a pattern.
  \<^item> \<open>KeyTable\<close>: locales for dictionaries, headers and rows with a unique column. \<open>BQueue\<close>: the locale
    \<open>bounded_buffer\<close> of the three queues in front of background workers. \<open>Request\<close>: the agent's request.

  \<^bold>\<open>The agent.\<close>
  \<^item> \<open>Tier1\<close> (\<open>tier1_patterns.py\<close>), \<open>Tier2\<close> (\<open>tier2_injection.py\<close>), \<open>Tier3\<close> (\<open>tier3_ml.py\<close>): loading and scanning of
    signatures; injection patterns and the inputs taken from a request; features and anomaly score.
  \<^item> \<open>Content\<close> (\<open>security/content/\<close>): magic bytes, entropy, YARA, Base64 candidates.
  \<^item> \<open>Store\<close> (\<open>duckdb_store.py\<close>) and \<open>Telemetry\<close> (\<open>buffer.py\<close>): tables behind a write queue, and the event buffer; both are
    records with one definition per method, and both interpret \<open>bounded_buffer\<close>.
  \<^item> \<open>Pipeline\<close> (\<open>pipeline.py\<close>): \<open>check\<close> with everything it calls. Its properties compose the tiers: what is blocked
    whatever surrounds it, what a verdict says, and how the hash cache lets a blocked upload pass.
  \<^item> \<open>SocketServer\<close> and \<open>AgentServer\<close> (\<open>socket_server.py\<close>): one connection, and the life of the server as
    interleaved steps of the accepting thread, the workers and the stopping thread.
  \<^item> \<open>Config\<close> (\<open>config.py\<close>): defaults, file, environment.
  \<^item> \<open>TrainModel\<close> (\<open>scripts/train_model.py\<close>): the synthetic samples for the model of Tier 3 over numpy's generator, the
    export and the command line, compared with the features and the score of \<open>Tier3\<close>.

  \<^bold>\<open>The proxy.\<close> \<open>WafProxy\<close> models the handler over an arbitrary agent and backend, then puts the socket server in the
  agent's place (\<open>agent_wire\<close>): the two JSON directions, cut into arbitrary pieces, are shown to carry the request
  and the verdict, so the proxy does what the pipeline decided. \<open>ProxyBody\<close> shows what the Base64 form of a body hides.
  \<open>BlockPage\<close> is the template of the block page with the part of \<open>str.format\<close> it uses; from the texts of every tier it is
  shown that no character of a request becomes markup of the page.
  \<open>TelemetryPath\<close> follows an event from the agent through the proxy into the server's table.
  \<open>DummyApp\<close> (\<open>dummy-server/app.py\<close>) is the shop the demonstration protects; \<open>DummyPage\<close> holds its home page against what
  Tier 2 does with the payloads it lists.

  \<^bold>\<open>The server.\<close>
  \<^item> \<open>Inspect\<close> with \<open>InspectRules\<close> (\<open>routers/inspect.py\<close>): signature cache, scan target, rules, verdict, stored event.
    The locale \<open>segment_scanner\<close> states what the rule lists have in common. \<open>FeedInspect\<close> adds the daemon thread that refreshes the
    cache, and follows an entry of a feed through the table and the cache to a verdict.
  \<^item> \<open>Auth\<close> (\<open>auth.py\<close>, \<open>routers/auth.py\<close>), \<open>RateLimit\<close> (\<open>middleware/rate_limit.py\<close>), \<open>AuditLog\<close> (\<open>middleware/audit.py\<close>,
    \<open>routers/audit.py\<close>): credentials, roles and tokens; the sliding window; the HMAC chain.
  \<^item> \<open>ServerStack\<close> (\<open>main.py\<close>, \<open>middleware/\<close>): the layers composed over arbitrary routes, with the audit endpoints;
    \<open>Startup\<close> (\<open>main.py\<close>, \<open>database.py\<close>): tables, migration, bootstrap key, first synchronisation.
  \<^item> \<open>ServerDb\<close> (\<open>routers/agents.py\<close>, \<open>telemetry.py\<close>, \<open>updates.py\<close>, \<open>stats.py\<close>): the tables and the handlers over them.
  \<^item> \<open>CveSync\<close> (\<open>cve_sync.py\<close>): the feeds, the patterns made from them, the upsert as an override of a map.
  \<^item> \<open>Locks\<close> (\<open>database.py\<close> and every user of its lock): the order in which the two locks are taken, and all
    interleavings of any number of requests, with the deadlocks and the condition that excludes them.
  \<^item> \<open>ServerApi\<close> (\<open>main.py\<close>, every router): all endpoints as one type of call over one state, behind the stack of
    \<open>ServerStack\<close>; runs in which requests, audit workers, background tasks, synchronisations and cache refreshes
    interleave. Its properties are about the whole server: who may do what, what strangers can change, what is always true.
    \<open>Schemas\<close> (\<open>schemas.py\<close> and the models of the routers) reads the bodies and shows the rows; \<open>ApiSecrets\<close> compares two servers
    that differ in the agents' stored keys.
  \<^item> \<open>Doris\<close> (\<open>doris.py\<close>, \<open>grpc_server.py\<close>) with \<open>Proto\<close> (\<open>proto/gen/python/aiss_pb2.py\<close>): the batching writer, the upserts,
    the gRPC handlers on the message classes, and the port.

  \<^bold>\<open>Beside the requests.\<close> \<open>Upkeep\<close>: the synchronisation loop, the proxy's heartbeat and start, the shutdown of the server
  and the closing of the agent's store, each as a function of the rounds one looks at.

  \<^bold>\<open>Conventions.\<close> A class with state is a record, a method a function that returns the new state; an exception is the left
  side of a sum or \<open>None\<close>. Times are integers (the unit is named in each theory). SQL statements act on lists of rows
  as the statement asks; the constraints are those of \<open>models.py\<close>. A method that runs under a lock is one step.

  \<^bold>\<open>Parameters.\<close> Code that is not in the repository is an argument: SHA-256 and HMAC, \<open>re.compile\<close> on texts
  that come from files or feeds, YARA, the JWT library, HTTP and MySQL clients, the backend, \<open>isoformat\<close> of a time
  the database driver returns. So are clocks, measured latencies, fresh identifiers, and how far a background thread
  gets. Hypotheses about them state documented behaviour and are met by concrete functions in the examples.

  \<^bold>\<open>Recursion and fuel.\<close> All functions are total. Loops that follow the data recurse over it; \<open>split_ws\<close>, decimal
  text and the decoders terminate by a measure on the rest of the text. The JSON parser alone has fuel: one more
  than the length of the text, which \<open>pval_fuel\<close> shows to be enough. Regular expressions recurse over the pattern, an
  unbounded repetition over the rest of the text, because every repeated body of the program consumes (\<open>loops_consume\<close>).
  The endless loops of the program (accept loop, flush loops) are relations or lists of steps of any length.

  \<^bold>\<open>Bounds.\<close> A double is an exact multiple of 2^-120, which holds every number of the program that is zero or at
  least 2^-67; entropies are real numbers. \<open>int\<close> and \<open>float\<close> of a text cover ASCII text.

  \<^bold>\<open>Not modelled.\<close> Logging, CORS and metrics (third-party layers), the matching of paths to endpoints (the framework's,
  a parameter of \<open>ServerApi\<close>), the set-up of the database engine and of the HTTP clients, and the patterns of
  \<open>tier2_injection.py\<close> that no function uses.
\<close>

end
